(* ===== verification/Go_Prelude.thy ===== *)
theory Go_Prelude
  imports Main "HOL-Library.Word" "HOL-Library.Multiset"
begin

text \<open>
  Shared ground of the development: what the Go sources use of the language and of the
  \<^verbatim>\<open>time\<close> package (instants, durations, saturating subtraction, iteration
  over maps in an unspecified order), the values that stand for panics, reachability of
  labelled transition systems, and the generic lemmas the components share.

  \<^item> A \<^verbatim>\<open>time.Time\<close> is an integer number of nanoseconds counted from the zero
    instant, so that \<^verbatim>\<open>IsZero\<close> is equality with 0; a \<^verbatim>\<open>time.Duration\<close> is the
    64-bit signed number of nanoseconds, as an integer.
  \<^item> A Go map is a partial function. Ranging over it visits the keys in an order the
    language leaves open; every definition that ranges takes that order as an argument,
    and \<open>range_order\<close> says which orders are possible.
  \<^item> A panic is a value of \<open>panic\<close>, so that every index, division and
    nil-map failure of the source is a branch of the model.
\<close>

named_theorems inv_intro \<open>preservation lemmas of the components' invariants\<close>
named_theorems handler_simps \<open>what the handlers of a component return, branch by branch\<close>

section \<open>Panics\<close>

datatype panic =
    IndexOutOfRange
  | IntegerDivideByZero
  | NilMapWrite
  | ChanSizeOutOfRange
  | InvalidWriteHeaderCode

section \<open>Instants and durations\<close>

type_synonym time = int
type_synonym duration = int
type_synonym bytes = string

definition max_int64 :: int where
  "max_int64 = 2 ^ 63 - 1"

definition min_int64 :: int where
  "min_int64 = - (2 ^ 63)"

definition sat64 :: "int \<Rightarrow> int" where
  "sat64 x = (if x < min_int64 then min_int64 else if max_int64 < x then max_int64 else x)"

definition time_sub :: "time \<Rightarrow> time \<Rightarrow> duration" where
  "time_sub t u = sat64 (t - u)"

definition IsZero :: "time \<Rightarrow> bool" where
  "IsZero t \<longleftrightarrow> t = 0"

abbreviation Second :: duration where
  "Second \<equiv> 1000000000"

abbreviation Millisecond :: duration where
  "Millisecond \<equiv> 1000000"

lemma sat64_range: "min_int64 \<le> sat64 x" "sat64 x \<le> max_int64"
  by (auto simp: sat64_def min_int64_def max_int64_def)

lemma sat64_id [simp]: "min_int64 \<le> x \<Longrightarrow> x \<le> max_int64 \<Longrightarrow> sat64 x = x"
  by (simp add: sat64_def)

lemma sat64_mono: "x \<le> y \<Longrightarrow> sat64 x \<le> sat64 y"
  by (auto simp: sat64_def min_int64_def max_int64_def)

lemma sat64_less_iff: "min_int64 < d \<Longrightarrow> d \<le> max_int64 \<Longrightarrow> sat64 x < d \<longleftrightarrow> x < d"
  by (auto simp: sat64_def)

lemma time_sub_less_iff:
  "min_int64 < d \<Longrightarrow> d \<le> max_int64 \<Longrightarrow> time_sub t u < d \<longleftrightarrow> t < u + d"
  by (auto simp: time_sub_def sat64_less_iff)

lemma time_sub_nonneg: "u \<le> t \<Longrightarrow> 0 \<le> time_sub t u"
  by (auto simp: time_sub_def sat64_def min_int64_def max_int64_def)

lemma time_sub_self [simp]: "time_sub t t = 0"
  by (simp add: time_sub_def sat64_def min_int64_def max_int64_def)

text \<open>
  When a timer armed at \<open>now\<close> for duration \<open>d\<close> is due. The runtime arms a timer with a
  non-positive duration for the current instant.
\<close>

definition timer_when :: "time \<Rightarrow> duration \<Rightarrow> time" where
  "timer_when now d = (if d \<le> 0 then now else now + d)"

lemma timer_when_ge: "now + d \<le> timer_when now d" "now \<le> timer_when now d"
  by (auto simp: timer_when_def)

section \<open>Ranging over maps\<close>

definition range_order :: "('k \<rightharpoonup> 'v) \<Rightarrow> 'k list \<Rightarrow> bool" where
  "range_order m ks \<longleftrightarrow> distinct ks \<and> set ks = dom m"

definition range_values :: "('k \<rightharpoonup> 'v) \<Rightarrow> 'k list \<Rightarrow> 'v list" where
  "range_values m ks = List.map_filter m ks"

lemma range_values_Nil [simp]: "range_values m [] = []"
  by (simp add: range_values_def)

lemma range_values_Cons [simp]:
  "range_values m (k # ks) =
     (case m k of None \<Rightarrow> range_values m ks | Some v \<Rightarrow> v # range_values m ks)"
  by (simp add: range_values_def split: option.splits)

lemma range_values_append [simp]:
  "range_values m (xs @ ys) = range_values m xs @ range_values m ys"
  by (induction xs) (auto split: option.splits)

lemma set_range_values: "set (range_values m ks) = {v. \<exists>k \<in> set ks. m k = Some v}"
  by (induction ks) (auto split: option.splits)

lemma range_values_ran: "range_order m ks \<Longrightarrow> set (range_values m ks) = ran m"
  by (auto simp: set_range_values range_order_def ran_def)

lemma range_values_eq_map:
  "set ks \<subseteq> dom m \<Longrightarrow> range_values m ks = map (\<lambda>k. the (m k)) ks"
  by (induction ks) auto

lemma range_order_values: "range_order m ks \<Longrightarrow> range_values m ks = map (\<lambda>k. the (m k)) ks"
  by (simp add: range_values_eq_map range_order_def)

lemma length_range_values: "range_order m ks \<Longrightarrow> length (range_values m ks) = card (dom m)"
  by (simp add: range_order_values) (metis distinct_card range_order_def)

text \<open>
  Whatever order the language picks, the multiset of visited values is the same: a
  computation that only depends on it does not depend on the order.
\<close>

lemma range_values_mset_unique:
  assumes "range_order m ks" and "range_order m ks'"
  shows "mset (range_values m ks) = mset (range_values m ks')"
proof -
  from assms have "mset ks = mset ks'"
    by (metis range_order_def set_eq_iff_mset_eq_distinct)
  then show ?thesis
    using assms by (simp add: range_order_values)
qed

lemma range_order_upd_new:
  "range_order m ks \<Longrightarrow> k \<notin> dom m \<Longrightarrow> range_order (m(k \<mapsto> v)) (ks @ [k])"
  by (auto simp: range_order_def)

lemma range_order_finite: "finite (dom m) \<Longrightarrow> \<exists>ks. range_order m ks"
  by (metis finite_distinct_list range_order_def)

lemma count_list_distinct: "distinct xs \<Longrightarrow> count_list xs x = (if x \<in> set xs then 1 else 0)"
  by (induction xs) auto

text \<open>Counting the visited values that satisfy a predicate counts keys.\<close>

lemma length_filter_range_values:
  assumes "range_order m ks"
  shows "length (filter P (range_values m ks)) = card {k. \<exists>v. m k = Some v \<and> P v}"
proof -
  have "length (filter P (range_values m ks)) = length (filter (\<lambda>k. P (the (m k))) ks)"
    using assms by (simp add: range_order_values filter_map comp_def)
  also have "\<dots> = card (set (filter (\<lambda>k. P (the (m k))) ks))"
    using assms by (metis distinct_card distinct_filter range_order_def)
  also have "set (filter (\<lambda>k. P (the (m k))) ks) = {k. \<exists>v. m k = Some v \<and> P v}"
    using assms by (auto simp: range_order_def)
  finally show ?thesis .
qed

section \<open>Transition systems\<close>

inductive reach :: "('s \<Rightarrow> bool) \<Rightarrow> ('s \<Rightarrow> 'e \<Rightarrow> 's \<Rightarrow> bool) \<Rightarrow> 's \<Rightarrow> bool"
  for start :: "'s \<Rightarrow> bool" and step :: "'s \<Rightarrow> 'e \<Rightarrow> 's \<Rightarrow> bool" where
  reach_start: "start s \<Longrightarrow> reach start step s"
| reach_step: "reach start step s \<Longrightarrow> step s e t \<Longrightarrow> reach start step t"

inductive run :: "('s \<Rightarrow> 'e \<Rightarrow> 's \<Rightarrow> bool) \<Rightarrow> 's \<Rightarrow> 'e list \<Rightarrow> 's \<Rightarrow> bool"
  for step :: "'s \<Rightarrow> 'e \<Rightarrow> 's \<Rightarrow> bool" where
  run_Nil: "run step s [] s"
| run_Cons: "step s e t \<Longrightarrow> run step t es u \<Longrightarrow> run step s (e # es) u"

inductive_simps run_Nil_iff [simp]: "run step s [] t"
inductive_simps run_Cons_iff: "run step s (e # es) t"

lemma run_append: "run step s es t \<Longrightarrow> run step t es' u \<Longrightarrow> run step s (es @ es') u"
  by (induction rule: run.induct) (auto intro: run.intros)

lemma reach_run: "run step s es t \<Longrightarrow> reach start step s \<Longrightarrow> reach start step t"
  by (induction rule: run.induct) (auto intro: reach.reach_step)

lemma reach_runs:
  assumes "reach start step t"
  obtains s es where "start s" "run step s es t"
proof -
  have "\<exists>s es. start s \<and> run step s es t"
    using assms
  proof (induction rule: reach.induct)
    case (reach_step s e t)
    then obtain s0 es where "start s0" "run step s0 es s" by blast
    then have "run step s0 (es @ [e]) t" using reach_step(2) by (intro run_append) (simp_all add: run_Cons_iff)
    then show ?case using \<open>start s0\<close> by blast
  qed (blast intro: run_Nil)
  then show thesis using that by blast
qed

text \<open>A run with the states it goes through: \<open>es ! n\<close> leads from \<open>f n\<close> to \<open>f (Suc n)\<close>.\<close>

definition state_path :: "('s \<Rightarrow> 'e \<Rightarrow> 's \<Rightarrow> bool) \<Rightarrow> (nat \<Rightarrow> 's) \<Rightarrow> 'e list \<Rightarrow> bool" where
  "state_path step f es \<longleftrightarrow> (\<forall>n < length es. step (f n) (es ! n) (f (Suc n)))"

lemma path_reach:
  assumes "start (f 0)" and "state_path step f es" and "n \<le> length es"
  shows "reach start step (f n)"
  using assms(3)
proof (induction n)
  case (Suc n)
  then have "step (f n) (es ! n) (f (Suc n))" using assms(2) by (simp add: state_path_def)
  then show ?case using reach.reach_step [OF Suc.IH] Suc.prems by simp
qed (simp add: reach.reach_start assms(1))

lemma run_path:
  assumes "run step s es t"
  shows "\<exists>f. f 0 = s \<and> f (length es) = t \<and> state_path step f es"
  using assms
proof (induction rule: run.induct)
  case (run_Nil s)
  then show ?case by (intro exI [of _ "\<lambda>_. s"]) (simp add: state_path_def)
next
  case (run_Cons s e t es u)
  then obtain f where f: "f 0 = t" "f (length es) = u" "state_path step f es" by blast
  have "state_path step (case_nat s f) (e # es)"
    unfolding state_path_def
  proof (intro allI impI)
    fix n assume "n < length (e # es)"
    then show "step (case_nat s f n) ((e # es) ! n) (case_nat s f (Suc n))"
      using f run_Cons(1) by (cases n) (auto simp: state_path_def)
  qed
  then show ?case using f(2) by (intro exI [of _ "case_nat s f"]) simp
qed

text \<open>
  An inductive invariant of a transition system: it holds at the start and every step
  keeps it. The components' step relations are interpretations of this locale.
\<close>

locale inductive_invariant =
  fixes start :: "'s \<Rightarrow> bool"
    and step :: "'s \<Rightarrow> 'e \<Rightarrow> 's \<Rightarrow> bool"
    and Inv :: "'s \<Rightarrow> bool"
  assumes start_inv: "start s \<Longrightarrow> Inv s"
    and step_inv: "Inv s \<Longrightarrow> step s e t \<Longrightarrow> Inv t"
begin

lemma reach_inv: "reach start step s \<Longrightarrow> Inv s"
  by (induction rule: reach.induct) (auto intro: start_inv step_inv)

lemma run_inv: "run step s es t \<Longrightarrow> Inv s \<Longrightarrow> Inv t"
  by (induction rule: run.induct) (auto intro: step_inv)

end

text \<open>
  A refinement map: every step of the detailed system leaves its abstraction alone or is a step of the
  abstract system. A system that is put together from others is mapped to each of them
  in this way, and what has been shown of the parts holds of the whole.
\<close>

locale refinement_map = inductive_invariant start step Inv
  for start :: "'s \<Rightarrow> bool" and step :: "'s \<Rightarrow> 'e \<Rightarrow> 's \<Rightarrow> bool" and Inv :: "'s \<Rightarrow> bool" +
  fixes astart :: "'a \<Rightarrow> bool"
    and astep :: "'a \<Rightarrow> 'f \<Rightarrow> 'a \<Rightarrow> bool"
    and abs :: "'s \<Rightarrow> 'a"
  assumes start_abs: "start s \<Longrightarrow> astart (abs s)"
    and step_abs: "Inv s \<Longrightarrow> step s e t \<Longrightarrow> abs t = abs s \<or> (\<exists>a. astep (abs s) a (abs t))"
begin

lemma reach_abs: "reach start step s \<Longrightarrow> reach astart astep (abs s)"
proof (induction rule: reach.induct)
  case (reach_step s e t)
  then show ?case using step_abs [OF reach_inv] by (metis reach.reach_step)
qed (simp add: reach.reach_start start_abs)

end

text \<open>
  A system that comes to rest: its internal steps decrease a measure, and its quiet steps leave it alone. So in an
  infinite run of internal and quiet steps the internal ones end, whatever the schedule.
\<close>

locale settling = inductive_invariant start step Inv
  for start :: "'s \<Rightarrow> bool" and step :: "'s \<Rightarrow> 'e \<Rightarrow> 's \<Rightarrow> bool" and Inv :: "'s \<Rightarrow> bool" +
  fixes inner quiet :: "'e \<Rightarrow> bool"
    and m :: "'s \<Rightarrow> 'm"
    and R :: "('m \<times> 'm) set"
  assumes wf_R: "wf R"
    and decreases: "Inv s \<Longrightarrow> step s e t \<Longrightarrow> inner e \<Longrightarrow> (m t, m s) \<in> R"
    and stays: "Inv s \<Longrightarrow> step s e t \<Longrightarrow> quiet e \<Longrightarrow> m t = m s"
begin

lemma inner_steps_end:
  assumes "reach start step (f 0)" and "\<And>n. step (f n) (es n) (f (Suc n))" and "\<And>n. inner (es n) \<or> quiet (es n)"
  shows "\<exists>n. \<forall>k \<ge> n. \<not> inner (es k)"
proof -
  have "reach start step (f n)" for n
  proof (induction n)
    case (Suc n)
    show ?case by (rule reach.reach_step [of start step, OF Suc assms(2)])
  qed (rule assms(1))
  then have inv: "Inv (f n)" for n by (rule reach_inv)
  have "m (f 0) \<in> range (\<lambda>k. m (f k))" by (rule rangeI)
  then obtain z where z: "z \<in> range (\<lambda>k. m (f k))" "\<And>y. (y, z) \<in> R \<Longrightarrow> y \<notin> range (\<lambda>k. m (f k))"
    by (rule wfE_min [OF wf_R]) simp
  then obtain n where "z = m (f n)" by blast
  with z(2) have least: "(m (f k), m (f n)) \<notin> R" for k by blast
  have same: "m (f k) = m (f n)" if "n \<le> k" for k
    using that
  proof (induction k rule: dec_induct)
    case (step k)
    then show ?case
      using assms(3) [of k] decreases [OF inv assms(2), of k] stays [OF inv assms(2), of k] least [of "Suc k"] by auto
  qed simp
  have "\<not> inner (es k)" if "n \<le> k" for k
    using decreases [OF inv assms(2), of k] same [OF that] least [of "Suc k"] by auto
  then show ?thesis by blast
qed

lemma rests:
  assumes "reach start step s"
  shows "\<nexists>f. f 0 = s \<and> (\<forall>n. \<exists>e. inner e \<and> step (f n) e (f (Suc n)))"
proof
  assume "\<exists>f. f 0 = s \<and> (\<forall>n. \<exists>e. inner e \<and> step (f n) e (f (Suc n)))"
  then obtain f es where "f 0 = s" "\<And>n. inner (es n) \<and> step (f n) (es n) (f (Suc n))" by metis
  then show False using inner_steps_end [of f es] assms by blast
qed

end

text \<open>A sum of which one summand decreases and no other grows.\<close>

lemma sum_decreases:
  fixes f g :: "'a \<Rightarrow> nat"
  assumes "finite A" and "a \<in> A" and "f a < g a" and "\<And>x. x \<in> A \<Longrightarrow> x \<noteq> a \<Longrightarrow> f x \<le> g x"
  shows "sum f A < sum g A"
proof (rule sum_strict_mono_ex1 [OF assms(1)])
  show "\<forall>x \<in> A. f x \<le> g x" using assms(3,4) by (metis less_imp_le)
  show "\<exists>x \<in> A. f x < g x" using assms(2,3) by (rule bexI [rotated])
qed

end
