(* ===== verification/Float64.thy ===== *)
theory Float64
  imports Go_Prelude Complex_Main "HOL-Library.Log_Nat" "HOL-Library.Signed_Division"
begin

text \<open>
  Go's \<^verbatim>\<open>float64\<close>: IEEE 754 binary64 with round-to-nearest-even, executable over
  the rationals. A finite double is its rational value, the two infinities and NaN are
  constructors of their own, and the two zeros are one value (no operation of the sources
  tells them apart). Every arithmetic operation is the exact one followed by \<open>rnd64\<close>:
  the quantum of the result is a power of two fixed by its binary exponent, with the
  subnormal range below \<open>2 powi (-1022)\<close>, and a result past the largest double overflows
  to an infinity.

  The facts the components need are proved here: rounding keeps every representable
  number, never crosses one, and is off by at most half a quantum.
\<close>

section \<open>Rounding\<close>

definition ilog2 :: "rat \<Rightarrow> int" where
  "ilog2 x =
     (let (p, q) = quotient_of x;
          d = bitlen p - bitlen q
      in if 2 powi d \<le> x then d else d - 1)"

definition quantum_exp :: "rat \<Rightarrow> int" where
  "quantum_exp x = max (ilog2 \<bar>x\<bar> - 52) (- 1074)"

definition quantum :: "rat \<Rightarrow> rat" where
  "quantum x = 2 powi quantum_exp x"

definition round_even :: "rat \<Rightarrow> int" where
  "round_even y =
     (let n = \<lfloor>y\<rfloor>; r = y - of_int n
      in if r < 1 / 2 \<or> (r = 1 / 2 \<and> even n) then n else n + 1)"

definition rnd64 :: "rat \<Rightarrow> rat" where
  "rnd64 x = (if x = 0 then 0 else of_int (round_even (x / quantum x)) * quantum x)"

text \<open>The representable rationals: at most 53 bits above the smallest quantum.\<close>

definition representable :: "rat \<Rightarrow> bool" where
  "representable x \<longleftrightarrow>
     (\<exists>m e. x = of_int m * 2 powi e \<and> \<bar>m\<bar> \<le> 2 ^ 53 \<and> - 1074 \<le> e)"

subsection \<open>The binary exponent\<close>

lemma powi_2_pos [simp]: "0 < (2::rat) powi e"
  by (simp add: zero_less_power_int)

lemma powi_2_mono: "a \<le> b \<Longrightarrow> (2::rat) powi a \<le> 2 powi b"
  by (rule power_int_increasing) auto

lemma powi_2_less_iff: "(2::rat) powi a < 2 powi b \<longleftrightarrow> a < b"
  by (metis not_less powi_2_mono power_int_strict_increasing one_less_numeral_iff semiring_norm(76))

lemma powi_2_Suc: "(2::rat) powi (e + 1) = 2 * 2 powi e"
  by (simp add: power_int_add)

lemma bitlen_powi_bounds:
  assumes "0 < n"
  shows "2 powi (bitlen n - 1) \<le> (of_int n :: rat)" and "(of_int n :: rat) < 2 powi bitlen n"
proof -
  have b: "2 ^ nat (bitlen n - 1) \<le> n \<and> n < 2 ^ nat (bitlen n)" and p: "0 < bitlen n"
    using bitlen_bounds [OF assms] bitlen_nonneg [of n] bitlen_eq_zero_iff [of n] assms by auto
  from b have "of_int (2 ^ nat (bitlen n - 1)) \<le> (of_int n :: rat)" by (simp only: of_int_le_iff)
  then show "2 powi (bitlen n - 1) \<le> (of_int n :: rat)"
    using p by (simp add: power_int_def)
  from b have "(of_int n :: rat) < of_int (2 ^ nat (bitlen n))" by (simp only: of_int_less_iff)
  then show "(of_int n :: rat) < 2 powi bitlen n" using p by (simp add: power_int_def)
qed

lemma ilog2_bounds:
  assumes "0 < x"
  shows "2 powi ilog2 x \<le> x" and "x < 2 powi (ilog2 x + 1)"
proof -
  obtain p q where pq: "quotient_of x = (p, q)" by fastforce
  have q: "0 < q" using pq by (rule quotient_of_denom_pos)
  have x: "x = of_int p / of_int q" using pq by (rule quotient_of_div)
  have p: "0 < p" using assms q x by (simp add: zero_less_divide_iff)
  let ?a = "bitlen p" and ?b = "bitlen q"
  let ?d = "?a - ?b"
  have P: "2 powi (?a - 1) \<le> (of_int p :: rat)" "(of_int p :: rat) < 2 powi ?a"
    using bitlen_powi_bounds [OF p] by simp_all
  have Q: "2 powi (?b - 1) \<le> (of_int q :: rat)" "(of_int q :: rat) < 2 powi ?b"
    using bitlen_powi_bounds [OF q] by simp_all
  have qr: "0 < (of_int q :: rat)" using q by simp
  have "2 powi (?d - 1) * of_int q \<le> 2 powi (?d - 1) * (2 powi ?b :: rat)"
    using Q by (intro mult_left_mono) auto
  also have "\<dots> = 2 powi (?a - 1)"
    by (subst power_int_add [symmetric]) auto
  also have "\<dots> \<le> of_int p" by (rule P)
  finally have lo: "2 powi (?d - 1) \<le> x"
    using qr by (simp add: x pos_le_divide_eq)
  have "(of_int p :: rat) < 2 powi ?a" by (rule P)
  also have "(2::rat) powi ?a = 2 powi (?d + 1) * 2 powi (?b - 1)"
    by (subst power_int_add [symmetric]) auto
  also have "\<dots> \<le> 2 powi (?d + 1) * of_int q"
    using Q by (intro mult_left_mono) auto
  finally have hi: "x < 2 powi (?d + 1)"
    using qr by (simp add: x pos_divide_less_eq)
  show "2 powi ilog2 x \<le> x" using lo by (auto simp: ilog2_def pq Let_def)
  show "x < 2 powi (ilog2 x + 1)" using hi by (auto simp: ilog2_def pq Let_def not_le)
qed

lemma ilog2_mono:
  assumes "0 < x" and "x \<le> y"
  shows "ilog2 x \<le> ilog2 y"
proof -
  from assms have "2 powi ilog2 x < (2::rat) powi (ilog2 y + 1)"
    using ilog2_bounds [of x] ilog2_bounds [of y] by linarith
  then show ?thesis by (simp add: powi_2_less_iff)
qed

subsection \<open>Rounding to an integer\<close>

lemma round_even_int [simp]: "round_even (of_int k) = k"
  by (simp add: round_even_def)

lemma round_even_floor: "\<lfloor>y\<rfloor> \<le> round_even y" "round_even y \<le> \<lfloor>y\<rfloor> + 1"
  by (simp_all add: round_even_def Let_def)

lemma round_even_ge: "of_int k \<le> y \<Longrightarrow> k \<le> round_even y"
  by (meson le_floor_iff order_trans round_even_floor(1))

lemma round_even_le:
  assumes "y \<le> of_int k"
  shows "round_even y \<le> k"
proof (cases "y = of_int k")
  case False
  with assms have "\<lfloor>y\<rfloor> < k" by (simp add: floor_less_iff)
  then show ?thesis using round_even_floor(2) [of y] by linarith
qed simp

lemma round_even_err: "\<bar>of_int (round_even y) - y\<bar> \<le> 1 / 2"
proof -
  have "of_int \<lfloor>y\<rfloor> \<le> y" "y < of_int \<lfloor>y\<rfloor> + 1" by linarith+
  then show ?thesis by (auto simp: round_even_def Let_def abs_le_iff)
qed

subsection \<open>Rounding to a double\<close>

lemma quantum_pos [simp]: "0 < quantum x"
  by (simp add: quantum_def)

lemma quantum_nz [simp]: "quantum x \<noteq> 0"
  using quantum_pos [of x] by linarith

lemma quantum_minus [simp]: "quantum (- x) = quantum x"
  by (simp add: quantum_def quantum_exp_def)

lemma rnd64_0 [simp]: "rnd64 0 = 0"
  by (simp add: rnd64_def)

text \<open>Rounding never crosses a multiple of the quantum.\<close>

lemma rnd64_ge_multiple:
  assumes "a = of_int k * quantum x" and "a \<le> x" and "x \<noteq> 0"
  shows "a \<le> rnd64 x"
proof -
  have "of_int k \<le> x / quantum x" using assms by (simp add: pos_le_divide_eq)
  then have "k \<le> round_even (x / quantum x)" by (rule round_even_ge)
  then have "(of_int k :: rat) \<le> of_int (round_even (x / quantum x))" by simp
  then have "of_int k * quantum x \<le> of_int (round_even (x / quantum x)) * quantum x"
    by (rule mult_right_mono) (simp add: less_imp_le)
  then show ?thesis using assms by (simp add: rnd64_def)
qed

lemma rnd64_le_multiple:
  assumes "a = of_int k * quantum x" and "x \<le> a" and "x \<noteq> 0"
  shows "rnd64 x \<le> a"
proof -
  have "x / quantum x \<le> of_int k" using assms by (simp add: pos_divide_le_eq)
  then have "round_even (x / quantum x) \<le> k" by (rule round_even_le)
  then have "of_int (round_even (x / quantum x)) \<le> (of_int k :: rat)" by simp
  then have "of_int (round_even (x / quantum x)) * quantum x \<le> of_int k * quantum x"
    by (rule mult_right_mono) (simp add: less_imp_le)
  then show ?thesis using assms by (simp add: rnd64_def)
qed

lemma powi_multiple:
  assumes "quantum_exp x \<le> e"
  shows "of_int m * 2 powi e = of_int (m * 2 ^ nat (e - quantum_exp x)) * quantum x"
proof -
  have "(2::rat) powi e = 2 powi (e - quantum_exp x) * 2 powi quantum_exp x"
    by (subst power_int_add [symmetric]) auto
  also have "(2::rat) powi (e - quantum_exp x) = 2 ^ nat (e - quantum_exp x)"
    using assms by (simp add: power_int_def)
  finally show ?thesis by (simp add: quantum_def)
qed


text \<open>
  A representable number that is not a multiple of the quantum of \<open>x\<close> lies within
  the power of two just below \<open>\<bar>x\<bar>\<close>, which is a multiple.
\<close>

lemma small_representable:
  assumes "\<bar>m\<bar> \<le> 2 ^ 53" and "- 1074 \<le> e" and "e < quantum_exp x" and "x \<noteq> 0"
  obtains b where "b = of_int (2 ^ 52) * quantum x" and "\<bar>of_int m * 2 powi e\<bar> \<le> b" and "b \<le> \<bar>x\<bar>"
proof
  let ?b = "of_int (2 ^ 52) * quantum x"
  from assms(2,3) have qe: "quantum_exp x = ilog2 \<bar>x\<bar> - 52"
    by (auto simp: quantum_exp_def max_def split: if_splits)
  have b: "?b = 2 powi ilog2 \<bar>x\<bar>"
  proof -
    have "(2::rat) powi ilog2 \<bar>x\<bar> = 2 powi 52 * 2 powi (ilog2 \<bar>x\<bar> - 52)"
      by (subst power_int_add [symmetric]) auto
    then show ?thesis by (simp add: quantum_def qe)
  qed
  have "\<bar>of_int m :: rat\<bar> \<le> 2 ^ 53"
  proof -
    have "(of_int \<bar>m\<bar> :: rat) \<le> of_int (2 ^ 53)" using assms(1) by (simp only: of_int_le_iff)
    then show ?thesis by simp
  qed
  then have "\<bar>of_int m * (2::rat) powi e\<bar> \<le> 2 ^ 53 * 2 powi e"
    by (simp add: abs_mult)
  also have "\<dots> \<le> 2 ^ 53 * 2 powi (quantum_exp x - 1)"
    using assms(3) by (intro mult_left_mono powi_2_mono) auto
  also have "\<dots> = ?b"
  proof -
    have "(2::rat) powi quantum_exp x = 2 * 2 powi (quantum_exp x - 1)"
      using powi_2_Suc [of "quantum_exp x - 1"] by simp
    then show ?thesis by (simp add: quantum_def)
  qed
  finally show "\<bar>of_int m * 2 powi e\<bar> \<le> ?b" .
  show "?b \<le> \<bar>x\<bar>" unfolding b using ilog2_bounds(1) [of "\<bar>x\<bar>"] assms(4) by simp
qed simp

lemma rnd64_ge:
  assumes "representable a" and "a \<le> x"
  shows "a \<le> rnd64 x"
proof (cases "x = 0")
  case False
  from assms(1) obtain m e where a: "a = of_int m * 2 powi e" "\<bar>m\<bar> \<le> 2 ^ 53" "- 1074 \<le> e"
    by (auto simp: representable_def)
  show ?thesis
  proof (cases "quantum_exp x \<le> e")
    case True
    then show ?thesis
      using rnd64_ge_multiple [OF _ assms(2) False] a(1) powi_multiple by metis
  next
    case small: False
    obtain b where b: "b = of_int (2 ^ 52) * quantum x" "\<bar>a\<bar> \<le> b" "b \<le> \<bar>x\<bar>"
      using small_representable [OF a(2,3) _ False] small a(1) by (metis not_le)
    show ?thesis
    proof (cases "0 < x")
      case True
      then have "b \<le> rnd64 x" using b rnd64_ge_multiple [OF b(1) _ False] by simp
      then show ?thesis using b by linarith
    next
      case neg: False
      then have "a = - b" using b assms(2) False by linarith
      then have "a = of_int (- (2 ^ 52)) * quantum x" by (simp add: b(1))
      then show ?thesis using assms(2) False by (rule rnd64_ge_multiple)
    qed
  qed
qed (use assms in simp)

lemma rnd64_le:
  assumes "representable a" and "x \<le> a"
  shows "rnd64 x \<le> a"
proof (cases "x = 0")
  case False
  from assms(1) obtain m e where a: "a = of_int m * 2 powi e" "\<bar>m\<bar> \<le> 2 ^ 53" "- 1074 \<le> e"
    by (auto simp: representable_def)
  show ?thesis
  proof (cases "quantum_exp x \<le> e")
    case True
    then show ?thesis
      using rnd64_le_multiple [OF _ assms(2) False] a(1) powi_multiple by metis
  next
    case small: False
    obtain b where b: "b = of_int (2 ^ 52) * quantum x" "\<bar>a\<bar> \<le> b" "b \<le> \<bar>x\<bar>"
      using small_representable [OF a(2,3) _ False] small a(1) by (metis not_le)
    show ?thesis
    proof (cases "x < 0")
      case True
      then have "x \<le> - b" using b by simp
      moreover have "- b = of_int (- (2 ^ 52)) * quantum x" by (simp add: b(1))
      ultimately have "rnd64 x \<le> - b" using False rnd64_le_multiple by blast
      then show ?thesis using b by linarith
    next
      case neg: False
      then have "a = b" using b assms(2) False by linarith
      then have "a = of_int (2 ^ 52) * quantum x" by (simp only: b(1))
      then show ?thesis using assms(2) False by (rule rnd64_le_multiple)
    qed
  qed
qed (use assms in simp)

lemma rnd64_representable [simp]: "representable x \<Longrightarrow> rnd64 x = x"
  by (meson order_antisym order_refl rnd64_ge rnd64_le)

lemma rnd64_err: "\<bar>rnd64 x - x\<bar> \<le> quantum x / 2"
proof (cases "x = 0")
  case False
  let ?y = "x / quantum x"
  have "rnd64 x - x = (of_int (round_even ?y) - ?y) * quantum x"
    using False by (simp add: rnd64_def left_diff_distrib)
  then have "\<bar>rnd64 x - x\<bar> = \<bar>of_int (round_even ?y) - ?y\<bar> * quantum x"
    using quantum_pos [of x] by (simp only: abs_mult abs_of_pos)
  also have "\<dots> \<le> 1 / 2 * quantum x"
    by (intro mult_right_mono round_even_err) (simp add: less_imp_le)
  finally show ?thesis by simp
qed (simp add: less_imp_le)

text \<open>Below \<open>2 powi e\<close> the rounding error is at most \<open>2 powi (e - 54)\<close>.\<close>

lemma quantum_small:
  assumes "\<bar>x\<bar> < 2 powi e" and "- 1021 \<le> e" and "x \<noteq> 0"
  shows "quantum x \<le> 2 powi (e - 53)"
proof -
  have "2 powi ilog2 \<bar>x\<bar> < (2::rat) powi e"
    using ilog2_bounds(1) [of "\<bar>x\<bar>"] assms by simp
  then have "ilog2 \<bar>x\<bar> < e" by (simp add: powi_2_less_iff)
  then show ?thesis using assms(2) by (auto simp: quantum_def quantum_exp_def intro: powi_2_mono)
qed

lemma rnd64_err_below:
  assumes "\<bar>x\<bar> < 2 powi e" and "- 1021 \<le> e"
  shows "\<bar>rnd64 x - x\<bar> \<le> 2 powi (e - 54)"
proof (cases "x = 0")
  case False
  have "(2::rat) powi (e - 53) = 2 * 2 powi (e - 54)"
    using powi_2_Suc [of "e - 54"] by (simp add: algebra_simps)
  then show ?thesis
    using rnd64_err [of x] quantum_small [OF assms False] by linarith
qed simp

lemma representable_int: "\<bar>k\<bar> \<le> 2 ^ 53 \<Longrightarrow> representable (of_int k)"
  unfolding representable_def by (rule exI [of _ k], rule exI [of _ 0]) simp

lemma representable_0 [simp]: "representable 0"
  using representable_int [of 0] by simp

lemma representable_1 [simp]: "representable 1"
  using representable_int [of 1] by simp

lemma representable_powi: "- 1074 \<le> e \<Longrightarrow> representable (2 powi e)"
  unfolding representable_def by (rule exI [of _ 1]) auto


section \<open>Values and operations\<close>

datatype float64 = Fin rat | PosInf | NegInf | NaN

definition f64_of_rat :: "rat \<Rightarrow> float64" where
  "f64_of_rat x =
     (let r = rnd64 x
      in if r \<noteq> 0 \<and> 1024 \<le> ilog2 \<bar>r\<bar> then (if 0 < r then PosInf else NegInf) else Fin r)"

definition f64_of_int :: "int \<Rightarrow> float64" where
  "f64_of_int i = f64_of_rat (of_int i)"

definition f64_inf :: "rat \<Rightarrow> float64" where
  "f64_inf s = (if 0 < s then PosInf else if s < 0 then NegInf else NaN)"

fun f64_add :: "float64 \<Rightarrow> float64 \<Rightarrow> float64" where
  "f64_add (Fin x) (Fin y) = f64_of_rat (x + y)"
| "f64_add NaN _ = NaN"
| "f64_add _ NaN = NaN"
| "f64_add PosInf NegInf = NaN"
| "f64_add NegInf PosInf = NaN"
| "f64_add PosInf _ = PosInf"
| "f64_add NegInf _ = NegInf"
| "f64_add _ y = y"

fun f64_mul :: "float64 \<Rightarrow> float64 \<Rightarrow> float64" where
  "f64_mul (Fin x) (Fin y) = f64_of_rat (x * y)"
| "f64_mul NaN _ = NaN"
| "f64_mul _ NaN = NaN"
| "f64_mul (Fin x) PosInf = f64_inf x"
| "f64_mul (Fin x) NegInf = f64_inf (- x)"
| "f64_mul PosInf (Fin y) = f64_inf y"
| "f64_mul NegInf (Fin y) = f64_inf (- y)"
| "f64_mul PosInf y = y"
| "f64_mul NegInf PosInf = NegInf"
| "f64_mul NegInf NegInf = PosInf"

text \<open>Every divisor of the sources is a nonzero finite double.\<close>

definition f64_div :: "float64 \<Rightarrow> rat \<Rightarrow> float64" where
  "f64_div x d = (case x of Fin v \<Rightarrow> f64_of_rat (v / d) | PosInf \<Rightarrow> f64_inf d
     | NegInf \<Rightarrow> f64_inf (- d) | NaN \<Rightarrow> NaN)"

fun f64_less :: "float64 \<Rightarrow> float64 \<Rightarrow> bool" where
  "f64_less (Fin x) (Fin y) = (x < y)"
| "f64_less NaN _ = False"
| "f64_less _ NaN = False"
| "f64_less NegInf y = (y \<noteq> NegInf)"
| "f64_less x PosInf = (x \<noteq> PosInf)"
| "f64_less _ _ = False"

definition f64_eq :: "float64 \<Rightarrow> float64 \<Rightarrow> bool" where
  "f64_eq x y \<longleftrightarrow> x = y \<and> x \<noteq> NaN"

text \<open>The built-in \<^verbatim>\<open>min\<close>: NaN if an argument is NaN.\<close>

definition f64_min :: "float64 \<Rightarrow> float64 \<Rightarrow> float64" where
  "f64_min x y = (if x = NaN \<or> y = NaN then NaN else if f64_less y x then y else x)"

text \<open>
  Conversion to a 64-bit integer truncates towards zero; the language leaves the result
  open when the value does not fit, and the model takes the one amd64 gives. No theorem
  below depends on that case.
\<close>

definition f64_trunc :: "float64 \<Rightarrow> int" where
  "f64_trunc x =
     (case x of
        Fin v \<Rightarrow> (let n = (if 0 \<le> v then \<lfloor>v\<rfloor> else \<lceil>v\<rceil>)
                  in if min_int64 \<le> n \<and> n \<le> max_int64 then n else min_int64)
      | _ \<Rightarrow> min_int64)"

text \<open>\<^verbatim>\<open>Duration.Seconds\<close>: whole seconds plus the remaining nanoseconds over 1e9.\<close>

definition duration_seconds :: "duration \<Rightarrow> float64" where
  "duration_seconds d =
     f64_add (f64_of_int (d sdiv Second)) (f64_div (f64_of_int (d smod Second)) 1000000000)"

lemma f64_of_rat_Fin:
  assumes "\<bar>x\<bar> \<le> 2 powi 200"
  shows "f64_of_rat x = Fin (rnd64 x)"
proof -
  have r: "representable (of_int k * 2 powi 200)" if "\<bar>k\<bar> = 1" for k
    unfolding representable_def using that by (intro exI [of _ k] exI [of _ "200::int"]) auto
  have "rnd64 x \<le> of_int 1 * 2 powi 200"
    using assms by (intro rnd64_le r) (auto simp del: power_int_numeral)
  moreover have "of_int (- 1) * 2 powi 200 \<le> rnd64 x"
    using assms by (intro rnd64_ge r) (auto simp del: power_int_numeral)
  ultimately have b: "\<bar>rnd64 x\<bar> \<le> 2 powi 200" by linarith
  have "ilog2 \<bar>rnd64 x\<bar> \<le> 200" if nz: "rnd64 x \<noteq> 0"
  proof -
    have "2 powi ilog2 \<bar>rnd64 x\<bar> \<le> \<bar>rnd64 x\<bar>"
      using ilog2_bounds(1) [of "\<bar>rnd64 x\<bar>"] nz by simp
    also have "\<dots> \<le> 2 powi 200" by (rule b)
    finally have "\<not> (2::rat) powi 200 < 2 powi ilog2 \<bar>rnd64 x\<bar>" by simp
    then show ?thesis by (simp only: powi_2_less_iff not_less)
  qed
  then show ?thesis by (auto simp: f64_of_rat_def Let_def)
qed

lemma f64_of_int_exact: "\<bar>i\<bar> \<le> 2 ^ 53 \<Longrightarrow> f64_of_int i = Fin (of_int i)"
proof -
  assume i: "\<bar>i\<bar> \<le> 2 ^ 53"
  then have "(of_int \<bar>i\<bar> :: rat) \<le> of_int (2 ^ 53)" by (simp only: of_int_le_iff)
  also have "\<dots> \<le> 2 powi 200" by simp
  finally show ?thesis
    using i by (simp add: f64_of_int_def f64_of_rat_Fin representable_int)
qed

lemma f64_trunc_Fin:
  assumes "0 \<le> v" and "v < 2 ^ 63"
  shows "f64_trunc (Fin v) = \<lfloor>v\<rfloor>"
proof -
  have "\<lfloor>v\<rfloor> < 2 ^ 63" using assms(2) by (simp add: floor_less_iff)
  moreover have "0 \<le> \<lfloor>v\<rfloor>" using assms(1) by simp
  ultimately show ?thesis
    using assms(1) by (auto simp: f64_trunc_def Let_def min_int64_def max_int64_def)
qed

text \<open>On anything but NaN the comparison is a strict total order.\<close>

lemma f64_less_irrefl [simp]: "\<not> f64_less x x"
  by (cases x) auto

lemma f64_less_trans: "f64_less x y \<Longrightarrow> f64_less y z \<Longrightarrow> f64_less x z"
  by (cases x; cases y; cases z) auto

lemma f64_less_total: "x \<noteq> NaN \<Longrightarrow> y \<noteq> NaN \<Longrightarrow> f64_less x y \<or> x = y \<or> f64_less y x"
  by (cases x; cases y) auto

lemma f64_less_NaN [simp]: "\<not> f64_less NaN x" "\<not> f64_less x NaN"
  by (cases x; simp)+

lemma f64_min_Fin [simp]: "f64_min (Fin x) (Fin y) = Fin (min x y)"
  by (simp add: f64_min_def min_def)

end
