(* ===== verification/Auth.thy ===== *)
theory Auth
  imports Float64
begin

text \<open>
  API keys and rate limits (\<^verbatim>\<open>request-plane/auth\<close>). The key store is a map; the rate
  limiter keeps one token bucket per key, whose level is a double. The current time is
  an argument of the operations that read the clock. The rounding errors of a refill are
  bounded here, so that the properties can state what the limiter really admits.
\<close>

section \<open>Key store\<close>

record KeyInfo =
  ki_KeyID :: string
  RequestsPerMin :: int

record KeyStore =
  keys :: "string \<rightharpoonup> KeyInfo"

definition NewKeyStore :: KeyStore where
  "NewKeyStore = \<lparr>keys = Map.empty\<rparr>"

definition AddKey :: "KeyStore \<Rightarrow> string \<Rightarrow> KeyInfo \<Rightarrow> KeyStore" where
  "AddKey s apiKey info = s\<lparr>keys := (keys s)(apiKey \<mapsto> info)\<rparr>"

definition RemoveKey :: "KeyStore \<Rightarrow> string \<Rightarrow> KeyStore" where
  "RemoveKey s apiKey = s\<lparr>keys := (keys s)(apiKey := None)\<rparr>"

definition Lookup :: "KeyStore \<Rightarrow> string \<Rightarrow> KeyInfo option" where
  "Lookup s apiKey = keys s apiKey"

definition ListKeys :: "KeyStore \<Rightarrow> string list \<Rightarrow> KeyInfo list" where
  "ListKeys s ks = range_values (keys s) ks"

section \<open>Rate limiter\<close>

record bucket =
  tokens :: float64
  lastRefill :: time

record RateLimiter =
  buckets :: "string \<rightharpoonup> bucket"

definition NewRateLimiter :: RateLimiter where
  "NewRateLimiter = \<lparr>buckets = Map.empty\<rparr>"

text \<open>The level of a bucket at \<open>now\<close>, before a request is served.\<close>

definition refilled :: "bucket \<Rightarrow> int \<Rightarrow> time \<Rightarrow> float64" where
  "refilled b requestsPerMin now =
     (let capacity = f64_of_int requestsPerMin;
          refillPerSec = f64_div capacity 60;
          elapsed = duration_seconds (time_sub now (lastRefill b))
      in f64_min capacity (f64_add (tokens b) (f64_mul elapsed refillPerSec)))"

definition Allow :: "RateLimiter \<Rightarrow> string \<Rightarrow> int \<Rightarrow> time \<Rightarrow> bool \<times> RateLimiter" where
  "Allow r keyID requestsPerMin now =
     (if requestsPerMin \<le> 0 then (True, r)
      else case buckets r keyID of
        None \<Rightarrow>
          (True, r\<lparr>buckets := (buckets r)(keyID \<mapsto>
             \<lparr>tokens = f64_add (f64_of_int requestsPerMin) (Fin (- 1)), lastRefill = now\<rparr>)\<rparr>)
      | Some b \<Rightarrow>
          (let level = refilled b requestsPerMin now
           in if f64_less level (Fin 1)
              then (False, r\<lparr>buckets := (buckets r)(keyID \<mapsto> \<lparr>tokens = level, lastRefill = now\<rparr>)\<rparr>)
              else (True, r\<lparr>buckets := (buckets r)(keyID \<mapsto>
                     \<lparr>tokens = f64_add level (Fin (- 1)), lastRefill = now\<rparr>)\<rparr>)))"

definition Tokens :: "RateLimiter \<Rightarrow> string \<Rightarrow> int \<Rightarrow> time \<Rightarrow> float64 \<times> float64 \<times> bool" where
  "Tokens r keyID requestsPerMin now =
     (if requestsPerMin \<le> 0 then (Fin 0, Fin 0, False)
      else case buckets r keyID of
        None \<Rightarrow> (f64_of_int requestsPerMin, f64_of_int requestsPerMin, True)
      | Some b \<Rightarrow> (refilled b requestsPerMin now, f64_of_int requestsPerMin, True))"

text \<open>The answers to requests of one key at the given instants.\<close>

fun allow_seq :: "RateLimiter \<Rightarrow> string \<Rightarrow> int \<Rightarrow> time list \<Rightarrow> bool list" where
  "allow_seq r keyID rpm [] = []"
| "allow_seq r keyID rpm (t # ts) =
     (let (ok, r') = Allow r keyID rpm t in ok # allow_seq r' keyID rpm ts)"

section \<open>Rounding\<close>

lemma rnd64_nonneg: "0 \<le> x \<Longrightarrow> 0 \<le> rnd64 x"
  by (rule rnd64_ge) simp_all

lemma f64_of_rat_near:
  assumes "\<bar>x\<bar> < 2 ^ k" and "k \<le> 200"
  shows "\<exists>v. f64_of_rat x = Fin v \<and> \<bar>v - x\<bar> \<le> 2 powi (int k - 54) \<and> (0 \<le> x \<longrightarrow> 0 \<le> v)"
proof -
  have "\<bar>x\<bar> < 2 powi (int k)" using assms(1) by simp
  moreover have "(2::rat) powi int k \<le> 2 powi 200" using assms(2) by (intro powi_2_mono) simp
  ultimately have "f64_of_rat x = Fin (rnd64 x)" "\<bar>rnd64 x - x\<bar> \<le> 2 powi (int k - 54)"
    using f64_of_rat_Fin [of x] rnd64_err_below [of x "int k"] by (simp_all del: power_int_of_nat power_int_numeral)
  then show ?thesis using rnd64_nonneg by blast
qed

lemma powi_2_minus: "(2::rat) powi (- int n) = 1 / 2 ^ n"
  by (simp add: power_int_minus field_simps)

lemma duration_seconds_near:
  assumes "0 \<le> d" and "d < 2 ^ 16 * Second"
  shows "\<exists>s. duration_seconds d = Fin s \<and> 0 \<le> s \<and> \<bar>s - of_int d / 10 ^ 9\<bar> \<le> 1 / 68719476736"
proof -
  let ?sec = "d div Second" and ?ns = "d mod Second"
  have sd: "d sdiv Second = ?sec" "d smod Second = ?ns"
    using assms(1) by (simp_all add: signed_divide_int_def signed_modulo_int_def sgn_if)
  have ns: "0 \<le> ?ns" "?ns < 10 ^ 9" by simp_all
  have sec: "0 \<le> ?sec" "?sec < 2 ^ 16" using assms by simp_all
  have "f64_of_int ?ns = Fin (of_int ?ns)" "f64_of_int ?sec = Fin (of_int ?sec)"
    using ns sec by (intro f64_of_int_exact; simp)+
  note ints = this
  have "(of_int ?ns :: rat) < of_int (10 ^ 9)" "(0 :: rat) \<le> of_int ?ns"
    using ns by (simp_all only: of_int_less_iff of_int_0_le_iff)
  define x :: rat where "x = of_int ?ns / 1000000000"
  define y :: rat where "y = of_int ?sec"
  have x: "0 \<le> x" "x < 1" using \<open>of_int ?ns < _\<close> \<open>0 \<le> of_int ?ns\<close> by (simp_all add: x_def)
  have "(of_int ?sec :: rat) < of_int (2 ^ 16)" using sec by (simp only: of_int_less_iff)
  then have y: "0 \<le> y" "y < 2 ^ 16" using sec(1) by (simp_all add: y_def)
  have eps: "(2::rat) powi (- 54) = 1 / 18014398509481984" "(2::rat) powi (- 37) = 1 / 137438953472"
    using powi_2_minus [of 54] powi_2_minus [of 37] by simp_all
  obtain f where f: "f64_of_rat x = Fin f" "\<bar>f - x\<bar> \<le> 1 / 18014398509481984" "0 \<le> f"
    using f64_of_rat_near [of x 0] x eps by auto
  have f2: "f \<le> 2" using f(2) x(2) by linarith
  have "\<bar>y + f\<bar> < 2 ^ 17" using f(3) f2 y by simp
  then obtain s where s: "f64_of_rat (y + f) = Fin s" "\<bar>s - (y + f)\<bar> \<le> 1 / 137438953472" "0 \<le> s"
    using f64_of_rat_near [of "y + f" 17] eps f(3) y(1) by auto
  have "(of_int d :: rat) = of_int (?sec * Second + ?ns)" by (simp only: div_mult_mod_eq)
  then have "(of_int d :: rat) = y * 1000000000 + x * 1000000000"
    by (simp only: of_int_add of_int_mult of_int_numeral x_def y_def)
  then have d: "(of_int d :: rat) / 10 ^ 9 = y + x" by simp
  have "duration_seconds d = Fin s"
    using s(1) f(1) ints by (simp add: duration_seconds_def sd f64_div_def x_def y_def)
  moreover have "\<bar>s - of_int d / 10 ^ 9\<bar> \<le> 1 / 68719476736"
    using s(2) f(2) unfolding d by linarith
  ultimately show ?thesis using s(3) by blast
qed

text \<open>
  One refill. For budgets up to \<open>2 ^ 16\<close> requests per minute and pauses under \<open>2 ^ 16\<close>
  seconds the new level differs from the exact one by less than \<open>2 powi (- 23)\<close> of a token.
\<close>

abbreviation rate :: "int \<Rightarrow> rat" where
  "rate rpm \<equiv> of_int rpm / 60"

abbreviation secs :: "duration \<Rightarrow> rat" where
  "secs d \<equiv> of_int d / 10 ^ 9"

definition refill_err :: rat where
  "refill_err = 1 / 8388608"

lemma mult_near:
  assumes "\<bar>s - S\<bar> \<le> (e :: rat)" and "\<bar>r - R\<bar> \<le> f" and "0 \<le> r" and "r \<le> b" and "0 \<le> S" and "S \<le> c"
    and "0 \<le> e" and "0 \<le> f"
  shows "\<bar>s * r - S * R\<bar> \<le> e * b + c * f"
proof -
  have "s * r - S * R = (s - S) * r + S * (r - R)" by (simp add: algebra_simps)
  then have "\<bar>s * r - S * R\<bar> \<le> \<bar>s - S\<bar> * \<bar>r\<bar> + \<bar>S\<bar> * \<bar>r - R\<bar>"
    by (metis abs_mult abs_triangle_ineq)
  also have "\<dots> \<le> e * b + c * f" using assms by (intro add_mono mult_mono) simp_all
  finally show ?thesis .
qed

lemma rate_near:
  assumes "0 < rpm" and "rpm \<le> 2 ^ 16"
  shows "\<exists>r. f64_div (f64_of_int rpm) 60 = Fin r \<and> 0 \<le> r \<and> r \<le> 2048 \<and> \<bar>r - rate rpm\<bar> \<le> 1 / 8796093022208"
proof -
  have i: "f64_of_int rpm = Fin (of_int rpm)" using assms by (intro f64_of_int_exact) simp
  have "(of_int rpm :: rat) \<le> of_int (2 ^ 16)" using assms(2) by (simp only: of_int_le_iff)
  then have b: "0 < rate rpm" "rate rpm \<le> 65536 / 60" using assms(1) by simp_all
  then obtain r where r: "f64_of_rat (rate rpm) = Fin r" "\<bar>r - rate rpm\<bar> \<le> 2 powi (- 43)" "0 \<le> r"
    using f64_of_rat_near [of "rate rpm" 11] by auto
  have "(2::rat) powi (- 43) = 1 / 8796093022208" using powi_2_minus [of 43] by simp
  then have "\<bar>r - rate rpm\<bar> \<le> 1 / 8796093022208" "r \<le> 2048" using r(2) b(2) by linarith+
  then show ?thesis using r(1,3) i by (simp add: f64_div_def)
qed

lemma refilled_near:
  assumes "0 < rpm" and "rpm \<le> 2 ^ 16" and "tokens b = Fin t" and "0 \<le> t" and "t \<le> 2 ^ 16"
    and "lastRefill b \<le> now" and "now - lastRefill b < 2 ^ 16 * Second"
  shows "\<exists>x. refilled b rpm now = Fin (min (of_int rpm) x) \<and> 0 \<le> x \<and>
    \<bar>x - (t + secs (now - lastRefill b) * rate rpm)\<bar> \<le> refill_err"
proof -
  let ?d = "now - lastRefill b"
  have sub: "time_sub now (lastRefill b) = ?d"
    using assms(6,7) by (simp add: time_sub_def sat64_def min_int64_def max_int64_def)
  obtain s where s: "duration_seconds ?d = Fin s" "0 \<le> s" "\<bar>s - secs ?d\<bar> \<le> 1 / 68719476736"
    using duration_seconds_near [of ?d] assms(6,7) by auto
  obtain r where r: "f64_div (f64_of_int rpm) 60 = Fin r" "0 \<le> r" "r \<le> 2048"
    "\<bar>r - rate rpm\<bar> \<le> 1 / 8796093022208" using rate_near [OF assms(1,2)] by blast
  have "(of_int ?d :: rat) \<le> of_int (2 ^ 16 * Second)" "(0 :: rat) \<le> of_int ?d"
    using assms(6,7) by (simp_all only: of_int_le_iff of_int_0_le_iff)
  then have S: "0 \<le> secs ?d" "secs ?d \<le> 65536" by simp_all
  have prod: "\<bar>s * r - secs ?d * rate rpm\<bar> \<le> 1 / 68719476736 * 2048 + 65536 * (1 / 8796093022208)"
    using s(3) r S by (intro mult_near) simp_all
  have "s \<le> 65537" using s(3) S(2) by linarith
  then have "s * r \<le> 65537 * 2048" "0 \<le> s * r" using s(2) r(2,3) by (intro mult_mono mult_nonneg_nonneg; simp)+
  then have p0: "\<bar>s * r\<bar> < 2 ^ 28" by simp
  have eps: "(2::rat) powi (- 26) = 1 / 67108864" "(2::rat) powi (- 25) = 1 / 33554432"
    using powi_2_minus [of 26] powi_2_minus [of 25] by simp_all
  obtain p where p: "f64_of_rat (s * r) = Fin p" "\<bar>p - s * r\<bar> \<le> 1 / 67108864" "0 \<le> p"
    using f64_of_rat_near [OF p0] eps \<open>0 \<le> s * r\<close> by auto
  have "s * r < 268435456" "t \<le> 65536" using p0 assms(5) by simp_all
  then have "t + p < 536870912" using p(2) by linarith
  then have "\<bar>t + p\<bar> < 2 ^ 29" using p(3) assms(4) by simp
  then obtain x where x: "f64_of_rat (t + p) = Fin x" "\<bar>x - (t + p)\<bar> \<le> 1 / 33554432" "0 \<le> x"
    using f64_of_rat_near [of "t + p" 29] eps p(3) assms(4) by auto
  have "f64_of_int rpm = Fin (of_int rpm)" using assms(1,2) by (intro f64_of_int_exact) simp
  then have "refilled b rpm now = Fin (min (of_int rpm) x)"
    using s(1) r(1) p(1) x(1) assms(3) by (simp add: refilled_def Let_def sub)
  moreover have "\<bar>x - (t + secs ?d * rate rpm)\<bar> \<le> refill_err"
    using x(2) p(2) prod unfolding refill_err_def by linarith
  ultimately show ?thesis using x(3) by blast
qed

lemma take_token:
  assumes "1 \<le> x" and "x \<le> 2 ^ 16"
  shows "\<exists>v. f64_add (Fin x) (Fin (- 1)) = Fin v \<and> 0 \<le> v \<and> \<bar>v - (x - 1)\<bar> \<le> refill_err"
proof -
  have "\<bar>x - 1\<bar> < 2 ^ 17" using assms by simp
  moreover have "(2::rat) powi (- 37) \<le> refill_err" using powi_2_minus [of 37] by (simp add: refill_err_def)
  ultimately show ?thesis using f64_of_rat_near [of "x - 1" 17] assms(1) by fastforce
qed

lemma take_token_int:
  assumes "1 \<le> k" and "k \<le> 2 ^ 16"
  shows "f64_add (Fin (of_int k)) (Fin (- 1)) = Fin (of_int (k - 1))"
proof -
  have "f64_of_int (k - 1) = Fin (of_int (k - 1))" using assms by (intro f64_of_int_exact) simp
  then show ?thesis by (simp add: f64_of_int_def)
qed

section \<open>Requests of one key\<close>

text \<open>A bucket that fits the budget, last used at most \<open>2 ^ 16\<close> seconds before \<open>now\<close>.\<close>

definition bucket_ok :: "int \<Rightarrow> time \<Rightarrow> bucket \<Rightarrow> bool" where
  "bucket_ok rpm now b \<longleftrightarrow>
     (case tokens b of Fin t \<Rightarrow> 0 \<le> t \<and> t \<le> of_int rpm | _ \<Rightarrow> False) \<and>
     lastRefill b \<le> now \<and> now - lastRefill b < 2 ^ 16 * Second"

definition level :: "bucket \<Rightarrow> rat" where
  "level b = (case tokens b of Fin t \<Rightarrow> t | _ \<Rightarrow> 0)"

definition budget_ok :: "int \<Rightarrow> bool" where
  "budget_ok rpm \<longleftrightarrow> 0 < rpm \<and> rpm \<le> 2 ^ 16"

lemma bucket_ok_tokens: "bucket_ok rpm now b \<Longrightarrow> tokens b = Fin (level b) \<and> 0 \<le> level b \<and> level b \<le> of_int rpm"
  by (auto simp: bucket_ok_def level_def split: float64.splits)

lemma budget_le: "budget_ok rpm \<Longrightarrow> (of_int rpm :: rat) \<le> 2 ^ 16"
  by (metis budget_ok_def of_int_le_iff of_int_numeral of_int_power)

lemma bucket_ok_refilled:
  assumes "budget_ok rpm" and "bucket_ok rpm now b"
  shows "\<exists>x. refilled b rpm now = Fin (min (of_int rpm) x) \<and> 0 \<le> x \<and>
    \<bar>x - (level b + secs (now - lastRefill b) * rate rpm)\<bar> \<le> refill_err"
  using refilled_near [of rpm b "level b" now] assms bucket_ok_tokens [OF assms(2)] budget_le [OF assms(1)]
  by (auto simp: budget_ok_def bucket_ok_def)

text \<open>
  One request against an existing bucket: the level stays within the budget, and what the
  request takes out is covered by the old level and the time that passed.
\<close>

lemma Allow_step:
  assumes "budget_ok rpm" and "buckets r k = Some b" and "bucket_ok rpm now b"
  shows "\<exists>b'. buckets (snd (Allow r k rpm now)) k = Some b' \<and> lastRefill b' = now \<and> bucket_ok rpm now b' \<and>
    level b' + of_bool (fst (Allow r k rpm now)) \<le> level b + secs (now - lastRefill b) * rate rpm + 2 * refill_err \<and>
    level b' + of_bool (fst (Allow r k rpm now)) \<le> of_int rpm + refill_err"
proof -
  have pos: "0 < rpm" using assms(1) by (simp add: budget_ok_def)
  obtain x where x: "refilled b rpm now = Fin (min (of_int rpm) x)" "0 \<le> x"
    "\<bar>x - (level b + secs (now - lastRefill b) * rate rpm)\<bar> \<le> refill_err"
    using bucket_ok_refilled [OF assms(1,3)] by blast
  have err: "0 \<le> refill_err" "refill_err \<le> 1 / 2" by (simp_all add: refill_err_def)
  let ?m = "min (of_int rpm) x"
  show ?thesis
  proof (cases "?m < 1")
    case True
    then have "Allow r k rpm now = (False, r\<lparr>buckets := (buckets r)(k \<mapsto> \<lparr>tokens = Fin ?m, lastRefill = now\<rparr>)\<rparr>)"
      using pos assms(2) x(1) by (simp add: Allow_def Let_def)
    then show ?thesis using x(2,3) pos err by (auto simp: bucket_ok_def level_def abs_le_iff)
  next
    case False
    obtain v where v: "f64_add (Fin ?m) (Fin (- 1)) = Fin v" "0 \<le> v" "\<bar>v - (?m - 1)\<bar> \<le> refill_err"
      using take_token [of ?m] False budget_le [OF assms(1)] by (meson linorder_not_less min.coboundedI1)
    have "Allow r k rpm now = (True, r\<lparr>buckets := (buckets r)(k \<mapsto> \<lparr>tokens = Fin v, lastRefill = now\<rparr>)\<rparr>)"
      using pos assms(2) x(1) v(1) False by (simp add: Allow_def Let_def)
    moreover have "v \<le> of_int rpm" "v + 1 \<le> of_int rpm + refill_err"
      "v + 1 \<le> level b + secs (now - lastRefill b) * rate rpm + 2 * refill_err"
      using v(3) x(3) err by linarith+
    ultimately show ?thesis using v(2) by (simp add: bucket_ok_def level_def)
  qed
qed

lemma Allow_fresh:
  assumes "budget_ok rpm" and "buckets r k = None"
  shows "fst (Allow r k rpm now)"
    "buckets (snd (Allow r k rpm now)) k = Some \<lparr>tokens = Fin (of_int (rpm - 1)), lastRefill = now\<rparr>"
proof -
  have b: "1 \<le> rpm" "rpm \<le> 2 ^ 16" using assms(1) by (simp_all add: budget_ok_def)
  then have "f64_of_int rpm = Fin (of_int rpm)" by (intro f64_of_int_exact) simp
  then show "fst (Allow r k rpm now)"
    "buckets (snd (Allow r k rpm now)) k = Some \<lparr>tokens = Fin (of_int (rpm - 1)), lastRefill = now\<rparr>"
    using b take_token_int [OF b] assms(2) by (simp_all add: Allow_def)
qed

lemma bucket_ok_later:
  "bucket_ok rpm t b \<Longrightarrow> lastRefill b = t \<Longrightarrow> t \<le> u \<Longrightarrow> u - t < 2 ^ 16 * Second \<Longrightarrow> bucket_ok rpm u b"
  by (simp add: bucket_ok_def)

lemma allow_seq_bound:
  assumes "budget_ok rpm" and "buckets r k = Some b" and "bucket_ok rpm (lastRefill b) b"
    and "sorted (lastRefill b # ts)" and "last (lastRefill b # ts) - lastRefill b < 2 ^ 16 * Second"
  shows "of_nat (count_list (allow_seq r k rpm ts) True) \<le>
    level b + secs (last (lastRefill b # ts) - lastRefill b) * rate rpm + of_nat (length ts) * (2 * refill_err)"
  using assms(2-5)
proof (induction ts arbitrary: r b)
  case Nil
  then show ?case using bucket_ok_tokens by force
next
  case (Cons t ts)
  have le: "t \<le> last (t # ts)" using Cons.prems(3) by (auto simp: last_in_set dest: last_in_set)
  have t: "lastRefill b \<le> t" "t - lastRefill b < 2 ^ 16 * Second"
    using Cons.prems(3,4) le by auto
  have ok: "bucket_ok rpm t b" using bucket_ok_later [OF Cons.prems(2) refl t] .
  obtain b' where b': "buckets (snd (Allow r k rpm t)) k = Some b'" "lastRefill b' = t" "bucket_ok rpm t b'"
    "level b' + of_bool (fst (Allow r k rpm t)) \<le> level b + secs (t - lastRefill b) * rate rpm + 2 * refill_err"
    using Allow_step [OF assms(1) Cons.prems(1) ok] by blast
  have "of_nat (count_list (allow_seq (snd (Allow r k rpm t)) k rpm ts) True) \<le>
      level b' + secs (last (t # ts) - t) * rate rpm + of_nat (length ts) * (2 * refill_err)"
    using Cons.IH [OF b'(1)] b'(2,3) Cons.prems(3,4) t le by simp
  moreover have "secs (last (t # ts) - lastRefill b) * rate rpm =
      secs (last (t # ts) - t) * rate rpm + secs (t - lastRefill b) * rate rpm"
    by (simp add: field_simps)
  moreover have "(of_nat (count_list (allow_seq r k rpm (t # ts)) True) :: rat) =
      of_bool (fst (Allow r k rpm t)) + of_nat (count_list (allow_seq (snd (Allow r k rpm t)) k rpm ts) True)"
    by (simp add: case_prod_beta Let_def)
  moreover have "of_nat (length (t # ts)) * (2 * refill_err) = 2 * refill_err + of_nat (length ts) * (2 * refill_err)"
    by (simp add: algebra_simps)
  moreover have "last (lastRefill b # t # ts) = last (t # ts)" by simp
  ultimately show ?case using b'(4) by (simp only:)
qed

lemma allow_burst:
  assumes "budget_ok rpm" and "buckets r k = Some \<lparr>tokens = Fin (of_nat m), lastRefill = now\<rparr>" and "int m \<le> rpm"
  shows "allow_seq r k rpm (replicate n now) = replicate (min n m) True @ replicate (n - m) False"
  using assms(2,3)
proof (induction n arbitrary: r m)
  case (Suc n)
  let ?b = "\<lparr>tokens = Fin (of_nat m), lastRefill = now\<rparr>"
  have b: "0 < rpm" "rpm \<le> 2 ^ 16" using assms(1) by (simp_all add: budget_ok_def)
  have i: "f64_of_int rpm = Fin (of_int rpm)" using b by (intro f64_of_int_exact) simp
  obtain rt where rt: "f64_div (f64_of_int rpm) 60 = Fin rt" using rate_near [OF b] by blast
  have z: "duration_seconds 0 = Fin 0"
    using f64_of_int_exact [of 0] by (simp add: duration_seconds_def f64_div_def f64_of_rat_Fin)
  have m: "(of_nat m :: rat) = of_int (int m)" by simp
  have mb: "\<bar>int m\<bar> \<le> 2 ^ 53" using Suc.prems(2) b(2) by simp
  have "f64_of_rat (of_nat m) = Fin (of_nat m)" using f64_of_int_exact [OF mb] by (simp add: f64_of_int_def)
  moreover have "min (of_int rpm) (of_nat m :: rat) = of_nat m"
    using Suc.prems(2) unfolding m by (simp only: min_def of_int_le_iff split: if_splits) simp
  moreover have "f64_of_rat 0 = Fin 0" by (simp add: f64_of_rat_Fin)
  ultimately have level: "refilled ?b rpm now = Fin (of_nat m)"
    unfolding refilled_def Let_def using z rt by (simp add: i)
  show ?case
  proof (cases m)
    case 0
    then have "Allow r k rpm now = (False, r\<lparr>buckets := (buckets r)(k \<mapsto> ?b)\<rparr>)"
      using Suc.prems(1) level b(1) by (simp add: Allow_def Let_def)
    then show ?thesis using Suc.IH [of "r\<lparr>buckets := (buckets r)(k \<mapsto> ?b)\<rparr>" m] 0 b(1) by simp
  next
    case (Suc j)
    let ?r = "r\<lparr>buckets := (buckets r)(k \<mapsto> \<lparr>tokens = Fin (of_nat j), lastRefill = now\<rparr>)\<rparr>"
    have "f64_add (Fin (of_nat m)) (Fin (- 1)) = Fin (of_nat j)"
      using take_token_int [of "int m"] Suc \<open>int m \<le> rpm\<close> b(2) by simp
    then have "Allow r k rpm now = (True, ?r)"
      using Suc.prems(1) level b(1) \<open>m = Suc j\<close> by (simp add: Allow_def Let_def)
    then show ?thesis using Suc.IH [of ?r j] \<open>m = Suc j\<close> \<open>int m \<le> rpm\<close> by simp
  qed
qed simp

section \<open>Properties\<close>

text \<open>
  C14: The limiter enforces the budget. For a budget of up to 65536 requests per minute, in
  any window shorter than 65536 seconds with at most a million requests, for a key whose
  bucket is new, or was last used less than 65536 seconds before the window and holds
  between nothing and the budget, the number of admitted requests is at most the
  budget plus what the rate refills during the window, up to a quarter of a token of
  accumulated rounding.
\<close>

theorem rate_limit_enforced:
  assumes "budget_ok rpm" and "sorted (t # ts)" and "last (t # ts) - t < 2 ^ 16 * Second"
    and "length ts < 2 ^ 20"
    and "case buckets r k of None \<Rightarrow> True | Some b \<Rightarrow> bucket_ok rpm t b"
  shows "of_nat (count_list (allow_seq r k rpm (t # ts)) True) \<le>
    of_int rpm + secs (last (t # ts) - t) * rate rpm + 1 / 4"
proof -
  let ?r = "snd (Allow r k rpm t)"
  have "\<exists>b'. buckets ?r k = Some b' \<and> lastRefill b' = t \<and> bucket_ok rpm t b' \<and>
      level b' + of_bool (fst (Allow r k rpm t)) \<le> of_int rpm + refill_err"
  proof (cases "buckets r k")
    case None
    then show ?thesis using Allow_fresh [OF assms(1) None] assms(1)
      by (simp add: bucket_ok_def level_def budget_ok_def refill_err_def)
  next
    case (Some b)
    then show ?thesis using Allow_step [OF assms(1) Some, of t] assms(5) by (simp only: option.case) blast
  qed
  then obtain b' where b': "buckets ?r k = Some b'" "lastRefill b' = t" "bucket_ok rpm t b'"
    "level b' + of_bool (fst (Allow r k rpm t)) \<le> of_int rpm + refill_err" by blast
  have "of_nat (count_list (allow_seq ?r k rpm ts) True) \<le>
      level b' + secs (last (t # ts) - t) * rate rpm + of_nat (length ts) * (2 * refill_err)"
    using allow_seq_bound [OF assms(1) b'(1)] b'(2,3) assms(2,3) by simp
  moreover have "(of_nat (count_list (allow_seq r k rpm (t # ts)) True) :: rat) =
      of_bool (fst (Allow r k rpm t)) + of_nat (count_list (allow_seq ?r k rpm ts) True)"
    by (simp add: case_prod_beta Let_def)
  moreover have "(of_nat (length ts) :: rat) \<le> 1048575" using assms(4) by simp
  ultimately show ?thesis using b'(4) unfolding refill_err_def by (simp only:)
qed

theorem rate_limit_enforced_witness:
  "of_nat (count_list (allow_seq NewRateLimiter ''k'' 60 [0, Second, 2 * Second]) True) \<le> (62 + 1 / 4 :: rat)"
  using rate_limit_enforced [of 60 0 "[Second, 2 * Second]" NewRateLimiter "''k''"]
  by (simp add: budget_ok_def NewRateLimiter_def del: allow_seq.simps count_list.simps)

text \<open>
  A burst gets exactly the budget. Of any number of requests of a new key at one instant,
  exactly the first \<open>rpm\<close> are admitted.
\<close>

theorem burst_admits_budget:
  assumes "budget_ok rpm" and "buckets r k = None"
  shows "allow_seq r k rpm (replicate n now) = replicate (min n (nat rpm)) True @ replicate (n - nat rpm) False"
proof (cases n)
  case (Suc m)
  have pos: "0 < rpm" using assms(1) by (simp add: budget_ok_def)
  have "buckets (snd (Allow r k rpm now)) k = Some \<lparr>tokens = Fin (of_nat (nat (rpm - 1))), lastRefill = now\<rparr>"
    using Allow_fresh(2) [OF assms] pos by simp
  from allow_burst [OF assms(1) this] have
    "allow_seq (snd (Allow r k rpm now)) k rpm (replicate m now) =
       replicate (min m (nat rpm - 1)) True @ replicate (m - (nat rpm - 1)) False"
    using pos by (simp add: nat_diff_distrib)
  moreover have "nat rpm = Suc (nat rpm - 1)" using pos by simp
  ultimately show ?thesis
    using Allow_fresh(1) [OF assms] Suc by (simp add: case_prod_beta Let_def) (metis Suc_eq_plus1 diff_Suc_Suc min_Suc_Suc replicate_Suc append_Cons)
qed simp

theorem burst_admits_budget_witness:
  "allow_seq NewRateLimiter ''k'' 2 (replicate 3 7) = [True, True, False]"
  using burst_admits_budget [of 2 NewRateLimiter "''k''" 3 7]
  by (simp add: budget_ok_def NewRateLimiter_def eval_nat_numeral)

text \<open>
  No key starves. A request is admitted as soon as the level of its bucket and the time
  since the previous request make up one token and \<open>2 powi (- 23)\<close> of a token; and asking
  too early loses nothing, as a refused request leaves the bucket with the level it had
  and what was refilled since, up to the same rounding.
\<close>

theorem waiting_key_admitted:
  assumes "budget_ok rpm" and "buckets r k = Some b" and "bucket_ok rpm now b"
  shows "(1 + refill_err \<le> level b + secs (now - lastRefill b) * rate rpm \<longrightarrow> fst (Allow r k rpm now)) \<and>
    (\<not> fst (Allow r k rpm now) \<longrightarrow>
      (\<exists>b'. buckets (snd (Allow r k rpm now)) k = Some b' \<and> lastRefill b' = now \<and>
        level b + secs (now - lastRefill b) * rate rpm - refill_err \<le> level b'))"
proof -
  obtain x where x: "refilled b rpm now = Fin (min (of_int rpm) x)"
    "\<bar>x - (level b + secs (now - lastRefill b) * rate rpm)\<bar> \<le> refill_err"
    using bucket_ok_refilled [OF assms(1,3)] by blast
  have rpm: "0 < rpm" using assms(1) by (simp add: budget_ok_def)
  then have one: "(1 :: rat) \<le> of_int rpm" by simp
  have low: "level b + secs (now - lastRefill b) * rate rpm - refill_err \<le> x" using x(2) by linarith
  show ?thesis
  proof (cases "1 \<le> x")
    case True
    then have "\<not> min (of_int rpm) x < 1" using one by linarith
    then show ?thesis using x(1) assms(2) rpm by (simp add: Allow_def Let_def)
  next
    case False
    then have "min (of_int rpm) x = x" using one by linarith
    moreover have "\<not> 1 + refill_err \<le> level b + secs (now - lastRefill b) * rate rpm" using False low by linarith
    ultimately show ?thesis using x(1) assms(2) rpm False low by (simp add: Allow_def Let_def level_def)
  qed
qed

theorem waiting_key_admitted_witness:
  "fst (Allow \<lparr>buckets = [''k'' \<mapsto> \<lparr>tokens = Fin 0, lastRefill = 0\<rparr>]\<rparr> ''k'' 60 (2 * Second))"
  using waiting_key_admitted [of 60 "\<lparr>buckets = [''k'' \<mapsto> \<lparr>tokens = Fin 0, lastRefill = 0\<rparr>]\<rparr>" "''k''"
      "\<lparr>tokens = Fin 0, lastRefill = 0\<rparr>" "2 * Second"]
  by (simp add: budget_ok_def bucket_ok_def level_def refill_err_def)

end
