(* ===== verification/Request_Queue.thy ===== *)
theory Request_Queue
  imports Go_Prelude "HOL-Library.Sublist"
begin

text \<open>
  The request queue (\<^verbatim>\<open>request-plane/queue/queue.go\<close>): three bounded FIFO lanes, one per
  priority. A lane is a buffered channel, its capacity and the requests in it. A
  \<^verbatim>\<open>Priority\<close> is an integer, as in the source, so that a request can carry a priority
  that has no lane. The channels of a request, on which its result travels, are named by
  the request's id and modelled with the dispatcher.

  The locale \<open>priority_queue\<close> is the contract the gateway and the dispatchers rely on:
  lanes with a bound, insertion at the end of a lane, removal from the first lane of the
  service order that is not empty.
\<close>

section \<open>Data\<close>

type_synonym Priority = int

abbreviation (input) PriorityNormal :: Priority where
  "PriorityNormal \<equiv> 0"

abbreviation (input) PriorityHigh :: Priority where
  "PriorityHigh \<equiv> 1"

abbreviation (input) PriorityLow :: Priority where
  "PriorityLow \<equiv> 2"

definition Priority_String :: "Priority \<Rightarrow> string" where
  "Priority_String p =
     (if p = PriorityHigh then ''high'' else if p = PriorityLow then ''low'' else ''normal'')"

record Request =
  rq_ID :: string
  rq_Body :: bytes
  rq_Model :: string
  rq_Priority :: Priority
  rq_EnqueuedAt :: time
  rq_KeyID :: string
  rq_Stream :: bool

definition popOrder :: "Priority list" where
  "popOrder = [PriorityHigh, PriorityNormal, PriorityLow]"

record lane =
  ln_cap :: nat
  ln_buf :: "Request list"

record Queue =
  lanes :: "Priority \<rightharpoonup> lane"

section \<open>Operations\<close>

definition Queue_New :: "int \<Rightarrow> panic + Queue" where
  "Queue_New capacityPerLane =
     (if capacityPerLane < 0 then Inl ChanSizeOutOfRange
      else let l = \<lparr>ln_cap = nat capacityPerLane, ln_buf = []\<rparr>
           in Inr \<lparr>lanes = [PriorityHigh \<mapsto> l, PriorityNormal \<mapsto> l, PriorityLow \<mapsto> l]\<rparr>)"

text \<open>A send on the nil channel of a missing lane is never ready, so the default branch runs.\<close>

definition TryPush :: "Queue \<Rightarrow> Request \<Rightarrow> bool \<times> Queue" where
  "TryPush q r =
     (case lanes q (rq_Priority r) of
        None \<Rightarrow> (False, q)
      | Some l \<Rightarrow>
          if length (ln_buf l) < ln_cap l
          then (True, q\<lparr>lanes := (lanes q)(rq_Priority r \<mapsto> l\<lparr>ln_buf := ln_buf l @ [r]\<rparr>)\<rparr>)
          else (False, q))"

text \<open>Receiving from one lane without blocking.\<close>

definition try_recv :: "Queue \<Rightarrow> Priority \<Rightarrow> (Request \<times> Queue) option" where
  "try_recv q p =
     (case lanes q p of
        None \<Rightarrow> None
      | Some l \<Rightarrow>
          (case ln_buf l of
             [] \<Rightarrow> None
           | r # rs \<Rightarrow> Some (r, q\<lparr>lanes := (lanes q)(p \<mapsto> l\<lparr>ln_buf := rs\<rparr>)\<rparr>)))"

fun try_pop_lanes :: "Priority list \<Rightarrow> Queue \<Rightarrow> (Request \<times> Queue) option" where
  "try_pop_lanes [] q = None"
| "try_pop_lanes (p # ps) q =
     (case try_recv q p of Some x \<Rightarrow> Some x | None \<Rightarrow> try_pop_lanes ps q)"

definition tryPopHighestPriority :: "Queue \<Rightarrow> (Request \<times> Queue) option" where
  "tryPopHighestPriority q = try_pop_lanes popOrder q"

definition LenByPriority :: "Queue \<Rightarrow> Priority \<Rightarrow> nat" where
  "LenByPriority q p = (case lanes q p of None \<Rightarrow> 0 | Some l \<Rightarrow> length (ln_buf l))"

definition Queue_Len :: "Queue \<Rightarrow> Priority list \<Rightarrow> nat" where
  "Queue_Len q ks = fold (\<lambda>l n. n + length (ln_buf l)) (range_values (lanes q) ks) 0"

definition Queue_Cap :: "Queue \<Rightarrow> Priority list \<Rightarrow> nat" where
  "Queue_Cap q ks = fold (\<lambda>l n. n + ln_cap l) (range_values (lanes q) ks) 0"

fun ahead_lanes :: "Queue \<Rightarrow> Priority \<Rightarrow> Priority list \<Rightarrow> nat \<Rightarrow> nat" where
  "ahead_lanes q p [] n = n"
| "ahead_lanes q p (x # xs) n =
     (let n' = n + LenByPriority q x in if x = p then n' else ahead_lanes q p xs n')"

definition AheadOf :: "Queue \<Rightarrow> Priority \<Rightarrow> nat" where
  "AheadOf q p = ahead_lanes q p popOrder 0"

section \<open>The contract\<close>

text \<open>
  \<open>content q p\<close> is what waits in lane \<open>p\<close>, oldest first; \<open>order\<close> the order in
  which lanes are served; \<open>bound\<close> how many a lane can hold.
\<close>

locale priority_queue =
  fixes content :: "'q \<Rightarrow> Priority \<Rightarrow> Request list"
    and bound :: "'q \<Rightarrow> Priority \<Rightarrow> nat"
    and order :: "Priority list"
    and push :: "'q \<Rightarrow> Request \<Rightarrow> bool \<times> 'q"
    and pop :: "'q \<Rightarrow> (Request \<times> 'q) option"
  assumes order_distinct: "distinct order"
    and push_accepts: "fst (push q r) \<longleftrightarrow> length (content q (rq_Priority r)) < bound q (rq_Priority r)"
    and push_content: "content (snd (push q r)) p =
      (if fst (push q r) \<and> p = rq_Priority r then content q p @ [r] else content q p)"
    and push_bound: "bound (snd (push q r)) = bound q"
    and pop_empty: "pop q = None \<longleftrightarrow> (\<forall>p \<in> set order. content q p = [])"
    and pop_first: "pop q = Some (r, q') \<Longrightarrow>
      \<exists>xs p ys rs. order = xs @ p # ys \<and> (\<forall>x \<in> set xs. content q x = []) \<and>
        content q p = r # rs \<and> content q' = (content q)(p := rs) \<and> bound q' = bound q"
begin

text \<open>The abstract queue: everything that waits, in service order.\<close>

definition backlog :: "'q \<Rightarrow> Request list" where
  "backlog q = concat (map (content q) order)"

text \<open>Removing until the queue is empty, at most \<open>n\<close> times.\<close>

fun drain :: "nat \<Rightarrow> 'q \<Rightarrow> Request list" where
  "drain 0 q = []"
| "drain (Suc n) q = (case pop q of None \<Rightarrow> [] | Some (r, q') \<Rightarrow> r # drain n q')"

lemma pop_backlog:
  assumes "pop q = Some (r, q')"
  shows "backlog q = r # backlog q'"
proof -
  obtain xs p ys rs where o: "order = xs @ p # ys" and e: "\<forall>x \<in> set xs. content q x = []"
    and c: "content q p = r # rs" and q': "content q' = (content q)(p := rs)"
    using pop_first [OF assms] by blast
  have d: "p \<notin> set xs" "p \<notin> set ys" using order_distinct o by auto
  have same: "map (content q') xs = map (content q) xs" "map (content q') ys = map (content q) ys"
    using d by (auto simp: q')
  have none: "concat (map (content q) xs) = []" using e by simp
  show ?thesis unfolding backlog_def unfolding o by (simp add: same none c del: map_eq_conv) (simp add: q')
qed

lemma pop_iff_backlog: "pop q = None \<longleftrightarrow> backlog q = []"
  by (simp add: pop_empty backlog_def)

lemma drain_backlog: "drain n q = take n (backlog q)"
proof (induction n arbitrary: q)
  case (Suc n)
  then show ?case
    using pop_iff_backlog [of q] pop_backlog [of q] by (auto split: option.splits)
qed simp

text \<open>
  A request that is accepted goes behind everything in the lanes up to and including its
  own, and before everything in later lanes.
\<close>

lemma push_backlog:
  assumes "fst (push q r)" and "order = xs @ rq_Priority r # ys"
  shows "backlog (snd (push q r)) =
    concat (map (content q) (xs @ [rq_Priority r])) @ r # concat (map (content q) ys)"
proof -
  have d: "rq_Priority r \<notin> set xs" "rq_Priority r \<notin> set ys" using order_distinct assms(2) by auto
  have same: "map (content (snd (push q r))) xs = map (content q) xs" "map (content (snd (push q r))) ys = map (content q) ys"
    using d by (auto simp: push_content)
  show ?thesis unfolding backlog_def unfolding assms(2) by (simp add: same push_content assms(1) del: map_eq_conv)
qed

lemma push_rejected: "\<not> fst (push q r) \<Longrightarrow> content (snd (push q r)) = content q"
  by (rule ext) (simp add: push_content)

lemma bounded_push:
  "length (content q p) \<le> bound q p \<Longrightarrow> length (content (snd (push q r)) p) \<le> bound (snd (push q r)) p"
  using push_accepts [of q r] by (auto simp: push_content push_bound)

lemma bounded_pop:
  assumes "pop q = Some (r, q')" and "length (content q p) \<le> bound q p"
  shows "length (content q' p) \<le> bound q' p"
  using pop_first [OF assms(1)] assms(2) by auto

end

section \<open>The queue fulfils the contract\<close>

definition lane_content :: "Queue \<Rightarrow> Priority \<Rightarrow> Request list" where
  "lane_content q p = (case lanes q p of None \<Rightarrow> [] | Some l \<Rightarrow> ln_buf l)"

definition lane_bound :: "Queue \<Rightarrow> Priority \<Rightarrow> nat" where
  "lane_bound q p = (case lanes q p of None \<Rightarrow> 0 | Some l \<Rightarrow> ln_cap l)"

lemma LenByPriority_content: "LenByPriority q p = length (lane_content q p)"
  by (simp add: LenByPriority_def lane_content_def split: option.splits)

lemma try_recv_None: "try_recv q p = None \<longleftrightarrow> lane_content q p = []"
  by (auto simp: try_recv_def lane_content_def split: option.splits list.splits)

lemma try_recv_Some:
  assumes "try_recv q p = Some (r, q')"
  shows "\<exists>rs. lane_content q p = r # rs \<and> lane_content q' = (lane_content q)(p := rs) \<and>
    lane_bound q' = lane_bound q \<and> dom (lanes q') = dom (lanes q)"
  using assms
  by (auto simp: try_recv_def lane_content_def lane_bound_def fun_eq_iff split: option.splits list.splits if_splits)

lemma try_pop_lanes_None: "try_pop_lanes ps q = None \<longleftrightarrow> (\<forall>p \<in> set ps. lane_content q p = [])"
proof (induction ps)
  case (Cons p ps)
  then show ?case using try_recv_None [of q p] by (cases "try_recv q p") auto
qed simp

lemma try_pop_lanes_Some:
  assumes "try_pop_lanes ps q = Some (r, q')"
  shows "\<exists>xs p ys. ps = xs @ p # ys \<and> (\<forall>x \<in> set xs. lane_content q x = []) \<and> try_recv q p = Some (r, q')"
  using assms
proof (induction ps)
  case (Cons a ps)
  show ?case
  proof (cases "try_recv q a")
    case None
    with Cons obtain xs p ys where "ps = xs @ p # ys" "\<forall>x \<in> set xs. lane_content q x = []" "try_recv q p = Some (r, q')"
      by auto
    then show ?thesis using None by (intro exI [of _ "a # xs"]) (auto simp: try_recv_None)
  next
    case (Some x)
    then show ?thesis using Cons.prems by (intro exI [of _ "[]"]) auto
  qed
qed simp

interpretation pq: priority_queue lane_content lane_bound popOrder TryPush tryPopHighestPriority
proof unfold_locales
  show "distinct popOrder" by (simp add: popOrder_def)
  show "fst (TryPush q r) \<longleftrightarrow> length (lane_content q (rq_Priority r)) < lane_bound q (rq_Priority r)" for q r
    by (simp add: TryPush_def lane_content_def lane_bound_def split: option.splits)
  show "lane_content (snd (TryPush q r)) p =
      (if fst (TryPush q r) \<and> p = rq_Priority r then lane_content q p @ [r] else lane_content q p)" for q r p
    by (auto simp: TryPush_def lane_content_def split: option.splits)
  show "lane_bound (snd (TryPush q r)) = lane_bound q" for q r
    by (auto simp: TryPush_def lane_bound_def fun_eq_iff split: option.splits if_splits)
  show "tryPopHighestPriority q = None \<longleftrightarrow> (\<forall>p \<in> set popOrder. lane_content q p = [])" for q
    by (simp add: tryPopHighestPriority_def try_pop_lanes_None)
  show "\<exists>xs p ys rs. popOrder = xs @ p # ys \<and> (\<forall>x \<in> set xs. lane_content q x = []) \<and>
        lane_content q p = r # rs \<and> lane_content q' = (lane_content q)(p := rs) \<and> lane_bound q' = lane_bound q"
    if "tryPopHighestPriority q = Some (r, q')" for q r q'
    using try_pop_lanes_Some [OF that [unfolded tryPopHighestPriority_def]] try_recv_Some by blast
qed

end
