(* ===== verification/Slo.thy ===== *)
theory Slo
  imports Auth Request_Queue
begin

text \<open>
  Latency tracking, wait estimates and backpressure (\<^verbatim>\<open>request-plane/slo\<close> and
  \<^verbatim>\<open>request-plane/backpressure\<close>). Durations are nanoseconds; the moving average and the
  estimate are computed in doubles and truncated, as in the source. Products and sums are
  rounded one by one, as on amd64; the bounds leave room for a fused multiply-add.
\<close>

section \<open>Latency tracker\<close>

record LatencyTracker =
  avg :: "string \<rightharpoonup> duration"
  fallback :: duration

definition NewLatencyTracker :: "duration \<Rightarrow> LatencyTracker" where
  "NewLatencyTracker fb = \<lparr>avg = Map.empty, fallback = fb\<rparr>"

text \<open>The constant \<^verbatim>\<open>alpha\<close> is exact until it meets a double; so is \<^verbatim>\<open>1-alpha\<close>.\<close>

definition alpha :: rat where
  "alpha = 3 / 10"

definition ewma :: "duration \<Rightarrow> duration \<Rightarrow> duration" where
  "ewma cur d =
     f64_trunc (f64_add (f64_mul (f64_of_int cur) (f64_of_rat (1 - alpha)))
                        (f64_mul (f64_of_int d) (f64_of_rat alpha)))"

definition tracker_Record :: "LatencyTracker \<Rightarrow> string \<Rightarrow> duration \<Rightarrow> LatencyTracker" where
  "tracker_Record t model d =
     (case avg t model of
        None \<Rightarrow> t\<lparr>avg := (avg t)(model \<mapsto> d)\<rparr>
      | Some cur \<Rightarrow> t\<lparr>avg := (avg t)(model \<mapsto> ewma cur d)\<rparr>)"

definition Average :: "LatencyTracker \<Rightarrow> string \<Rightarrow> duration" where
  "Average t model = (case avg t model of Some d \<Rightarrow> d | None \<Rightarrow> fallback t)"

section \<open>Estimator\<close>

definition NewEstimator :: "int \<Rightarrow> int" where
  "NewEstimator c = (if c < 1 then 1 else c)"

definition Estimate :: "LatencyTracker \<Rightarrow> int \<Rightarrow> string \<Rightarrow> int \<Rightarrow> duration" where
  "Estimate t conc model aheadCount =
     (case f64_of_int conc of
        Fin c \<Rightarrow> f64_trunc (f64_mul (f64_div (f64_of_int aheadCount) c) (f64_of_int (Average t model)))
      | _ \<Rightarrow> 0)"

section \<open>Backpressure\<close>

type_synonym Policy = "Priority \<rightharpoonup> duration"

definition DefaultThresholds :: Policy where
  "DefaultThresholds =
     [PriorityHigh \<mapsto> 5 * Second, PriorityNormal \<mapsto> 15 * Second, PriorityLow \<mapsto> 60 * Second]"

definition Admit :: "Policy \<Rightarrow> Priority \<Rightarrow> duration \<Rightarrow> bool" where
  "Admit maxWait priority estimatedWait =
     (case maxWait priority of None \<Rightarrow> True | Some m \<Rightarrow> estimatedWait \<le> m)"

section \<open>Rounding\<close>

lemma alpha_near:
  "\<exists>a. f64_of_rat alpha = Fin a \<and> \<bar>a - 3 / 10\<bar> \<le> 1 / 36028797018963968"
  "\<exists>b. f64_of_rat (1 - alpha) = Fin b \<and> \<bar>b - 7 / 10\<bar> \<le> 1 / 18014398509481984"
proof -
  have e: "(2::rat) powi (- 55) = 1 / 36028797018963968" "(2::rat) powi (- 54) = 1 / 18014398509481984"
    using powi_2_minus [of 55] powi_2_minus [of 54] by simp_all
  have "f64_of_rat alpha = Fin (rnd64 (3 / 10))" "\<bar>rnd64 (3 / 10) - 3 / 10\<bar> \<le> 2 powi (- 55)"
    using rnd64_err_below [of "3 / 10" "- 1"] by (simp_all add: alpha_def f64_of_rat_Fin)
  then show "\<exists>a. f64_of_rat alpha = Fin a \<and> \<bar>a - 3 / 10\<bar> \<le> 1 / 36028797018963968"
    unfolding e by blast
  show "\<exists>b. f64_of_rat (1 - alpha) = Fin b \<and> \<bar>b - 7 / 10\<bar> \<le> 1 / 18014398509481984"
    using f64_of_rat_near [of "7 / 10" 0] e(2) by (auto simp: alpha_def)
qed

lemma weight_near:
  assumes "f64_of_rat w = Fin a" and "\<bar>a - w\<bar> \<le> 1 / 18014398509481984" and "0 < w" and "w < 1"
    and "0 \<le> d" and "d < 2 ^ 48"
  shows "\<exists>p. f64_mul (f64_of_int d) (f64_of_rat w) = Fin p \<and> 0 \<le> p \<and> \<bar>p - of_int d * w\<bar> \<le> 1 / 16"
proof -
  have i: "f64_of_int d = Fin (of_int d)" using assms(5,6) by (intro f64_of_int_exact) simp
  have d: "0 \<le> (of_int d :: rat)" "(of_int d :: rat) \<le> 281474976710656"
    using assms(5,6) of_int_le_iff [of d "2 ^ 48", where 'a = rat] by simp_all
  have "(1 :: rat) \<le> 2 powi 200" by simp
  then have "w \<le> 2 powi 200" using assms(4) by (rule order_trans [OF less_imp_le, rotated])
  then have "f64_of_rat w = Fin (rnd64 w)" using assms(3) by (intro f64_of_rat_Fin) (simp only: abs_of_pos)
  then have a: "0 \<le> a" using assms(1,3) rnd64_nonneg [of w] by simp
  have "\<bar>of_int d * a - of_int d * w\<bar> = of_int d * \<bar>a - w\<bar>"
    using d(1) by (simp add: abs_mult flip: right_diff_distrib)
  also have "\<dots> \<le> 281474976710656 * (1 / 18014398509481984)"
    using d assms(2) by (intro mult_mono) simp_all
  finally have diff: "\<bar>of_int d * a - of_int d * w\<bar> \<le> 1 / 64" by simp
  have "of_int d * w \<le> 281474976710656 * 1" using d assms(3,4) by (intro mult_mono) simp_all
  then have "of_int d * a < 562949953421312" using diff by linarith
  moreover have nonneg: "0 \<le> of_int d * a" using d(1) a by simp
  ultimately have "\<bar>of_int d * a\<bar> < 2 ^ 49" by simp
  moreover have "(2::rat) powi (- 5) = 1 / 32" using powi_2_minus [of 5] by simp
  ultimately obtain p where p: "f64_of_rat (of_int d * a) = Fin p" "\<bar>p - of_int d * a\<bar> \<le> 1 / 32" "0 \<le> p"
    using f64_of_rat_near [of "of_int d * a" 49] nonneg by auto
  have "\<bar>p - of_int d * w\<bar> \<le> 1 / 16" using p(2) diff by linarith
  then show ?thesis using p i assms(1) by simp
qed

lemma ewma_near:
  assumes "0 \<le> cur" and "cur < 2 ^ 48" and "0 \<le> d" and "d < 2 ^ 48"
  shows "\<exists>v :: rat. ewma cur d = \<lfloor>v\<rfloor> \<and> 0 \<le> v \<and> \<bar>v - (of_int cur * (7 / 10) + of_int d * (3 / 10))\<bar> \<le> 1 / 4"
proof -
  obtain a b where w: "f64_of_rat alpha = Fin a" "\<bar>a - 3 / 10\<bar> \<le> 1 / 36028797018963968"
    "f64_of_rat (1 - alpha) = Fin b" "\<bar>b - 7 / 10\<bar> \<le> 1 / 18014398509481984"
    using alpha_near by blast
  have al: "alpha = 3 / 10" "1 - alpha = 7 / 10" by (simp_all add: alpha_def)
  obtain p where p: "f64_mul (f64_of_int cur) (f64_of_rat (1 - alpha)) = Fin p" "0 \<le> p"
    "\<bar>p - of_int cur * (7 / 10)\<bar> \<le> 1 / 16"
    using weight_near [of "1 - alpha" b cur] w(3,4) assms(1,2) unfolding al by auto
  have "\<bar>a - 3 / 10\<bar> \<le> 1 / 18014398509481984" using w(2) by linarith
  then obtain q where q: "f64_mul (f64_of_int d) (f64_of_rat alpha) = Fin q" "0 \<le> q"
    "\<bar>q - of_int d * (3 / 10)\<bar> \<le> 1 / 16"
    using weight_near [of alpha a d] w(1) assms(3,4) unfolding al by auto
  have "(of_int cur :: rat) \<le> 281474976710656" "(of_int d :: rat) \<le> 281474976710656"
    using assms of_int_le_iff [of _ "2 ^ 48", where 'a = rat] by simp_all
  then have "p + q < 562949953421312" using p(3) q(3) by linarith
  then have "\<bar>p + q\<bar> < 2 ^ 49" using p(2) q(2) by simp
  moreover have "(2::rat) powi (- 5) = 1 / 32" using powi_2_minus [of 5] by simp
  ultimately obtain v where v: "f64_of_rat (p + q) = Fin v" "\<bar>v - (p + q)\<bar> \<le> 1 / 32" "0 \<le> v"
    using f64_of_rat_near [of "p + q" 49] p(2) q(2) by auto
  have "v < 9223372036854775808" using v(2) \<open>p + q < _\<close> by linarith
  then have "ewma cur d = \<lfloor>v\<rfloor>" using p(1) q(1) v(1,3) by (simp add: ewma_def f64_trunc_Fin)
  moreover have "\<bar>v - (of_int cur * (7 / 10) + of_int d * (3 / 10))\<bar> \<le> 1 / 4"
    using v(2) p(3) q(3) by linarith
  ultimately show ?thesis using v(3) by blast
qed

text \<open>One step keeps the average within a nanosecond below the least and at most the greatest sample.\<close>

lemma ewma_between:
  assumes "0 \<le> l" and "u < 2 ^ 48" and "l \<le> d" and "d \<le> u" and "max 0 (l - 1) \<le> cur" and "cur \<le> u"
  shows "max 0 (l - 1) \<le> ewma cur d" "ewma cur d \<le> u"
proof -
  obtain v :: rat where v: "ewma cur d = \<lfloor>v\<rfloor>" "0 \<le> v"
    "\<bar>v - (of_int cur * (7 / 10) + of_int d * (3 / 10))\<bar> \<le> 1 / 4" using ewma_near [of cur d] assms by auto
  have b: "(of_int l - 1 :: rat) \<le> of_int cur" "(of_int cur :: rat) \<le> of_int u"
    "(of_int l :: rat) \<le> of_int d" "(of_int d :: rat) \<le> of_int u"
    using assms of_int_le_iff [of "l - 1" cur, where 'a = rat] by simp_all
  then have "of_int l - 1 \<le> v" using v(3) by linarith
  then have "l - 1 \<le> \<lfloor>v\<rfloor>" by (simp add: le_floor_iff)
  then show "max 0 (l - 1) \<le> ewma cur d" using v(1,2) by simp
  have "v < of_int u + 1" using b v(3) by linarith
  then show "ewma cur d \<le> u" using v(1) by (simp add: floor_le_iff)
qed

lemma tracker_Record_between:
  assumes "0 \<le> l" and "u < 2 ^ 48" and "l \<le> d" and "d \<le> u"
    and "\<forall>a. avg t model = Some a \<longrightarrow> max 0 (l - 1) \<le> a \<and> a \<le> u"
  shows "\<exists>a. avg (tracker_Record t model d) model = Some a \<and> max 0 (l - 1) \<le> a \<and> a \<le> u"
proof (cases "avg t model")
  case None
  then show ?thesis using assms by (simp add: tracker_Record_def)
next
  case (Some cur)
  then show ?thesis using ewma_between [OF assms(1-4), of cur] assms(5) by (simp add: tracker_Record_def)
qed

section \<open>Average and estimate\<close>

text \<open>
  A tracker that has recorded \<open>samples\<close>, latencies with the model they belong to, and the
  latencies its average of a model is made of: those recorded for the model, or the
  fallback while there are none.
\<close>

definition recorded :: "duration \<Rightarrow> (string \<times> duration) list \<Rightarrow> LatencyTracker" where
  "recorded fb samples = fold (\<lambda>s t. tracker_Record t (fst s) (snd s)) samples (NewLatencyTracker fb)"

definition observed :: "duration \<Rightarrow> (string \<times> duration) list \<Rightarrow> string \<Rightarrow> duration list" where
  "observed fb samples model =
     (case map snd (filter (\<lambda>s. fst s = model) samples) of [] \<Rightarrow> [fb] | ds \<Rightarrow> ds)"

lemma record_among:
  assumes "0 \<le> l" and "u < 2 ^ 48" and "\<forall>a. avg t model = Some a \<longrightarrow> max 0 (l - 1) \<le> a \<and> a \<le> u"
    and "\<forall>d \<in> set (map snd (filter (\<lambda>s. fst s = model) samples)). l \<le> d \<and> d \<le> u"
  shows "case avg (fold (\<lambda>s t. tracker_Record t (fst s) (snd s)) samples t) model of
      None \<Rightarrow> avg t model = None \<and> filter (\<lambda>s. fst s = model) samples = []
    | Some a \<Rightarrow> max 0 (l - 1) \<le> a \<and> a \<le> u \<and> (avg t model = None \<longrightarrow> filter (\<lambda>s. fst s = model) samples \<noteq> [])"
  using assms(3,4)
proof (induction samples arbitrary: t)
  case (Cons s samples)
  obtain m d where s: "s = (m, d)" by fastforce
  show ?case
  proof (cases "m = model")
    case True
    then obtain a where "avg (tracker_Record t model d) model = Some a" "max 0 (l - 1) \<le> a" "a \<le> u"
      using tracker_Record_between [OF assms(1,2), of d t model] Cons.prems s by auto
    then show ?thesis using Cons.IH [of "tracker_Record t model d"] Cons.prems(2) s True
      by (simp split: option.splits)
  next
    case False
    then have "avg (tracker_Record t m d) model = avg t model"
      by (auto simp: tracker_Record_def split: option.splits)
    then show ?thesis using Cons.IH [of "tracker_Record t m d"] Cons.prems s False
      by (simp split: option.splits)
  qed
qed (auto split: option.splits)

lemma fallback_recorded [simp]: "fallback (recorded fb samples) = fb"
proof -
  have "fallback (fold (\<lambda>s t. tracker_Record t (fst s) (snd s)) samples t) = fallback t" for t
    by (induction samples arbitrary: t) (auto simp: tracker_Record_def split: option.splits)
  then show ?thesis by (simp add: recorded_def NewLatencyTracker_def)
qed

text \<open>
  The moving average stays among the latencies it is made of, up to one nanosecond below:
  rounding and truncation never make it drift away.
\<close>

lemma average_among:
  assumes "0 \<le> l" and "u < 2 ^ 48" and "\<forall>d \<in> set (observed fb samples model). l \<le> d \<and> d \<le> u"
  shows "l - 1 \<le> Average (recorded fb samples) model" "0 \<le> Average (recorded fb samples) model"
    "Average (recorded fb samples) model \<le> u"
proof -
  have "\<forall>d \<in> set (map snd (filter (\<lambda>s. fst s = model) samples)). l \<le> d \<and> d \<le> u"
    using assms(3) by (cases "map snd (filter (\<lambda>s. fst s = model) samples)") (simp_all add: observed_def)
  then have *: "case avg (recorded fb samples) model of
      None \<Rightarrow> filter (\<lambda>s. fst s = model) samples = [] | Some a \<Rightarrow> max 0 (l - 1) \<le> a \<and> a \<le> u"
    using record_among [OF assms(1,2), of "NewLatencyTracker fb" model samples]
    by (auto simp: recorded_def NewLatencyTracker_def split: option.splits)
  have "l - 1 \<le> Average (recorded fb samples) model \<and> 0 \<le> Average (recorded fb samples) model \<and>
    Average (recorded fb samples) model \<le> u"
  proof (cases "avg (recorded fb samples) model")
    case None
    then have "observed fb samples model = [fb]" using * by (simp add: observed_def)
    then show ?thesis using None assms(1,3) by (simp add: Average_def)
  next
    case (Some a)
    then show ?thesis using * by (simp add: Average_def)
  qed
  then show "l - 1 \<le> Average (recorded fb samples) model" "0 \<le> Average (recorded fb samples) model"
    "Average (recorded fb samples) model \<le> u" by simp_all
qed

text \<open>
  The estimate is the number of requests ahead times the average over the number of dispatchers,
  which is never taken below one, off by at most half a nanosecond before it is truncated.
\<close>

lemma estimate_near:
  assumes "0 \<le> ahead" and "ahead \<le> 4096" and "c \<le> 1024"
    and "0 \<le> Average t model" and "Average t model < 2 ^ 39"
  shows "\<exists>v :: rat. Estimate t (NewEstimator c) model ahead = \<lfloor>v\<rfloor> \<and> 0 \<le> v \<and>
    \<bar>v - of_int ahead * of_int (Average t model) / of_int (max 1 c)\<bar> \<le> 1 / 2"
proof -
  let ?n = "NewEstimator c" and ?a = "Average t model"
  have n: "?n = max 1 c" by (simp add: NewEstimator_def)
  have ints: "f64_of_int ?n = Fin (of_int ?n)" "f64_of_int ahead = Fin (of_int ahead)" "f64_of_int ?a = Fin (of_int ?a)"
    using assms n by (intro f64_of_int_exact; simp)+
  define x :: rat where "x = of_int ahead / of_int ?n"
  define A :: rat where "A = of_int ?a"
  have np: "(1 :: rat) \<le> of_int ?n" by (simp add: n)
  have ah: "0 \<le> (of_int ahead :: rat)" "(of_int ahead :: rat) \<le> 4096" using assms(1,2) by simp_all
  have x: "0 \<le> x" "x \<le> 4096" using ah np frac_le [of 4096 "of_int ahead" 1 "of_int ?n"] by (simp_all add: x_def)
  have A: "0 \<le> A" "A \<le> 549755813888"
    using assms(4,5) of_int_le_iff [of ?a "2 ^ 39", where 'a = rat] by (simp_all add: A_def)
  have e: "(2::rat) powi (- 41) = 1 / 2199023255552" "(2::rat) powi (- 2) = 1 / 4"
    using powi_2_minus [of 41] powi_2_minus [of 2] by simp_all
  obtain r where r: "f64_of_rat x = Fin r" "\<bar>r - x\<bar> \<le> 1 / 2199023255552" "0 \<le> r"
    using f64_of_rat_near [of x 13] x e by auto
  have prod: "\<bar>r * A - x * A\<bar> \<le> 1 / 2199023255552 * 549755813888 + 4096 * 0"
    using r(2) A x by (intro mult_near) simp_all
  have "x * A \<le> 4096 * 549755813888" using x A by (intro mult_mono) simp_all
  then have "r * A < 4503599627370496" using prod by linarith
  then have small: "\<bar>r * A\<bar> < 2 ^ 52" using r(3) A(1) by simp
  obtain v where v: "f64_of_rat (r * A) = Fin v" "\<bar>v - r * A\<bar> \<le> 1 / 4" "0 \<le> v"
    using f64_of_rat_near [OF small] e r(3) A(1) by auto
  have "v < 9223372036854775808" using v(2) \<open>r * A < _\<close> by linarith
  then have "Estimate t ?n model ahead = \<lfloor>v\<rfloor>"
    using ints r(1) v(1,3) by (simp add: Estimate_def f64_div_def f64_trunc_Fin x_def A_def)
  moreover have "\<bar>v - x * A\<bar> \<le> 1 / 2" using v(2) prod by linarith
  ultimately show ?thesis using v(3) n by (auto simp: x_def A_def)
qed

text \<open>So the estimate lies on the same side of a whole number of nanoseconds as the exact quotient.\<close>

lemma estimate_sides:
  assumes "0 \<le> ahead" and "ahead \<le> 4096" and "c \<le> 1024"
    and "0 \<le> Average t model" and "Average t model < 2 ^ 39"
  shows "ahead * Average t model \<le> bound * max 1 c \<Longrightarrow> Estimate t (NewEstimator c) model ahead \<le> bound"
    and "(bound + 2) * max 1 c \<le> ahead * Average t model \<Longrightarrow> bound < Estimate t (NewEstimator c) model ahead"
proof -
  obtain v :: rat where v: "Estimate t (NewEstimator c) model ahead = \<lfloor>v\<rfloor>"
    "\<bar>v - of_int ahead * of_int (Average t model) / of_int (max 1 c)\<bar> \<le> 1 / 2" using estimate_near [OF assms] by blast
  have c: "0 < (of_int (max 1 c) :: rat)" by simp
  show "Estimate t (NewEstimator c) model ahead \<le> bound" if "ahead * Average t model \<le> bound * max 1 c"
  proof -
    have "of_int (ahead * Average t model) \<le> (of_int (bound * max 1 c) :: rat)" using that by (simp only: of_int_le_iff)
    then have "of_int ahead * of_int (Average t model) / of_int (max 1 c) \<le> (of_int bound :: rat)"
      using c by (simp only: pos_divide_le_eq of_int_mult)
    then have "v < of_int bound + 1" using v(2) by linarith
    then show ?thesis using v(1) by (simp add: floor_le_iff)
  qed
  show "bound < Estimate t (NewEstimator c) model ahead" if "(bound + 2) * max 1 c \<le> ahead * Average t model"
  proof -
    have "of_int ((bound + 2) * max 1 c) \<le> (of_int (ahead * Average t model) :: rat)" using that by (simp only: of_int_le_iff)
    then have "(of_int (bound + 2) :: rat) \<le> of_int ahead * of_int (Average t model) / of_int (max 1 c)"
      using c by (simp only: pos_le_divide_eq of_int_mult)
    then have "of_int bound + 1 \<le> v" using v(2) unfolding of_int_add of_int_numeral by linarith
    then show ?thesis using v(1) by (simp add: less_floor_iff)
  qed
qed

end
