(* ===== verification/Net_Http.thy ===== *)
theory Net_Http
  imports Go_Prelude
begin

text \<open>
  The parts of \<^verbatim>\<open>net/http\<close> and \<^verbatim>\<open>encoding/json\<close> the handlers use.

  \<^item> A request is its method, path, headers and the bytes reading its body gives, or
    nothing if reading fails.
  \<^item> A response writer keeps the headers, the committed status and what was written.
    The first final status wins; a status outside 100..999 panics.
  \<^item> A JSON text is parsed by a function given as an argument to the handlers; what
    \<^verbatim>\<open>json.Unmarshal\<close> makes of the parsed value is defined here: object keys match
    struct fields without regard to case, the last match wins, null leaves the field
    alone, and a value of another type is an error.
\<close>

section \<open>Requests and responses\<close>

record http_request =
  Method :: string
  Path :: string
  Header :: "string \<rightharpoonup> string"
  Body :: "bytes option"

definition header_get :: "(string \<rightharpoonup> string) \<Rightarrow> string \<Rightarrow> string" where
  "header_get h k = (case h k of None \<Rightarrow> '''' | Some v \<Rightarrow> v)"

record response =
  rhdr :: "string \<rightharpoonup> string"
  rstatus :: "int option"
  rbody :: "bytes list"

definition new_response :: response where
  "new_response = \<lparr>rhdr = Map.empty, rstatus = None, rbody = []\<rparr>"

definition set_header :: "string \<Rightarrow> string \<Rightarrow> response \<Rightarrow> response" where
  "set_header k v w = w\<lparr>rhdr := (rhdr w)(k \<mapsto> v)\<rparr>"

definition commit_status :: "int \<Rightarrow> response \<Rightarrow> response" where
  "commit_status code w =
     (if 100 \<le> code \<and> code \<le> 199 \<and> code \<noteq> 101 then w
      else if rstatus w = None then w\<lparr>rstatus := Some code\<rparr> else w)"

definition WriteHeader :: "int \<Rightarrow> response \<Rightarrow> panic + response" where
  "WriteHeader code w =
     (if code < 100 \<or> 999 < code then Inl InvalidWriteHeaderCode else Inr (commit_status code w))"

text \<open>Writing before a final status commits 200.\<close>

definition write_body :: "bytes \<Rightarrow> response \<Rightarrow> response" where
  "write_body b w = (commit_status 200 w)\<lparr>rbody := rbody w @ [b]\<rparr>"

definition http_Error :: "string \<Rightarrow> int \<Rightarrow> response \<Rightarrow> response" where
  "http_Error msg code w =
     write_body (msg @ [CHR 0x0A])
       (commit_status code
         (set_header ''X-Content-Type-Options'' ''nosniff''
           (set_header ''Content-Type'' ''text/plain; charset=utf-8''
             (w\<lparr>rhdr := (rhdr w)(''Content-Length'' := None)\<rparr>))))"

lemma rstatus_simps [simp]:
  "rstatus (set_header k v w) = rstatus w"
  "rhdr (set_header k v w) = (rhdr w)(k \<mapsto> v)"
  "rbody (set_header k v w) = rbody w"
  "rhdr (commit_status c w) = rhdr w"
  "rbody (commit_status c w) = rbody w"
  "rhdr (write_body b w) = rhdr w"
  "rbody (write_body b w) = rbody w @ [b]"
  "rstatus new_response = None"
  "rbody new_response = []"
  by (simp_all add: set_header_def commit_status_def write_body_def new_response_def)

lemma commit_status_final [simp]:
  "200 \<le> code \<Longrightarrow> rstatus w = None \<Longrightarrow> rstatus (commit_status code w) = Some code"
  by (simp add: commit_status_def)

lemma commit_status_keeps [simp]: "rstatus w = Some c \<Longrightarrow> commit_status code w = w"
  by (simp add: commit_status_def)

lemma write_body_keeps [simp]: "rstatus w = Some c \<Longrightarrow> rstatus (write_body b w) = Some c"
  by (simp add: write_body_def)

lemma http_Error_status [simp]:
  "200 \<le> code \<Longrightarrow> rstatus w = None \<Longrightarrow> rstatus (http_Error msg code w) = Some code"
  by (simp add: http_Error_def)

lemma http_Error_body [simp]: "rbody (http_Error msg code w) = rbody w @ [msg @ [CHR 0x0A]]"
  by (simp add: http_Error_def)

text \<open>What an HTTP client call can give: the request cannot be built, the server cannot be
  reached, or a response whose body arrives in chunks and may break off.\<close>

record upstream_response =
  us_status :: int
  us_ctype :: string
  us_chunks :: "bytes list"
  us_broken :: bool

datatype do_result = BuildError | Unreachable | Got upstream_response

section \<open>JSON values\<close>

datatype json =
    JNull
  | JBool bool
  | JNum string
  | JStr string
  | JArr "json list"
  | JObj "(string \<times> json) list"

definition lower_char :: "char \<Rightarrow> char" where
  "lower_char c = (if 65 \<le> (of_char c :: nat) \<and> (of_char c :: nat) \<le> 90 then char_of ((of_char c :: nat) + 32) else c)"

definition same_field :: "string \<Rightarrow> string \<Rightarrow> bool" where
  "same_field k f \<longleftrightarrow> map lower_char k = map lower_char f"

text \<open>
  Decoding one field of the target struct from the members of the object, in order: an
  accumulated value and whether a value of the wrong type was met.
\<close>

fun decode_string :: "string \<Rightarrow> (string \<times> json) list \<Rightarrow> string \<times> bool \<Rightarrow> string \<times> bool" where
  "decode_string f [] acc = acc"
| "decode_string f ((k, v) # ms) (cur, bad) =
     decode_string f ms
       (if same_field k f
        then (case v of JStr s \<Rightarrow> (s, bad) | JNull \<Rightarrow> (cur, bad) | _ \<Rightarrow> (cur, True))
        else (cur, bad))"

fun decode_bool :: "string \<Rightarrow> (string \<times> json) list \<Rightarrow> bool \<times> bool \<Rightarrow> bool \<times> bool" where
  "decode_bool f [] acc = acc"
| "decode_bool f ((k, v) # ms) (cur, bad) =
     decode_bool f ms
       (if same_field k f
        then (case v of JBool b \<Rightarrow> (b, bad) | JNull \<Rightarrow> (cur, bad) | _ \<Rightarrow> (cur, True))
        else (cur, bad))"

text \<open>Decoding into a struct with a string field: \<open>None\<close> is an error.\<close>

definition unmarshal_string_field :: "string \<Rightarrow> json \<Rightarrow> string option" where
  "unmarshal_string_field f j =
     (case j of
        JObj ms \<Rightarrow> (let (v, bad) = decode_string f ms ('''', False) in if bad then None else Some v)
      | JNull \<Rightarrow> Some ''''
      | _ \<Rightarrow> None)"

definition unmarshal_bool_field :: "string \<Rightarrow> json \<Rightarrow> bool option" where
  "unmarshal_bool_field f j =
     (case j of
        JObj ms \<Rightarrow> (let (v, bad) = decode_bool f ms (False, False) in if bad then None else Some v)
      | JNull \<Rightarrow> Some False
      | _ \<Rightarrow> None)"

lemma decode_string_append:
  "decode_string f (xs @ ys) acc = decode_string f ys (decode_string f xs acc)"
  by (induction f xs acc rule: decode_string.induct) auto

lemma decode_bool_append:
  "decode_bool f (xs @ ys) acc = decode_bool f ys (decode_bool f xs acc)"
  by (induction f xs acc rule: decode_bool.induct) auto

lemma same_field_refl [simp]: "same_field f f"
  by (simp add: same_field_def)

end
