(* ===== verification/Dispatcher.thy ===== *)
theory Dispatcher
  imports Net_Http Request_Queue "HOL-Library.List_Lexorder" "HOL-Library.Char_ord"
begin

text \<open>
  The dispatcher (\<^verbatim>\<open>request-plane/dispatcher/dispatcher.go\<close>): forwarding one request
  upstream, with retries of the same model and a chain of fallback models, buffered or
  streaming.

  The upstream is an argument: \<open>net i target body\<close> is what the \<open>i\<close>-th HTTP call of this
  dispatch gives. Every dispatch returns the one result it puts on the request's result
  channel and its attempts in order; an attempt whose HTTP request cannot be built
  counts as one. An error is its kind; its text comes from the
  standard library and is an argument of the gateway. JSON is parsed and printed by the
  arguments \<open>parse\<close> and \<open>render\<close>.
\<close>

section \<open>Configuration\<close>

record Dispatcher =
  upstream :: string
  concurrency :: int
  maxAttempts :: int
  fallbacks :: "string \<rightharpoonup> string list"

definition WithMaxAttempts :: "int \<Rightarrow> Dispatcher \<Rightarrow> Dispatcher" where
  "WithMaxAttempts n d = d\<lparr>maxAttempts := (if n < 1 then 1 else n)\<rparr>"

definition WithFallbacks :: "(string \<rightharpoonup> string list) \<Rightarrow> Dispatcher \<Rightarrow> Dispatcher" where
  "WithFallbacks fb d = d\<lparr>fallbacks := fb\<rparr>"

definition Dispatcher_New :: "string \<Rightarrow> int \<Rightarrow> (Dispatcher \<Rightarrow> Dispatcher) list \<Rightarrow> Dispatcher" where
  "Dispatcher_New up conc opts =
     fold (\<lambda>opt d. opt d) opts
       \<lparr>upstream = up, concurrency = conc, maxAttempts = 1, fallbacks = Map.empty\<rparr>"

section \<open>Results\<close>

datatype dispatch_error =
    RewriteModel string
  | BuildUpstream
  | UpstreamUnreachable
  | ReadUpstream

record Result =
  StatusCode :: int
  rs_Body :: bytes
  rs_Err :: "dispatch_error option"
  ServedModel :: string
  Streaming :: bool
  ContentType :: string

definition zero_result :: Result where
  "zero_result = \<lparr>StatusCode = 0, rs_Body = [], rs_Err = None, ServedModel = [], Streaming = False, ContentType = []\<rparr>"

definition err_result :: "dispatch_error \<Rightarrow> string \<Rightarrow> Result" where
  "err_result e model = zero_result\<lparr>rs_Err := Some e, ServedModel := model\<rparr>"

definition isRetryableStatus :: "int \<Rightarrow> bool" where
  "isRetryableStatus code \<longleftrightarrow> code = 503 \<or> code = 502"

section \<open>Rewriting the model\<close>

text \<open>
  Decoding an object into a Go map keeps the last value of a repeated key; encoding the
  map writes the keys in ascending byte order.
\<close>

definition go_map :: "(string \<times> json) list \<Rightarrow> (string \<rightharpoonup> json)" where
  "go_map ms = map_of (rev ms)"

definition canonical :: "(string \<times> json) list \<Rightarrow> (string \<times> json) list" where
  "canonical ms = map (\<lambda>k. (k, the (go_map ms k))) (sort (remdups (map fst ms)))"

text \<open>Decoding null into the map leaves it nil, and the assignment panics.\<close>

definition setModel ::
  "(bytes \<Rightarrow> json option) \<Rightarrow> (json \<Rightarrow> bytes) \<Rightarrow> bytes \<Rightarrow> string \<Rightarrow> panic + bytes option" where
  "setModel parse render body model =
     (case parse body of
        Some (JObj ms) \<Rightarrow> Inr (Some (render (JObj (canonical (ms @ [(''model'', JStr model)])))))
      | Some JNull \<Rightarrow> Inl NilMapWrite
      | _ \<Rightarrow> Inr None)"

section \<open>Upstream calls\<close>

type_synonym net = "nat \<Rightarrow> string \<Rightarrow> bytes \<Rightarrow> do_result"

record upstream_call =
  uc_target :: string
  uc_body :: bytes
  uc_model :: string

definition upstream_target :: "Dispatcher \<Rightarrow> string" where
  "upstream_target d = upstream d @ ''/v1/chat/completions''"

definition made_call :: "Dispatcher \<Rightarrow> bytes \<Rightarrow> string \<Rightarrow> upstream_call" where
  "made_call d body model = \<lparr>uc_target = upstream_target d, uc_body = body, uc_model = model\<rparr>"

text \<open>One buffered call: its result, whether it may be retried, and the calls made so far.\<close>

definition attempt ::
  "net \<Rightarrow> Dispatcher \<Rightarrow> bytes \<Rightarrow> string \<Rightarrow> upstream_call list \<Rightarrow> Result \<times> bool \<times> upstream_call list" where
  "attempt net d body model log =
     (let log' = log @ [made_call d body model]
      in case net (length log) (upstream_target d) body of
        BuildError \<Rightarrow> (err_result BuildUpstream model, False, log')
      | Unreachable \<Rightarrow> (err_result UpstreamUnreachable model, True, log')
      | Got up \<Rightarrow>
          if us_broken up then (err_result ReadUpstream model, False, log')
          else (zero_result\<lparr>StatusCode := us_status up, rs_Body := concat (us_chunks up), ServedModel := model\<rparr>,
                isRetryableStatus (us_status up), log'))"

fun buffered_attempts ::
  "net \<Rightarrow> Dispatcher \<Rightarrow> bytes \<Rightarrow> string \<Rightarrow> nat \<Rightarrow> Result \<Rightarrow> upstream_call list \<Rightarrow>
     bool \<times> Result \<times> upstream_call list" where
  "buffered_attempts net d body model 0 final log = (False, final, log)"
| "buffered_attempts net d body model (Suc n) final log =
     (let (result, retryable, log') = attempt net d body model log
      in if \<not> retryable then (True, result, log')
         else buffered_attempts net d body model n result log')"

text \<open>The fallback chain: the requested model, then its configured alternatives.\<close>

definition chain :: "Dispatcher \<Rightarrow> Request \<Rightarrow> string list" where
  "chain d req = rq_Model req # (case fallbacks d (rq_Model req) of None \<Rightarrow> [] | Some ms \<Rightarrow> ms)"

definition body_for ::
  "(bytes \<Rightarrow> json option) \<Rightarrow> (json \<Rightarrow> bytes) \<Rightarrow> Request \<Rightarrow> string \<Rightarrow> panic + bytes option" where
  "body_for parse render req model =
     (if model \<noteq> rq_Model req then setModel parse render (rq_Body req) model else Inr (Some (rq_Body req)))"

fun buffered_chain ::
  "(bytes \<Rightarrow> json option) \<Rightarrow> (json \<Rightarrow> bytes) \<Rightarrow> net \<Rightarrow> Dispatcher \<Rightarrow> Request \<Rightarrow> string list \<Rightarrow>
     Result \<Rightarrow> upstream_call list \<Rightarrow> (panic + Result) \<times> upstream_call list" where
  "buffered_chain parse render net d req [] final log = (Inr final, log)"
| "buffered_chain parse render net d req (model # models) final log =
     (case body_for parse render req model of
        Inl p \<Rightarrow> (Inl p, log)
      | Inr None \<Rightarrow>
          buffered_chain parse render net d req models (zero_result\<lparr>rs_Err := Some (RewriteModel model)\<rparr>) log
      | Inr (Some body) \<Rightarrow>
          (case buffered_attempts net d body model (nat (maxAttempts d)) final log of
             (True, result, log') \<Rightarrow> (Inr result, log')
           | (False, final', log') \<Rightarrow> buffered_chain parse render net d req models final' log'))"

definition dispatchBuffered ::
  "(bytes \<Rightarrow> json option) \<Rightarrow> (json \<Rightarrow> bytes) \<Rightarrow> net \<Rightarrow> Dispatcher \<Rightarrow> Request \<Rightarrow>
     (panic + Result) \<times> upstream_call list" where
  "dispatchBuffered parse render net d req =
     buffered_chain parse render net d req (chain d req) zero_result []"

section \<open>Streaming\<close>

text \<open>One streaming call: a response to commit to, or the result to keep for the end.\<close>

definition stream_attempt ::
  "net \<Rightarrow> Dispatcher \<Rightarrow> bytes \<Rightarrow> string \<Rightarrow> upstream_call list \<Rightarrow>
     (upstream_response + Result) \<times> upstream_call list" where
  "stream_attempt net d body model log =
     (let log' = log @ [made_call d body model]
      in case net (length log) (upstream_target d) body of
        BuildError \<Rightarrow> (Inr (err_result BuildUpstream model), log')
      | Unreachable \<Rightarrow> (Inr (err_result UpstreamUnreachable model), log')
      | Got up \<Rightarrow>
          if isRetryableStatus (us_status up)
          then (Inr (zero_result\<lparr>StatusCode := us_status up, rs_Body := concat (us_chunks up), ServedModel := model\<rparr>), log')
          else (Inl up, log'))"

definition commit_result :: "upstream_response \<Rightarrow> string \<Rightarrow> Result" where
  "commit_result up model =
     zero_result\<lparr>StatusCode := us_status up, ServedModel := model, ContentType := us_ctype up, Streaming := True\<rparr>"

fun stream_attempts ::
  "net \<Rightarrow> Dispatcher \<Rightarrow> bytes \<Rightarrow> string \<Rightarrow> nat \<Rightarrow> Result \<Rightarrow> upstream_call list \<Rightarrow>
     (upstream_response + Result) \<times> upstream_call list" where
  "stream_attempts net d body model 0 final log = (Inr final, log)"
| "stream_attempts net d body model (Suc n) final log =
     (case stream_attempt net d body model log of
        (Inl up, log') \<Rightarrow> (Inl up, log')
      | (Inr final', log') \<Rightarrow> stream_attempts net d body model n final' log')"

text \<open>What \<^verbatim>\<open>streamBody\<close> sends on the channel, given what its reads return: empty reads are skipped.\<close>

definition streamBody :: "bytes list \<Rightarrow> bytes list" where
  "streamBody reads = filter (\<lambda>chunk. chunk \<noteq> []) reads"

text \<open>The result sent, the chunks then copied to the channel, and the attempts made.\<close>

fun stream_chain ::
  "(bytes \<Rightarrow> json option) \<Rightarrow> (json \<Rightarrow> bytes) \<Rightarrow> net \<Rightarrow> Dispatcher \<Rightarrow> Request \<Rightarrow> string list \<Rightarrow>
     Result \<Rightarrow> upstream_call list \<Rightarrow> (panic + Result \<times> bytes list) \<times> upstream_call list" where
  "stream_chain parse render net d req [] final log = (Inr (final, []), log)"
| "stream_chain parse render net d req (model # models) final log =
     (case body_for parse render req model of
        Inl p \<Rightarrow> (Inl p, log)
      | Inr None \<Rightarrow>
          stream_chain parse render net d req models (zero_result\<lparr>rs_Err := Some (RewriteModel model)\<rparr>) log
      | Inr (Some body) \<Rightarrow>
          (case stream_attempts net d body model (nat (maxAttempts d)) final log of
             (Inl up, log') \<Rightarrow> (Inr (commit_result up model, streamBody (us_chunks up)), log')
           | (Inr final', log') \<Rightarrow> stream_chain parse render net d req models final' log'))"

definition dispatchStream ::
  "(bytes \<Rightarrow> json option) \<Rightarrow> (json \<Rightarrow> bytes) \<Rightarrow> net \<Rightarrow> Dispatcher \<Rightarrow> Request \<Rightarrow>
     (panic + Result \<times> bytes list) \<times> upstream_call list" where
  "dispatchStream parse render net d req =
     stream_chain parse render net d req (chain d req) zero_result []"

section \<open>The worker loop\<close>

definition dispatch ::
  "(bytes \<Rightarrow> json option) \<Rightarrow> (json \<Rightarrow> bytes) \<Rightarrow> net \<Rightarrow> Dispatcher \<Rightarrow> Request \<Rightarrow>
     (panic + Result \<times> bytes list) \<times> upstream_call list" where
  "dispatch parse render net d req =
     (if rq_Stream req then dispatchStream parse render net d req
      else case dispatchBuffered parse render net d req of
             (Inl p, log) \<Rightarrow> (Inl p, log)
           | (Inr result, log) \<Rightarrow> (Inr (result, []), log))"

text \<open>
  One goroutine of the pool: \<open>popped\<close> is what its calls of \<^verbatim>\<open>Pop\<close> return, \<open>nets i\<close> the
  upstream during its \<open>i\<close>-th dispatch. It ends when the context is cancelled; a panic
  ends the process.
\<close>

fun workerLoop ::
  "(bytes \<Rightarrow> json option) \<Rightarrow> (json \<Rightarrow> bytes) \<Rightarrow> (nat \<Rightarrow> net) \<Rightarrow> Dispatcher \<Rightarrow> nat \<Rightarrow> Request option list \<Rightarrow>
     (Request \<times> (panic + Result \<times> bytes list)) list" where
  "workerLoop parse render nets d i [] = []"
| "workerLoop parse render nets d i (None # popped) = []"
| "workerLoop parse render nets d i (Some req # popped) =
     (case fst (dispatch parse render (nets i) d req) of
        Inl p \<Rightarrow> [(req, Inl p)]
      | Inr out \<Rightarrow> (req, Inr out) # workerLoop parse render nets d (Suc i) popped)"

text \<open>The pool: each of its goroutines has its own sequence of pops.\<close>

definition dispatcher_Run ::
  "(bytes \<Rightarrow> json option) \<Rightarrow> (json \<Rightarrow> bytes) \<Rightarrow> (nat \<Rightarrow> nat \<Rightarrow> net) \<Rightarrow> Dispatcher \<Rightarrow> (nat \<Rightarrow> Request option list) \<Rightarrow>
     (Request \<times> (panic + Result \<times> bytes list)) list list" where
  "dispatcher_Run parse render nets d popped =
     map (\<lambda>k. workerLoop parse render (nets k) d 0 (popped k)) [0..<nat (concurrency d)]"

end
