(* ===== verification/Go_Strings.thy ===== *)
theory Go_Strings
  imports Float64
begin

text \<open>
  What the sources use of \<^verbatim>\<open>strings\<close>, \<^verbatim>\<open>strconv\<close> and the printing of durations: splitting,
  prefixes, decimal numbers. Splitting undoes joining, and parsing undoes printing.
\<close>

section \<open>Numbers\<close>

definition digit :: "nat \<Rightarrow> char" where
  "digit n = char_of (48 + n)"

definition is_digit :: "char \<Rightarrow> bool" where
  "is_digit c \<longleftrightarrow> 48 \<le> (of_char c :: nat) \<and> (of_char c :: nat) \<le> 57"

definition digit_val :: "char \<Rightarrow> nat" where
  "digit_val c = of_char c - 48"

fun nat_digits :: "nat \<Rightarrow> string" where
  "nat_digits n = (if n < 10 then [digit n] else nat_digits (n div 10) @ [digit (n mod 10)])"

declare nat_digits.simps [simp del]

definition Itoa :: "int \<Rightarrow> string" where
  "Itoa i = (if i < 0 then CHR ''-'' # nat_digits (nat (- i)) else nat_digits (nat i))"

text \<open>
  \<^verbatim>\<open>Atoi\<close> returns a value also when it fails: 0 for a syntax error, the nearest integer
  for one out of range. An overflow is noticed before the rest of the text is looked at.
\<close>

datatype num_error = ErrSyntax | ErrRange

fun parse_uint :: "string \<Rightarrow> nat \<Rightarrow> nat \<times> num_error option" where
  "parse_uint [] n = (n, None)"
| "parse_uint (c # cs) n =
     (if \<not> is_digit c then (0, Some ErrSyntax)
      else if 2 ^ 64 \<le> n * 10 \<or> 2 ^ 64 \<le> n * 10 + digit_val c then (2 ^ 64 - 1, Some ErrRange)
      else parse_uint cs (n * 10 + digit_val c))"

definition Atoi :: "string \<Rightarrow> int \<times> num_error option" where
  "Atoi s =
     (let neg = (s \<noteq> [] \<and> hd s = CHR ''-'');
          digits = (if s \<noteq> [] \<and> (hd s = CHR ''-'' \<or> hd s = CHR ''+'') then tl s else s)
      in if digits = [] then (0, Some ErrSyntax)
         else case parse_uint digits 0 of
           (_, Some ErrSyntax) \<Rightarrow> (0, Some ErrSyntax)
         | (un, _) \<Rightarrow>
             if \<not> neg \<and> 2 ^ 63 \<le> un then (2 ^ 63 - 1, Some ErrRange)
             else if neg \<and> 2 ^ 63 < un then (- (2 ^ 63), Some ErrRange)
             else (if neg then - int un else int un, None))"

section \<open>Splitting\<close>

fun split_on :: "char \<Rightarrow> string \<Rightarrow> string list" where
  "split_on c [] = [[]]"
| "split_on c (x # xs) =
     (if x = c then [] # split_on c xs
      else (case split_on c xs of [] \<Rightarrow> [[x]] | w # ws \<Rightarrow> (x # w) # ws))"

text \<open>\<^verbatim>\<open>SplitN(s, c, 2)\<close>: the two parts, or nothing if the separator does not occur.\<close>

definition split2 :: "char \<Rightarrow> string \<Rightarrow> (string \<times> string) option" where
  "split2 c s = (if c \<in> set s then Some (takeWhile (\<lambda>x. x \<noteq> c) s, tl (dropWhile (\<lambda>x. x \<noteq> c) s)) else None)"

fun join_with :: "char \<Rightarrow> string list \<Rightarrow> string" where
  "join_with c [] = []"
| "join_with c [w] = w"
| "join_with c (w # ws) = w @ c # join_with c ws"

definition HasPrefix :: "string \<Rightarrow> string \<Rightarrow> bool" where
  "HasPrefix s p \<longleftrightarrow> take (length p) s = p"

definition TrimPrefix :: "string \<Rightarrow> string \<Rightarrow> string" where
  "TrimPrefix s p = (if HasPrefix s p then drop (length p) s else s)"

section \<open>Durations\<close>

definition Milliseconds :: "duration \<Rightarrow> int" where
  "Milliseconds d = d sdiv Millisecond"

definition pad_digits :: "nat \<Rightarrow> nat \<Rightarrow> string" where
  "pad_digits prec v = replicate (prec - length (nat_digits v)) (CHR ''0'') @ nat_digits v"

text \<open>The fraction \<open>v / 10 ^ prec\<close> without trailing zeros, with its point, or nothing.\<close>

definition fmt_frac :: "nat \<Rightarrow> nat \<Rightarrow> string" where
  "fmt_frac v prec =
     (let ds = rev (dropWhile (\<lambda>c. c = CHR ''0'') (rev (pad_digits prec (v mod 10 ^ prec))))
      in if v mod 10 ^ prec = 0 then [] else CHR ''.'' # ds)"

definition duration_String :: "duration \<Rightarrow> string" where
  "duration_String d =
     (let u = nat \<bar>d\<bar>;
          small = (\<lambda>prec unit. nat_digits (u div 10 ^ prec) @ fmt_frac u prec @ unit);
          secs = u div 10 ^ 9;
          s = nat_digits (secs mod 60) @ fmt_frac u 9 @ ''s'';
          m = secs div 60;
          body =
            (if u = 0 then ''0s''
             else if u < 1000 then small 0 ''ns''
             else if u < 10 ^ 6 then small 3 [CHR 0xC2, CHR 0xB5, CHR ''s'']
             else if u < 10 ^ 9 then small 6 ''ms''
             else if m = 0 then s
             else if m div 60 = 0 then nat_digits m @ ''m'' @ s
             else nat_digits (m div 60) @ ''h'' @ nat_digits (m mod 60) @ ''m'' @ s)
      in if d < 0 then CHR ''-'' # body else body)"

section \<open>Laws\<close>

lemma of_char_digit: "n < 10 \<Longrightarrow> (of_char (digit n) :: nat) = 48 + n"
  by (simp add: digit_def)

lemma digit_is_digit: "n < 10 \<Longrightarrow> is_digit (digit n) \<and> digit_val (digit n) = n"
  by (simp add: is_digit_def digit_val_def of_char_digit)

lemma nat_digits_all: "\<forall>c \<in> set (nat_digits n). is_digit c" "nat_digits n \<noteq> []"
proof (induction n rule: nat_digits.induct)
  case (1 n)
  show "\<forall>c \<in> set (nat_digits n). is_digit c" "nat_digits n \<noteq> []"
    using 1 by (subst nat_digits.simps, simp add: digit_is_digit)+
qed

definition digits_val :: "string \<Rightarrow> nat \<Rightarrow> nat" where
  "digits_val s n = fold (\<lambda>c m. m * 10 + digit_val c) s n"

lemma digits_val_nat_digits: "digits_val (nat_digits n) 0 = n"
proof (induction n rule: nat_digits.induct)
  case (1 n)
  then show ?case
    by (subst nat_digits.simps) (auto simp: digits_val_def digit_is_digit)
qed

lemma digits_val_ge: "n \<le> digits_val s n"
proof (induction s arbitrary: n)
  case (Cons c s)
  have "n * 10 + digit_val c \<le> digits_val s (n * 10 + digit_val c)" by (rule Cons.IH)
  then show ?case by (simp add: digits_val_def)
qed (simp add: digits_val_def)

lemma parse_uint_digits:
  assumes "\<forall>c \<in> set s. is_digit c" and "digits_val s n < 2 ^ 64"
  shows "parse_uint s n = (digits_val s n, None)"
  using assms
proof (induction s arbitrary: n)
  case (Cons c s)
  have eq: "digits_val (c # s) n = digits_val s (n * 10 + digit_val c)" by (simp add: digits_val_def)
  then have "n * 10 + digit_val c < 2 ^ 64"
    using Cons.prems(2) digits_val_ge [of "n * 10 + digit_val c" s] by simp
  then show ?case using Cons eq by simp
qed (simp add: digits_val_def)

lemma Atoi_Itoa:
  assumes "- (2 ^ 63) \<le> i" and "i < 2 ^ 63"
  shows "Atoi (Itoa i) = (i, None)"
proof -
  have p: "parse_uint (nat_digits n) 0 = (n, None)" if "n < 2 ^ 64" for n
    using parse_uint_digits [OF nat_digits_all(1), of n 0] that by (simp add: digits_val_nat_digits)
  have nosign: "hd (nat_digits n) \<noteq> CHR ''-'' \<and> hd (nat_digits n) \<noteq> CHR ''+''" for n
  proof -
    have "is_digit (hd (nat_digits n))" using nat_digits_all [of n] by simp
    moreover have "\<not> is_digit CHR ''-''" "\<not> is_digit CHR ''+''" by (simp_all add: is_digit_def)
    ultimately show ?thesis by metis
  qed
  show ?thesis
    using assms nosign [of "nat i"] nat_digits_all(2) p [of "nat i"] p [of "nat (- i)"]
    by (auto simp: Itoa_def Atoi_def Let_def)
qed

lemma split_on_no_sep: "c \<notin> set w \<Longrightarrow> split_on c w = [w]"
  by (induction w) auto

lemma split_on_append: "c \<notin> set w \<Longrightarrow> split_on c (w @ c # s) = w # split_on c s"
  by (induction w) auto

lemma split_join:
  assumes "ws \<noteq> []" and "\<forall>w \<in> set ws. c \<notin> set w"
  shows "split_on c (join_with c ws) = ws"
  using assms by (induction c ws rule: join_with.induct) (auto simp: split_on_no_sep split_on_append)

lemma split2_append: "c \<notin> set k \<Longrightarrow> split2 c (k @ c # v) = Some (k, v)"
proof -
  assume k: "c \<notin> set k"
  then have "takeWhile (\<lambda>x. x \<noteq> c) (k @ c # v) = k" "dropWhile (\<lambda>x. x \<noteq> c) (k @ c # v) = c # v"
    by (induction k) auto
  then show ?thesis by (simp add: split2_def)
qed

lemma join_with_set: "set (join_with c ws) \<subseteq> insert c (\<Union> (set ` set ws))"
  by (induction c ws rule: join_with.induct) auto

lemma TrimPrefix_append: "HasPrefix (p @ s) p" "TrimPrefix (p @ s) p = s"
  by (simp_all add: HasPrefix_def TrimPrefix_def)

lemma HasPrefix_iff: "HasPrefix s p \<longleftrightarrow> (\<exists>t. s = p @ t)"
  by (metis HasPrefix_def TrimPrefix_append(1) append_take_drop_id)

end
