(* ===== verification/Gateway.thy ===== *)
theory Gateway
  imports Slo Dispatcher Go_Strings
begin

text \<open>
  The gateway (\<^verbatim>\<open>request-plane/gateway/gateway.go\<close>): authentication, rate limit, parsing,
  wait estimate, backpressure, enqueueing, and the wait for a result.

  The handler has two phases. \<open>admit\<close> runs up to the push; \<open>finish\<close> is the \<^verbatim>\<open>select\<close> on the
  result channel and the timer. Between them other goroutines run: what they do to the
  gateway's shared state is the argument \<open>others\<close> of the whole handler, and what the
  \<^verbatim>\<open>select\<close> sees is its argument \<open>outcome\<close>. The estimator shares the gateway's tracker, as
  \<^verbatim>\<open>main\<close> wires it. The deferred metrics hook runs at every return and at a panic.
\<close>

section \<open>State and options\<close>

record Gateway =
  g_queue :: Queue
  waitTimeout :: duration
  idCounter :: "64 word"
  g_tracker :: "LatencyTracker option"
  g_estimator :: "int option"
  g_policy :: "Policy option"
  g_keyStore :: "KeyStore option"
  g_rateLimiter :: "RateLimiter option"
  g_hasHook :: bool
  g_hookCalls :: "(string \<times> bool) list"

definition WithSLO :: "LatencyTracker \<Rightarrow> int \<Rightarrow> Gateway \<Rightarrow> Gateway" where
  "WithSLO tracker estimator g = g\<lparr>g_tracker := Some tracker, g_estimator := Some estimator\<rparr>"

definition WithBackpressure :: "Policy \<Rightarrow> Gateway \<Rightarrow> Gateway" where
  "WithBackpressure policy g = g\<lparr>g_policy := Some policy\<rparr>"

definition WithAuth :: "KeyStore \<Rightarrow> RateLimiter \<Rightarrow> Gateway \<Rightarrow> Gateway" where
  "WithAuth keyStore rateLimiter g = g\<lparr>g_keyStore := Some keyStore, g_rateLimiter := Some rateLimiter\<rparr>"

definition WithRequestHook :: "Gateway \<Rightarrow> Gateway" where
  "WithRequestHook g = g\<lparr>g_hasHook := True\<rparr>"

definition Gateway_New :: "Queue \<Rightarrow> duration \<Rightarrow> (Gateway \<Rightarrow> Gateway) list \<Rightarrow> Gateway" where
  "Gateway_New q timeout opts =
     fold (\<lambda>opt g. opt g) opts
       \<lparr>g_queue = q, waitTimeout = timeout, idCounter = 0, g_tracker = None, g_estimator = None,
        g_policy = None, g_keyStore = None, g_rateLimiter = None, g_hasHook = False, g_hookCalls = []\<rparr>"

definition gateway_hook :: "string \<Rightarrow> bool \<Rightarrow> Gateway \<Rightarrow> Gateway" where
  "gateway_hook model success g =
     (if g_hasHook g then g\<lparr>g_hookCalls := g_hookCalls g @ [(model, success)]\<rparr> else g)"

section \<open>Reading the request\<close>

definition parsePriority :: "http_request \<Rightarrow> Priority" where
  "parsePriority r =
     (let v = header_get (Header r) ''X-Priority''
      in if v = ''high'' then PriorityHigh else if v = ''low'' then PriorityLow else PriorityNormal)"

definition extractAPIKey :: "http_request \<Rightarrow> string option" where
  "extractAPIKey r =
     (let header = header_get (Header r) ''Authorization''
      in if \<not> HasPrefix header ''Bearer '' then None
         else let key = TrimPrefix header ''Bearer ''
              in if key = '''' then None else Some key)"

text \<open>Decoding the body into a struct with a model and a stream flag.\<close>

definition unmarshal_payload :: "json \<Rightarrow> (string \<times> bool) option" where
  "unmarshal_payload j =
     Option.bind (unmarshal_string_field ''model'' j)
       (\<lambda>model. map_option (Pair model) (unmarshal_bool_field ''stream'' j))"

section \<open>Admission\<close>

datatype admission =
    Rejected response string
  | Enqueued Request response

text \<open>Authentication and rate limit: a response that ends the request, or the key's id.\<close>

definition authenticate :: "time \<Rightarrow> Gateway \<Rightarrow> http_request \<Rightarrow> response \<Rightarrow> (response + string) \<times> Gateway" where
  "authenticate now g r w =
     (case g_keyStore g of
        None \<Rightarrow> (Inr '''', g)
      | Some ks \<Rightarrow>
          (case extractAPIKey r of
             None \<Rightarrow> (Inl (http_Error ''missing API key'' 401 w), g)
           | Some apiKey \<Rightarrow>
               (case Lookup ks apiKey of
                  None \<Rightarrow> (Inl (http_Error ''invalid API key'' 401 w), g)
                | Some info \<Rightarrow>
                    (case g_rateLimiter g of
                       None \<Rightarrow> (Inr (ki_KeyID info), g)
                     | Some rl \<Rightarrow>
                         (let (ok, rl') = Allow rl (ki_KeyID info) (RequestsPerMin info) now;
                              g' = g\<lparr>g_rateLimiter := Some rl'\<rparr>
                          in if ok then (Inr (ki_KeyID info), g')
                             else (Inl (http_Error ''rate limit exceeded'' 429 (set_header ''Retry-After'' ''1'' w)), g'))))))"

definition estimate_wait :: "Gateway \<Rightarrow> string \<Rightarrow> Priority \<Rightarrow> duration option" where
  "estimate_wait g model priority =
     (case (g_estimator g, g_tracker g) of
        (Some conc, Some t) \<Rightarrow> Some (Estimate t conc model (int (AheadOf (g_queue g) priority)))
      | _ \<Rightarrow> None)"

definition backpressure_rejects :: "Gateway \<Rightarrow> Priority \<Rightarrow> duration option \<Rightarrow> bool" where
  "backpressure_rejects g priority est =
     (case (g_policy g, est) of (Some p, Some e) \<Rightarrow> \<not> Admit p priority e | _ \<Rightarrow> False)"

definition rejected_wait :: "Priority \<Rightarrow> duration \<Rightarrow> response \<Rightarrow> response" where
  "rejected_wait priority e w =
     http_Error (''request rejected: estimated wait '' @ duration_String e @ '' exceeds SLO for '' @
                 Priority_String priority @ '' priority'') 503
       (set_header ''Retry-After'' (Itoa (f64_trunc (duration_seconds e) + 1))
         (set_header ''X-Estimated-Wait-Ms'' (Itoa (Milliseconds e)) w))"

definition new_request :: "Gateway \<Rightarrow> bytes \<Rightarrow> string \<Rightarrow> Priority \<Rightarrow> bool \<Rightarrow> string \<Rightarrow> time \<Rightarrow> Request" where
  "new_request g body model priority stream keyID now =
     \<lparr>rq_ID = ''req-'' @ nat_digits (unat (idCounter g + 1)), rq_Body = body, rq_Model = model,
      rq_Priority = priority, rq_EnqueuedAt = now, rq_KeyID = keyID, rq_Stream = stream\<rparr>"

definition estimate_header :: "duration option \<Rightarrow> response \<Rightarrow> response" where
  "estimate_header est w =
     (case est of None \<Rightarrow> w | Some e \<Rightarrow> set_header ''X-Estimated-Wait-Ms'' (Itoa (Milliseconds e)) w)"

definition enqueue ::
  "time \<Rightarrow> Gateway \<Rightarrow> http_request \<Rightarrow> bytes \<Rightarrow> string \<Rightarrow> bool \<Rightarrow> string \<Rightarrow> response \<Rightarrow> admission \<times> Gateway" where
  "enqueue now g r body model stream keyID w =
     (let priority = parsePriority r;
          est = estimate_wait g model priority
      in if backpressure_rejects g priority est
         then (Rejected (rejected_wait priority (the est) w) model, g)
         else
           (let req = new_request g body model priority stream keyID now;
                (ok, q') = TryPush (g_queue g) req;
                g' = g\<lparr>idCounter := idCounter g + 1, g_queue := q'\<rparr>
            in if \<not> ok then (Rejected (http_Error ''request queue full, try again later'' 503 w) model, g')
               else (Enqueued req (estimate_header est w), g')))"

text \<open>\<open>t1\<close> is when the rate limiter reads the clock, \<open>t2\<close> when the request is built.\<close>

definition admit ::
  "(bytes \<Rightarrow> json option) \<Rightarrow> time \<Rightarrow> time \<Rightarrow> Gateway \<Rightarrow> http_request \<Rightarrow> admission \<times> Gateway" where
  "admit parse t1 t2 g r =
     (let w = new_response
      in if Method r \<noteq> ''POST'' then (Rejected (http_Error ''method not allowed'' 405 w) '''', g)
         else
           case authenticate t1 g r w of
             (Inl w', g') \<Rightarrow> (Rejected w' '''', g')
           | (Inr keyID, g') \<Rightarrow>
               (case Body r of
                  None \<Rightarrow> (Rejected (http_Error ''failed to read request body'' 400 w) '''', g')
                | Some body \<Rightarrow>
                    (case Option.bind (parse body) unmarshal_payload of
                       None \<Rightarrow> (Rejected (http_Error ''request body must contain a valid 'model' field'' 400 w) '''', g')
                     | Some (model, stream) \<Rightarrow>
                         if model = ''''
                         then (Rejected (http_Error ''request body must contain a valid 'model' field'' 400 w) '''', g')
                         else enqueue t2 g' r body model stream keyID w)))"

section \<open>Waiting for the result\<close>

datatype wait_outcome =
    ResultIn Result time "bytes list"
  | TimedOut

record gateway_result =
  gr_panic :: "panic option"
  gr_gateway :: Gateway
  gr_response :: response

definition record_wait :: "Gateway \<Rightarrow> Request \<Rightarrow> time \<Rightarrow> response \<Rightarrow> Gateway \<times> response" where
  "record_wait g req now w =
     (case g_tracker g of
        None \<Rightarrow> (g, w)
      | Some t \<Rightarrow>
          (let actualWait = time_sub now (rq_EnqueuedAt req)
           in (g\<lparr>g_tracker := Some (tracker_Record t (rq_Model req) actualWait)\<rparr>,
               set_header ''X-Actual-Wait-Ms'' (Itoa (Milliseconds actualWait)) w)))"

definition served_header :: "Result \<Rightarrow> response \<Rightarrow> response" where
  "served_header result w =
     (if ServedModel result \<noteq> '''' then set_header ''X-Served-Model'' (ServedModel result) w else w)"

definition streamResponse :: "response \<Rightarrow> Result \<Rightarrow> bytes list \<Rightarrow> panic + response" where
  "streamResponse w result chunks =
     (let contentType = (if ContentType result = '''' then ''text/event-stream'' else ContentType result);
          w' = set_header ''Cache-Control'' ''no-cache'' (set_header ''Content-Type'' contentType (served_header result w))
      in case WriteHeader (StatusCode result) w' of
           Inl p \<Rightarrow> Inl p
         | Inr w'' \<Rightarrow> Inr (fold write_body chunks w''))"

definition bufferedResponse :: "response \<Rightarrow> Result \<Rightarrow> panic + response" where
  "bufferedResponse w result =
     (case WriteHeader (StatusCode result) (set_header ''Content-Type'' ''application/json'' (served_header result w)) of
        Inl p \<Rightarrow> Inl p
      | Inr w' \<Rightarrow> Inr (write_body (rs_Body result) w'))"

definition is_success :: "Result \<Rightarrow> bool" where
  "is_success result \<longleftrightarrow> 200 \<le> StatusCode result \<and> StatusCode result < 300"

definition finish ::
  "(dispatch_error \<Rightarrow> string) \<Rightarrow> wait_outcome \<Rightarrow> Gateway \<Rightarrow> Request \<Rightarrow> response \<Rightarrow> gateway_result" where
  "finish err_text outcome g req w =
     (case outcome of
        TimedOut \<Rightarrow>
          \<lparr>gr_panic = None, gr_gateway = gateway_hook (rq_Model req) False g,
           gr_response = http_Error ''request timed out waiting for dispatch'' 504 w\<rparr>
      | ResultIn result now chunks \<Rightarrow>
          (let (g', w') = record_wait g req now w
           in case rs_Err result of
                Some e \<Rightarrow>
                  \<lparr>gr_panic = None, gr_gateway = gateway_hook (rq_Model req) False g',
                   gr_response = http_Error (err_text e) 502 w'\<rparr>
              | None \<Rightarrow>
                  (case (if Streaming result then streamResponse w' result chunks else bufferedResponse w' result) of
                     Inl p \<Rightarrow>
                       \<lparr>gr_panic = Some p, gr_gateway = gateway_hook (rq_Model req) (is_success result) g', gr_response = w'\<rparr>
                   | Inr w'' \<Rightarrow>
                       \<lparr>gr_panic = None, gr_gateway = gateway_hook (rq_Model req) (is_success result) g',
                        gr_response = w''\<rparr>)))"

section \<open>The handlers\<close>

definition gateway_handleInference ::
  "(bytes \<Rightarrow> json option) \<Rightarrow> (dispatch_error \<Rightarrow> string) \<Rightarrow> time \<Rightarrow> time \<Rightarrow> (Gateway \<Rightarrow> Gateway) \<Rightarrow>
     (Request \<Rightarrow> wait_outcome) \<Rightarrow> Gateway \<Rightarrow> http_request \<Rightarrow> gateway_result" where
  "gateway_handleInference parse err_text t1 t2 others outcome g r =
     (case admit parse t1 t2 g r of
        (Rejected w model, g') \<Rightarrow>
          \<lparr>gr_panic = None, gr_gateway = gateway_hook model False g', gr_response = w\<rparr>
      | (Enqueued req w, g') \<Rightarrow> finish err_text (outcome req) (others g') req w)"

definition gateway_ServeHTTP ::
  "(bytes \<Rightarrow> json option) \<Rightarrow> (dispatch_error \<Rightarrow> string) \<Rightarrow> time \<Rightarrow> time \<Rightarrow> (Gateway \<Rightarrow> Gateway) \<Rightarrow>
     (Request \<Rightarrow> wait_outcome) \<Rightarrow> Gateway \<Rightarrow> http_request \<Rightarrow> gateway_result" where
  "gateway_ServeHTTP parse err_text t1 t2 others outcome g r =
     (if Path r = ''/v1/chat/completions'' \<or> Path r = ''/v1/completions''
      then gateway_handleInference parse err_text t1 t2 others outcome g r
      else if Path r = ''/healthz''
      then \<lparr>gr_panic = None, gr_gateway = g, gr_response = write_body ''ok'' (commit_status 200 new_response)\<rparr>
      else \<lparr>gr_panic = None, gr_gateway = g, gr_response = http_Error ''not found'' 404 new_response\<rparr>)"

end
