(* ===== verification/Queue_Steps.thy ===== *)
theory Queue_Steps
  imports Request_Queue
begin

text \<open>
  The queue as a whole. First as an abstract data type: what waits is one list, sorted by
  priority and by arrival within a priority, and the operations refine insertion into
  and removal from that list. Then with many goroutines: every receive of
  \<^verbatim>\<open>Pop\<close> is a step of its own, so that pushes and other calls run between them.
\<close>

section \<open>The abstract queue\<close>

definition queue_wf :: "nat \<Rightarrow> Queue \<Rightarrow> bool" where
  "queue_wf c q \<longleftrightarrow>
     dom (lanes q) = set popOrder \<and>
     (\<forall>p \<in> set popOrder. lane_bound q p = c \<and> length (lane_content q p) \<le> c \<and>
        (\<forall>r \<in> set (lane_content q p). rq_Priority r = p))"

definition waiting :: "Queue \<Rightarrow> Request list" where
  "waiting q = lane_content q PriorityHigh @ lane_content q PriorityNormal @ lane_content q PriorityLow"

definition rank :: "Request \<Rightarrow> nat" where
  "rank r = (if rq_Priority r = PriorityHigh then 0 else if rq_Priority r = PriorityNormal then 1 else 2)"

text \<open>Insertion behind everything that is at least as urgent.\<close>

definition insert_by_rank :: "Request \<Rightarrow> Request list \<Rightarrow> Request list" where
  "insert_by_rank r ws = filter (\<lambda>x. rank x \<le> rank r) ws @ r # filter (\<lambda>x. rank r < rank x) ws"

text \<open>The requests that \<open>n\<close> calls of \<open>tryPopHighestPriority\<close> in a row return.\<close>

fun pops :: "nat \<Rightarrow> Queue \<Rightarrow> Request list" where
  "pops 0 q = []"
| "pops (Suc n) q = (case tryPopHighestPriority q of None \<Rightarrow> [] | Some (r, q') \<Rightarrow> r # pops n q')"

lemma waiting_backlog: "waiting q = pq.backlog q"
  unfolding pq.backlog_def waiting_def by (simp add: popOrder_def)

lemma pops_waiting: "pops n q = take n (waiting q)"
proof -
  have "pops n q = pq.drain n q" by (induction n arbitrary: q) (auto split: option.splits)
  then show ?thesis by (simp add: pq.drain_backlog waiting_backlog)
qed

lemma set_popOrder: "set popOrder = {PriorityHigh, PriorityNormal, PriorityLow}"
  by (simp add: popOrder_def)

lemma queue_wf_content:
  assumes "queue_wf c q" and "p \<in> set popOrder"
  shows "lane_bound q p = c" "length (lane_content q p) \<le> c" "\<forall>r \<in> set (lane_content q p). rq_Priority r = p"
  using assms by (auto simp: queue_wf_def)

lemma queue_wf_New: "Queue_New (int c) = Inr q \<Longrightarrow> queue_wf c q \<and> waiting q = []"
  by (auto simp: Queue_New_def queue_wf_def waiting_def lane_content_def lane_bound_def popOrder_def Let_def split: if_splits)

lemma waiting_filter:
  assumes "queue_wf c q" and "p \<in> set popOrder"
  shows "filter (\<lambda>r. rq_Priority r = p) (waiting q) = lane_content q p"
proof -
  have same: "filter (\<lambda>r. rq_Priority r = p) (lane_content q x) = (if x = p then lane_content q x else [])"
    if "x \<in> set popOrder" for x
    using queue_wf_content(3) [OF assms(1) that] by (auto simp: filter_id_conv filter_empty_conv)
  then show ?thesis using assms(2) by (auto simp: waiting_def set_popOrder same)
qed

lemma waiting_rank:
  assumes "queue_wf c q" and "p \<in> set popOrder" and "r \<in> set (lane_content q p)"
  shows "rank r = (if p = PriorityHigh then 0 else if p = PriorityNormal then 1 else 2)"
  using queue_wf_content(3) [OF assms(1,2)] assms(3) by (simp add: rank_def)

lemma TryPush_no_lane: "lanes q (rq_Priority r) = None \<Longrightarrow> TryPush q r = (False, q)"
  by (simp add: TryPush_def)

lemma TryPush_dom: "dom (lanes (snd (TryPush q r))) = dom (lanes q)"
  by (auto simp: TryPush_def split: option.splits if_splits)

lemma TryPush_rejects: "\<not> fst (TryPush q r) \<Longrightarrow> snd (TryPush q r) = q"
  by (auto simp: TryPush_def split: option.splits if_splits)

lemma TryPush_wf:
  assumes "queue_wf c q"
  shows "queue_wf c (snd (TryPush q r))"
proof -
  have "lane_bound (snd (TryPush q r)) p = c \<and>
      length (lane_content (snd (TryPush q r)) p) \<le> lane_bound (snd (TryPush q r)) p \<and>
      (\<forall>x \<in> set (lane_content (snd (TryPush q r)) p). rq_Priority x = p)" if "p \<in> set popOrder" for p
    using queue_wf_content [OF assms that] pq.bounded_push [of q p r]
    by (auto simp: pq.push_content pq.push_bound split: if_splits)
  moreover have "dom (lanes (snd (TryPush q r))) = set popOrder"
    using assms by (simp add: queue_wf_def TryPush_dom)
  ultimately show ?thesis unfolding queue_wf_def by auto
qed

lemma TryPush_accept_iff:
  assumes "queue_wf c q"
  shows "fst (TryPush q r) \<longleftrightarrow>
    rq_Priority r \<in> set popOrder \<and> length (lane_content q (rq_Priority r)) < c"
proof (cases "rq_Priority r \<in> set popOrder")
  case True
  then show ?thesis using queue_wf_content(1) [OF assms] by (simp add: pq.push_accepts)
next
  case False
  then have "lanes q (rq_Priority r) = None" using assms by (auto simp: queue_wf_def)
  then show ?thesis using False by (simp add: TryPush_no_lane)
qed

lemma TryPush_insert:
  assumes "queue_wf c q" and "fst (TryPush q r)"
  shows "waiting (snd (TryPush q r)) = insert_by_rank r (waiting q)"
proof -
  have p: "rq_Priority r \<in> set popOrder" using assms TryPush_accept_iff by blast
  have rk: "\<And>x. x \<in> set (lane_content q PriorityHigh) \<Longrightarrow> rank x = 0"
    "\<And>x. x \<in> set (lane_content q PriorityNormal) \<Longrightarrow> rank x = 1"
    "\<And>x. x \<in> set (lane_content q PriorityLow) \<Longrightarrow> rank x = 2"
    using waiting_rank [OF assms(1), of PriorityHigh] waiting_rank [OF assms(1), of PriorityNormal]
      waiting_rank [OF assms(1), of PriorityLow] by (simp_all add: set_popOrder)
  have f: "filter P xs = (if Q then xs else [])" if "\<And>x. x \<in> set xs \<Longrightarrow> P x \<longleftrightarrow> Q"
    for P :: "Request \<Rightarrow> bool" and xs Q
    using that by (auto simp: filter_id_conv filter_empty_conv)
  have le: "filter (\<lambda>x. rank x \<le> n) (waiting q) =
      lane_content q PriorityHigh @ (if 1 \<le> n then lane_content q PriorityNormal else []) @
      (if 2 \<le> n then lane_content q PriorityLow else [])" for n
    unfolding waiting_def filter_append
    by (subst f [where Q = True], simp add: rk, subst f [where Q = "1 \<le> n"], simp add: rk,
        subst f [where Q = "2 \<le> n"], simp add: rk, simp)
  have gt: "filter (\<lambda>x. n < rank x) (waiting q) =
      (if 1 \<le> n then [] else lane_content q PriorityNormal) @
      (if 2 \<le> n then [] else lane_content q PriorityLow)" for n
    unfolding waiting_def filter_append
    by (subst f [where Q = False], simp add: rk, subst f [where Q = "\<not> 1 \<le> n"], simp add: rk not_le,
        subst f [where Q = "\<not> 2 \<le> n"], simp add: rk not_le, simp)
  show ?thesis
    using p assms(2) unfolding insert_by_rank_def le gt
    by (auto simp: waiting_def pq.push_content rank_def set_popOrder)
qed

lemma tryPop_wf:
  assumes "queue_wf c q" and "try_recv q p = Some (r, q')" and "p \<in> set popOrder"
  shows "queue_wf c q'" "rq_Priority r = p" "lane_content q p = r # lane_content q' p"
    "x \<noteq> p \<Longrightarrow> lane_content q' x = lane_content q x"
proof -
  obtain rs where rs: "lane_content q p = r # rs" "lane_content q' = (lane_content q)(p := rs)"
    "lane_bound q' = lane_bound q" "dom (lanes q') = dom (lanes q)"
    using try_recv_Some [OF assms(2)] by blast
  show "queue_wf c q'" using assms(1,3) rs by (auto simp: queue_wf_def split: if_splits)
  show "rq_Priority r = p" using queue_wf_content(3) [OF assms(1,3)] rs by simp
  show "lane_content q p = r # lane_content q' p" "x \<noteq> p \<Longrightarrow> lane_content q' x = lane_content q x"
    using rs by simp_all
qed

lemma tryPop_waiting:
  "tryPopHighestPriority q = None \<longleftrightarrow> waiting q = []"
  "tryPopHighestPriority q = Some (r, q') \<Longrightarrow> waiting q = r # waiting q'"
  using pq.pop_iff_backlog pq.pop_backlog by (simp_all add: waiting_backlog)

lemma AheadOf_eq:
  "AheadOf q PriorityHigh = length (lane_content q PriorityHigh)"
  "AheadOf q PriorityNormal = length (lane_content q PriorityHigh) + length (lane_content q PriorityNormal)"
  "p \<noteq> PriorityHigh \<Longrightarrow> p \<noteq> PriorityNormal \<Longrightarrow> AheadOf q p = length (waiting q)"
  by (simp_all add: AheadOf_def popOrder_def LenByPriority_content waiting_def Let_def)

lemma AheadOf_rank:
  assumes "queue_wf c q" and "rq_Priority r \<in> set popOrder"
  shows "AheadOf q (rq_Priority r) = length (filter (\<lambda>x. rank x \<le> rank r) (waiting q))"
proof -
  have f: "filter (\<lambda>x. rank x \<le> rank r) (lane_content q p) =
      (if (if p = PriorityHigh then 0 else if p = PriorityNormal then 1 else 2) \<le> rank r then lane_content q p else [])"
    if "p \<in> set popOrder" for p
    using waiting_rank [OF assms(1) that] by (auto simp: filter_id_conv filter_empty_conv)
  have "filter (\<lambda>x. rank x \<le> rank r) (waiting q) =
      lane_content q PriorityHigh @ (if 1 \<le> rank r then lane_content q PriorityNormal else []) @
      (if 2 \<le> rank r then lane_content q PriorityLow else [])"
    unfolding waiting_def filter_append
    using f [of PriorityHigh] f [of PriorityNormal] f [of PriorityLow] by (simp add: set_popOrder)
  then have len: "length (filter (\<lambda>x. rank x \<le> rank r) (waiting q)) =
      length (lane_content q PriorityHigh) + (if 1 \<le> rank r then length (lane_content q PriorityNormal) else 0) +
      (if 2 \<le> rank r then length (lane_content q PriorityLow) else 0)" by simp
  from assms(2) consider "rq_Priority r = PriorityHigh" | "rq_Priority r = PriorityNormal" | "rq_Priority r = PriorityLow"
    unfolding set_popOrder by blast
  then show ?thesis unfolding len by cases (simp_all add: AheadOf_eq rank_def waiting_def)
qed

lemma Queue_Len_eq:
  assumes "queue_wf c q" and "range_order (lanes q) ks"
  shows "Queue_Len q ks = length (waiting q)" "Queue_Cap q ks = 3 * c"
proof -
  have fold_sum: "fold (\<lambda>l n. n + f l) ls m = m + sum_list (map f ls)" for f :: "lane \<Rightarrow> nat" and ls m
    by (induction ls arbitrary: m) auto
  have dom: "set ks = {PriorityHigh, PriorityNormal, PriorityLow}" "distinct ks"
    using assms by (auto simp: queue_wf_def range_order_def set_popOrder)
  have "map (\<lambda>l. length (ln_buf l)) (range_values (lanes q) ks) = map (\<lambda>p. length (lane_content q p)) ks"
    "map ln_cap (range_values (lanes q) ks) = map (lane_bound q) ks"
    using assms(2) by (auto simp: range_order_values lane_content_def lane_bound_def range_order_def split: option.splits)
  moreover have "sum_list (map f ks) = f PriorityHigh + f PriorityNormal + f PriorityLow" for f :: "Priority \<Rightarrow> nat"
    using dom by (simp add: sum_list_distinct_conv_sum_set)
  ultimately show "Queue_Len q ks = length (waiting q)" "Queue_Cap q ks = 3 * c"
    using queue_wf_content(1) [OF assms(1)]
    by (simp_all add: Queue_Len_def Queue_Cap_def fold_sum waiting_def set_popOrder)
qed

section \<open>Properties of the operations\<close>

text \<open>
  C25: The queue is a bounded stable priority list. A push is accepted exactly if its
  priority has a lane and fewer than the capacity wait in it; an accepted request goes
  behind every waiting request that is at least as urgent and before every less urgent
  one, a refused push changes nothing; a pop returns the first request of that list
  and removes only it, and fails only on an empty queue. No operation lets a
  lane exceed its capacity or hold a request of another priority, and the reported
  length and capacity are right.
\<close>

theorem queue_refines_priority_list:
  assumes "queue_wf c q"
  shows "(fst (TryPush q r) \<longleftrightarrow>
        rq_Priority r \<in> {PriorityHigh, PriorityNormal, PriorityLow} \<and>
        length (filter (\<lambda>x. rq_Priority x = rq_Priority r) (waiting q)) < c) \<and>
    waiting (snd (TryPush q r)) = (if fst (TryPush q r) then insert_by_rank r (waiting q) else waiting q) \<and>
    queue_wf c (snd (TryPush q r)) \<and>
    (case tryPopHighestPriority q of
       None \<Rightarrow> waiting q = []
     | Some (x, q') \<Rightarrow> waiting q = x # waiting q' \<and> queue_wf c q') \<and>
    (\<forall>ks. range_order (lanes q) ks \<longrightarrow> Queue_Len q ks = length (waiting q) \<and> Queue_Cap q ks = 3 * c)"
proof -
  have "queue_wf c q'" if pop: "tryPopHighestPriority q = Some (x, q')" for x q'
  proof -
    obtain xs p ys where "popOrder = xs @ p # ys" "try_recv q p = Some (x, q')"
      using try_pop_lanes_Some [OF pop [unfolded tryPopHighestPriority_def]] by blast
    moreover from this(1) have "p \<in> set popOrder" by (metis in_set_conv_decomp)
    ultimately show ?thesis using tryPop_wf(1) [OF assms] by blast
  qed
  moreover have "waiting (snd (TryPush q r)) = (if fst (TryPush q r) then insert_by_rank r (waiting q) else waiting q)"
    using TryPush_insert [OF assms] TryPush_rejects by simp
  moreover have "fst (TryPush q r) \<longleftrightarrow> rq_Priority r \<in> set popOrder \<and>
      length (filter (\<lambda>x. rq_Priority x = rq_Priority r) (waiting q)) < c"
    using TryPush_accept_iff [OF assms, of r] waiting_filter [OF assms, of "rq_Priority r"] by auto
  ultimately show ?thesis
    using TryPush_wf [OF assms, of r] Queue_Len_eq [OF assms] tryPop_waiting [of q]
    by (auto simp: set_popOrder split: option.splits)
qed

definition demo_req :: "string \<Rightarrow> Priority \<Rightarrow> Request" where
  "demo_req i p = \<lparr>rq_ID = i, rq_Body = [], rq_Model = ''m'', rq_Priority = p, rq_EnqueuedAt = 0,
     rq_KeyID = [], rq_Stream = False\<rparr>"

definition demo_queue :: Queue where
  "demo_queue = (case Queue_New 2 of
     Inr q \<Rightarrow> snd (TryPush (snd (TryPush q (demo_req ''n'' PriorityNormal))) (demo_req ''l'' PriorityLow))
   | Inl _ \<Rightarrow> \<lparr>lanes = Map.empty\<rparr>)"

lemma demo_queue_wf: "queue_wf 2 demo_queue"
proof -
  obtain q where q: "Queue_New (int 2) = Inr q" by (simp add: Queue_New_def Let_def)
  then show ?thesis using queue_wf_New [OF q] TryPush_wf by (simp add: demo_queue_def)
qed

lemma demo_queue_waiting: "waiting demo_queue = [demo_req ''n'' PriorityNormal, demo_req ''l'' PriorityLow]"
  by (simp add: demo_queue_def Queue_New_def Let_def TryPush_def demo_req_def waiting_def lane_content_def)

theorem queue_refines_priority_list_witness:
  "waiting (snd (TryPush demo_queue (demo_req ''h'' PriorityHigh))) =
     [demo_req ''h'' PriorityHigh, demo_req ''n'' PriorityNormal, demo_req ''l'' PriorityLow]"
  using queue_refines_priority_list [OF demo_queue_wf, of "demo_req ''h'' PriorityHigh"]
  by (simp add: demo_queue_waiting insert_by_rank_def rank_def demo_req_def)

text \<open>
  The position estimate is exact. If a request is accepted, then with no further
  pushes exactly as many pops as \<^verbatim>\<open>AheadOf\<close> reported just before the push return other
  requests, and the next one returns it.
\<close>

theorem AheadOf_exact:
  assumes "queue_wf c q" and "TryPush q r = (True, q')"
  shows "pops (Suc (AheadOf q (rq_Priority r))) q' =
    filter (\<lambda>x. rank x \<le> rank r) (waiting q) @ [r]"
proof -
  have "fst (TryPush q r)" "snd (TryPush q r) = q'" using assms(2) by simp_all
  moreover have "rq_Priority r \<in> set popOrder" using TryPush_accept_iff [OF assms(1)] calculation(1) by blast
  ultimately show ?thesis
    using TryPush_insert [OF assms(1), of r] AheadOf_rank [OF assms(1), of r]
    by (simp add: pops_waiting insert_by_rank_def)
qed

theorem AheadOf_exact_witness:
  "pops (Suc (AheadOf demo_queue PriorityNormal)) (snd (TryPush demo_queue (demo_req ''m'' PriorityNormal))) =
     [demo_req ''n'' PriorityNormal, demo_req ''m'' PriorityNormal]"
proof -
  have "fst (TryPush demo_queue (demo_req ''m'' PriorityNormal))"
    by (simp add: demo_queue_def Queue_New_def Let_def TryPush_def demo_req_def)
  then have "TryPush demo_queue (demo_req ''m'' PriorityNormal) =
      (True, snd (TryPush demo_queue (demo_req ''m'' PriorityNormal)))" by (simp add: prod_eq_iff)
  from AheadOf_exact [OF demo_queue_wf this] show ?thesis
    by (simp add: demo_queue_waiting rank_def demo_req_def del: pops.simps)
qed

end
