(* ===== verification/Dispatcher_Props.thy ===== *)
theory Dispatcher_Props
  imports Dispatcher
begin

text \<open>
  What a dispatch does, as a walk through a plan: every model of the chain in order, each
  repeated as often as the configuration allows, stopping at the first call that is not
  to be retried. The nested loops of the source are shown to be that walk.
\<close>

section \<open>Walking a plan\<close>

text \<open>
  \<open>f i c\<close> tries candidate \<open>c\<close> as the \<open>i\<close>-th attempt: whether to stop there, and the result so
  far. The walk returns whether it stopped early, the last result and the number of the
  next attempt.
\<close>

fun walk :: "(nat \<Rightarrow> 'c \<Rightarrow> bool \<times> 'r) \<Rightarrow> nat \<Rightarrow> 'c list \<Rightarrow> 'r \<Rightarrow> bool \<times> 'r \<times> nat" where
  "walk f i [] r = (False, r, i)"
| "walk f i (c # cs) r = (let (stop, r') = f i c in if stop then (True, r', Suc i) else walk f (Suc i) cs r')"

lemma walk_append:
  "walk f i (xs @ ys) r =
     (case walk f i xs r of (True, r', j) \<Rightarrow> (True, r', j) | (False, r', j) \<Rightarrow> walk f j ys r')"
  by (induction xs arbitrary: i r) (auto simp: Let_def split: prod.splits bool.splits)

lemma walk_spec:
  assumes "walk f i cs r = (stop, r', j)" and "cs \<noteq> []"
  shows "\<exists>k. j = i + Suc k \<and> k < length cs \<and> (\<forall>n < k. \<not> fst (f (i + n) (cs ! n))) \<and>
    r' = snd (f (i + k) (cs ! k)) \<and> (stop \<longleftrightarrow> fst (f (i + k) (cs ! k))) \<and> (\<not> stop \<longrightarrow> Suc k = length cs)"
  using assms
proof (induction cs arbitrary: i r)
  case (Cons c cs)
  obtain s x where fc: "f i c = (s, x)" by fastforce
  show ?case
  proof (cases "s \<or> cs = []")
    case True
    then show ?thesis using Cons.prems fc by (intro exI [of _ 0]) (auto simp: Let_def split: if_splits)
  next
    case False
    then have w: "walk f (Suc i) cs x = (stop, r', j)" using Cons.prems fc by simp
    obtain k where k: "j = Suc i + Suc k" "k < length cs" "\<forall>n < k. \<not> fst (f (Suc i + n) (cs ! n))"
      "r' = snd (f (Suc i + k) (cs ! k))" "stop \<longleftrightarrow> fst (f (Suc i + k) (cs ! k))" "\<not> stop \<longrightarrow> Suc k = length cs"
      using Cons.IH [OF w] False by blast
    have "\<not> fst (f (i + n) ((c # cs) ! n))" if "n < Suc k" for n
      using that k(3) fc False by (cases n) auto
    then show ?thesis using k by (intro exI [of _ "Suc k"]) auto
  qed
qed simp

section \<open>The plan\<close>

definition planned_body :: "(json \<Rightarrow> bytes) \<Rightarrow> Request \<Rightarrow> (string \<times> json) list \<Rightarrow> string \<Rightarrow> bytes" where
  "planned_body render req ms model =
     (if model = rq_Model req then rq_Body req
      else render (JObj (canonical (ms @ [(''model'', JStr model)]))))"

definition plan ::
  "(json \<Rightarrow> bytes) \<Rightarrow> Dispatcher \<Rightarrow> Request \<Rightarrow> (string \<times> json) list \<Rightarrow> string list \<Rightarrow> (string \<times> bytes) list" where
  "plan render d req ms models =
     concat (map (\<lambda>m. replicate (nat (maxAttempts d)) (m, planned_body render req ms m)) models)"

definition buffered_step :: "net \<Rightarrow> Dispatcher \<Rightarrow> nat \<Rightarrow> string \<times> bytes \<Rightarrow> bool \<times> Result" where
  "buffered_step net d i = (\<lambda>(m, b).
     let (result, retryable, _) = attempt net d b m (replicate i (made_call d b m)) in (\<not> retryable, result))"

definition stream_step ::
  "net \<Rightarrow> Dispatcher \<Rightarrow> nat \<Rightarrow> string \<times> bytes \<Rightarrow> bool \<times> (upstream_response \<times> string + Result)" where
  "stream_step net d i = (\<lambda>(m, b).
     case fst (stream_attempt net d b m (replicate i (made_call d b m))) of
       Inl up \<Rightarrow> (True, Inl (up, m))
     | Inr result \<Rightarrow> (False, Inr result))"

lemma attempt_step:
  "attempt net d b m log =
     (snd (buffered_step net d (length log) (m, b)), \<not> fst (buffered_step net d (length log) (m, b)),
      log @ [made_call d b m])"
  by (simp add: buffered_step_def attempt_def Let_def split: do_result.splits)

lemma stream_attempt_step:
  "stream_attempt net d b m log =
     (case snd (stream_step net d (length log) (m, b)) of Inl (up, _) \<Rightarrow> Inl up | Inr r \<Rightarrow> Inr r,
      log @ [made_call d b m])"
  by (simp add: stream_step_def stream_attempt_def Let_def split: do_result.splits)

lemma stream_step_shape:
  "fst (stream_step net d i (m, b)) \<longleftrightarrow> (\<exists>up. snd (stream_step net d i (m, b)) = Inl (up, m))"
  "\<not> fst (stream_step net d i (m, b)) \<longleftrightarrow> (\<exists>r. snd (stream_step net d i (m, b)) = Inr r)"
  by (auto simp: stream_step_def split: sum.splits)

text \<open>The log of a walk that has made the attempts up to \<open>j\<close>.\<close>

definition logged :: "Dispatcher \<Rightarrow> (string \<times> bytes) list \<Rightarrow> upstream_call list" where
  "logged d cs = map (\<lambda>(m, b). made_call d b m) cs"

lemma walk_index: "walk f i cs r = (stop, r', j) \<Longrightarrow> i \<le> j \<and> j \<le> i + length cs"
  by (induction cs arbitrary: i r) (fastforce simp: Let_def split: prod.splits if_splits)+

lemma walk_complete: "walk f i cs r = (False, r', j) \<Longrightarrow> j = i + length cs"
proof (induction cs arbitrary: i r)
  case (Cons c cs)
  show ?case using Cons.prems Cons.IH [of "Suc i" "snd (f i c)"] by (cases "f i c") (simp split: if_splits)
qed simp

definition after :: "Dispatcher \<Rightarrow> upstream_call list \<Rightarrow> (string \<times> bytes) list \<Rightarrow> nat \<Rightarrow> upstream_call list" where
  "after d log cs j = log @ logged d (take (j - length log) cs)"

lemma after_Cons:
  assumes "Suc (length log) \<le> j"
  shows "after d (log @ [made_call d b m]) cs j = after d log ((m, b) # cs) j"
proof -
  have "j - length log = Suc (j - Suc (length log))" using assms by simp
  then show ?thesis by (simp add: after_def logged_def)
qed

lemma after_append:
  assumes "j = length log + length xs" and "j \<le> k"
  shows "after d (after d log xs j) ys k = after d log (xs @ ys) k"
  using assms by (simp add: after_def logged_def)

lemma buffered_attempts_walk:
  "buffered_attempts net d b m n final log =
     (case walk (buffered_step net d) (length log) (replicate n (m, b)) final of
        (stop, r, j) \<Rightarrow> (stop, r, after d log (replicate n (m, b)) j))"
proof (induction n arbitrary: final log)
  case (Suc n)
  let ?s = "buffered_step net d (length log) (m, b)"
  obtain stop r j where w: "walk (buffered_step net d) (Suc (length log)) (replicate n (m, b)) (snd ?s) = (stop, r, j)"
    by (metis prod_cases3)
  have j: "Suc (length log) \<le> j" using walk_index [OF w] by simp
  show ?case
  proof (cases "fst ?s")
    case True
    then show ?thesis by (simp add: attempt_step case_prod_beta Let_def after_def logged_def)
  next
    case False
    then show ?thesis
      using Suc.IH [of "snd ?s" "log @ [made_call d b m]"] w after_Cons [OF j]
      by (simp add: attempt_step case_prod_beta Let_def)
  qed
qed (simp add: after_def logged_def)

lemma stream_attempts_walk:
  "stream_attempts net d b m n final log =
     (case walk (stream_step net d) (length log) (replicate n (m, b)) (Inr final) of
        (stop, r, j) \<Rightarrow> (case r of Inl (up, _) \<Rightarrow> Inl up | Inr x \<Rightarrow> Inr x, after d log (replicate n (m, b)) j))"
proof (induction n arbitrary: final log)
  case (Suc n)
  let ?s = "stream_step net d (length log) (m, b)"
  obtain stop r j where w: "walk (stream_step net d) (Suc (length log)) (replicate n (m, b)) (snd ?s) = (stop, r, j)"
    by (metis prod_cases3)
  have j: "Suc (length log) \<le> j" using walk_index [OF w] by simp
  show ?case
  proof (cases "fst ?s")
    case True
    then obtain up where "snd ?s = Inl (up, m)" using stream_step_shape(1) by blast
    then show ?thesis using True by (simp add: stream_attempt_step case_prod_beta Let_def after_def logged_def)
  next
    case False
    then obtain x where "snd ?s = Inr x" using stream_step_shape(2) by blast
    then show ?thesis
      using False Suc.IH [of x "log @ [made_call d b m]"] w after_Cons [OF j]
      by (simp add: stream_attempt_step case_prod_beta Let_def)
  qed
qed (simp add: after_def logged_def)

lemma body_for_object:
  assumes "parse (rq_Body req) = Some (JObj ms)"
  shows "body_for parse render req m = Inr (Some (planned_body render req ms m))"
  using assms by (simp add: body_for_def planned_body_def setModel_def)

lemma length_after:
  "length log \<le> j \<Longrightarrow> j \<le> length log + length cs \<Longrightarrow> length (after d log cs j) = j"
  by (simp add: after_def logged_def)

lemma buffered_chain_walk:
  assumes "parse (rq_Body req) = Some (JObj ms)"
  shows "buffered_chain parse render net d req models final log =
    (case walk (buffered_step net d) (length log) (plan render d req ms models) final of
       (stop, r, j) \<Rightarrow> (Inr r, after d log (plan render d req ms models) j))"
proof (induction models arbitrary: final log)
  case Nil
  then show ?case by (simp add: plan_def after_def logged_def)
next
  case (Cons m models)
  let ?b = "planned_body render req ms m" and ?n = "nat (maxAttempts d)"
  let ?xs = "replicate ?n (m, ?b)" and ?ys = "plan render d req ms models"
  have pl: "plan render d req ms (m # models) = ?xs @ ?ys" by (simp add: plan_def)
  obtain stop r j where w: "walk (buffered_step net d) (length log) ?xs final = (stop, r, j)" by (metis prod_cases3)
  note idx = walk_index [OF w]
  show ?case
  proof (cases stop)
    case True
    then show ?thesis
      using w idx by (simp add: body_for_object [where parse = parse, OF assms] buffered_attempts_walk pl walk_append after_def)
  next
    case False
    obtain stop' r' k where w': "walk (buffered_step net d) j ?ys r = (stop', r', k)" by (metis prod_cases3)
    have j: "j = length log + length ?xs" using walk_complete [of "buffered_step net d" "length log" ?xs final r j] w False by simp
    have "after d (after d log ?xs j) ?ys k = after d log (?xs @ ?ys) k"
      using after_append [OF j] walk_index [OF w'] by blast
    then show ?thesis
      using w w' False idx Cons.IH [of r "after d log ?xs j"]
      by (simp add: body_for_object [where parse = parse, OF assms] buffered_attempts_walk pl walk_append length_after)
  qed
qed

definition stream_out :: "upstream_response \<times> string + Result \<Rightarrow> Result \<times> bytes list" where
  "stream_out r = (case r of Inl (up, m) \<Rightarrow> (commit_result up m, streamBody (us_chunks up)) | Inr x \<Rightarrow> (x, []))"

lemma walk_stream_retry:
  "walk (stream_step net d) i cs (Inr x) = (False, r, j) \<Longrightarrow> \<exists>y. r = Inr y"
proof (induction cs arbitrary: i x)
  case (Cons c cs)
  obtain m b where c: "c = (m, b)" by fastforce
  have nf: "\<not> fst (stream_step net d i c)" using Cons.prems by (auto simp: Let_def case_prod_beta split: if_splits)
  then obtain y where "snd (stream_step net d i c) = Inr y" using stream_step_shape(2) c by blast
  then show ?case using Cons nf by (simp add: Let_def case_prod_beta)
qed auto

lemma walk_stream_commit:
  "walk (stream_step net d) i (replicate n (m, b)) x = (True, r, j) \<Longrightarrow> \<exists>up. r = Inl (up, m)"
proof (induction n arbitrary: i x)
  case (Suc n)
  show ?case
  proof (cases "fst (stream_step net d i (m, b))")
    case True
    then show ?thesis using Suc.prems stream_step_shape(1) by (auto simp: Let_def case_prod_beta)
  next
    case False
    then show ?thesis using Suc by (simp add: Let_def case_prod_beta)
  qed
qed simp

lemma stream_chain_walk:
  assumes "parse (rq_Body req) = Some (JObj ms)"
  shows "stream_chain parse render net d req models final log =
    (case walk (stream_step net d) (length log) (plan render d req ms models) (Inr final) of
       (stop, r, j) \<Rightarrow> (Inr (stream_out r), after d log (plan render d req ms models) j))"
proof (induction models arbitrary: final log)
  case Nil
  then show ?case by (simp add: plan_def after_def logged_def stream_out_def)
next
  case (Cons m models)
  let ?b = "planned_body render req ms m" and ?n = "nat (maxAttempts d)"
  let ?xs = "replicate ?n (m, ?b)" and ?ys = "plan render d req ms models"
  have pl: "plan render d req ms (m # models) = ?xs @ ?ys" by (simp add: plan_def)
  obtain stop r j where w: "walk (stream_step net d) (length log) ?xs (Inr final) = (stop, r, j)" by (metis prod_cases3)
  note idx = walk_index [OF w]
  show ?case
  proof (cases stop)
    case True
    then have "walk (stream_step net d) (length log) ?xs (Inr final) = (True, r, j)" using w by simp
    from walk_stream_commit [OF this] obtain up where "r = Inl (up, m)" by blast
    then show ?thesis
      using w idx True by (simp add: body_for_object [where parse = parse, OF assms] stream_attempts_walk pl walk_append after_def stream_out_def)
  next
    case False
    then have "walk (stream_step net d) (length log) ?xs (Inr final) = (False, r, j)" using w by simp
    from walk_stream_retry [OF this] obtain y where y: "r = Inr y" by blast
    obtain stop' r' k where w': "walk (stream_step net d) j ?ys (Inr y) = (stop', r', k)" by (metis prod_cases3)
    have j: "j = length log + length ?xs"
      using walk_complete [of "stream_step net d" "length log" ?xs "Inr final" r j] w False by simp
    have "after d (after d log ?xs j) ?ys k = after d log (?xs @ ?ys) k"
      using after_append [OF j] walk_index [OF w'] by blast
    then show ?thesis
      using w w' y False idx Cons.IH [of y "after d log ?xs j"]
      by (simp add: body_for_object [where parse = parse, OF assms] stream_attempts_walk pl walk_append length_after)
  qed
qed

lemma plan_nonempty: "1 \<le> maxAttempts d \<Longrightarrow> plan render d req ms (chain d req) \<noteq> []"
  by (simp add: plan_def chain_def)

lemma length_plan: "length (plan render d req ms models) = length models * nat (maxAttempts d)"
  by (induction models) (simp_all add: plan_def)

lemma plan_head:
  "1 \<le> maxAttempts d \<Longrightarrow> plan render d req ms (chain d req) ! 0 = (rq_Model req, rq_Body req)"
  by (simp add: plan_def chain_def planned_body_def nth_append)

section \<open>Rewriting the model\<close>

lemma go_map_append: "go_map (xs @ [(k, v)]) = (go_map xs)(k \<mapsto> v)"
  by (simp add: go_map_def)

lemma canonical_keys: "set (map fst (canonical ms)) = fst ` set ms" "distinct (map fst (canonical ms))"
  by (simp_all add: canonical_def comp_def image_image)

lemma canonical_lookup: "map_of (canonical ms) = go_map ms"
proof
  fix k
  have "go_map ms k = None \<longleftrightarrow> k \<notin> fst ` set ms" by (simp add: go_map_def map_of_eq_None_iff)
  moreover have "map_of (map (\<lambda>k. (k, f k)) ks) k = (if k \<in> set ks then Some (f k) else None)" for ks and f :: "string \<Rightarrow> json"
    by (induction ks) auto
  ultimately show "map_of (canonical ms) k = go_map ms k" by (auto simp: canonical_def)
qed

text \<open>Decoding a string field: which members match, and that only they matter.\<close>

definition string_like :: "json \<Rightarrow> bool" where
  "string_like v \<longleftrightarrow> v = JNull \<or> (\<exists>s. v = JStr s)"

lemma decode_string_bad:
  "snd (decode_string f ms (c, bad)) \<longleftrightarrow> bad \<or> (\<exists>(k, v) \<in> set ms. same_field k f \<and> \<not> string_like v)"
proof (induction ms arbitrary: c bad)
  case (Cons a ms)
  then show ?case by (cases a) (auto simp: string_like_def split: json.splits)
qed simp

lemma decode_string_skip:
  "\<forall>(k, v) \<in> set ms. \<not> same_field k f \<Longrightarrow> decode_string f ms acc = acc"
proof (induction ms arbitrary: acc)
  case (Cons a ms)
  then show ?case by (cases a; cases acc) auto
qed simp

lemma unmarshal_string_ok:
  "unmarshal_string_field f (JObj ms) \<noteq> None \<longleftrightarrow> (\<forall>(k, v) \<in> set ms. same_field k f \<longrightarrow> string_like v)"
  using decode_string_bad [of f ms "''''" False]
  by (auto simp: unmarshal_string_field_def case_prod_beta Let_def)

text \<open>Every spelling of the key \<^verbatim>\<open>model\<close> sorts before the lower-case one.\<close>

lemma model_spelling:
  assumes "same_field k ''model''"
  shows "k \<le> ''model''"
proof -
  have "map lower_char k = ''model''" using assms by (simp add: same_field_def lower_char_def)
  then obtain a b c d e where k: "k = [a, b, c, d, e]" "lower_char a = CHR ''m''" "lower_char b = CHR ''o''"
    "lower_char c = CHR ''d''" "lower_char d = CHR ''e''" "lower_char e = CHR ''l''"
    by (auto simp: map_eq_Cons_conv)
  have le: "x \<le> y" if "lower_char x = y" for x y :: char
    using that unfolding lower_char_def less_eq_char_def by (auto split: if_splits)
  show ?thesis using k le [OF k(2)] le [OF k(3)] le [OF k(4)] le [OF k(5)] le [OF k(6)] by auto
qed

lemma canonical_split:
  assumes "K \<in> fst ` set ms"
  shows "\<exists>xs ys. canonical ms = xs @ (K, the (go_map ms K)) # ys \<and> (\<forall>(k, w) \<in> set ys. \<not> k \<le> K)"
proof -
  let ?v = "the (go_map ms K)"
  have "(K, ?v) \<in> set (canonical ms)" using assms by (auto simp: canonical_def)
  then obtain xs ys where c: "canonical ms = xs @ (K, ?v) # ys" by (metis split_list)
  have "sorted (map fst (canonical ms))" "distinct (map fst (canonical ms))"
    by (simp_all add: canonical_def comp_def)
  then have "\<forall>k \<in> set (map fst ys). K \<le> k \<and> k \<noteq> K" unfolding c by (auto simp: sorted_append)
  then have "\<forall>(k, w) \<in> set ys. \<not> k \<le> K" by (metis (no_types, lifting) antisym case_prodI2 fst_conv image_eqI list.set_map)
  then show ?thesis using c by blast
qed

lemma setModel_decodes:
  assumes "unmarshal_string_field ''model'' (JObj ms) \<noteq> None"
  shows "unmarshal_string_field ''model'' (JObj (canonical (ms @ [(''model'', JStr m)]))) = Some m"
proof -
  let ?ms = "ms @ [(''model'', JStr m)]"
  let ?c = "canonical ?ms"
  have look: "go_map ?ms ''model'' = Some (JStr m)" by (simp add: go_map_append)
  have "''model'' \<in> fst ` set ?ms" by simp
  from canonical_split [OF this] obtain xs ys where
    c: "?c = xs @ (''model'', JStr m) # ys" and later: "\<forall>(k, w) \<in> set ys. \<not> k \<le> ''model''"
    unfolding look option.sel by blast
  have skip: "\<forall>(k, w) \<in> set ys. \<not> same_field k ''model''" using later model_spelling by fast
  have like: "string_like w" if "(k, w) \<in> set ?c" "same_field k ''model''" for k w
  proof -
    have "go_map ?ms k = Some w"
      using that(1) canonical_keys(2) [of ?ms] by (simp flip: canonical_lookup)
    then have "(k, w) \<in> set ?ms" unfolding go_map_def by (metis map_of_SomeD set_rev)
    then show ?thesis using assms that(2) unfolding unmarshal_string_ok by (auto simp: string_like_def)
  qed
  have "\<not> snd (decode_string ''model'' xs ('''', False))"
    using like unfolding c decode_string_bad by auto
  then obtain cur where "decode_string ''model'' xs ('''', False) = (cur, False)"
    by (metis prod.collapse)
  then have "decode_string ''model'' ?c ('''', False) = (m, False)"
    unfolding c decode_string_append using decode_string_skip [OF skip] by simp
  then show ?thesis by (simp add: unmarshal_string_field_def)
qed

section \<open>Properties\<close>

text \<open>What one HTTP call means for a buffered dispatch of model \<open>m\<close>.\<close>

definition worth_retry :: "do_result \<Rightarrow> bool" where
  "worth_retry res = (case res of
     BuildError \<Rightarrow> False | Unreachable \<Rightarrow> True
   | Got up \<Rightarrow> \<not> us_broken up \<and> (us_status up = 502 \<or> us_status up = 503))"

definition result_for :: "do_result \<Rightarrow> string \<Rightarrow> Result" where
  "result_for res m = (case res of
     BuildError \<Rightarrow> err_result BuildUpstream m | Unreachable \<Rightarrow> err_result UpstreamUnreachable m
   | Got up \<Rightarrow> if us_broken up then err_result ReadUpstream m
       else zero_result\<lparr>StatusCode := us_status up, rs_Body := concat (us_chunks up), ServedModel := m\<rparr>)"

lemma buffered_step_eq:
  "buffered_step net d i (m, b) =
     (\<not> worth_retry (net i (upstream_target d) b), result_for (net i (upstream_target d) b) m)"
  by (auto simp: buffered_step_def attempt_def Let_def worth_retry_def result_for_def isRetryableStatus_def
      split: do_result.splits)

lemma buffered_walks_plan:
  assumes "parse (rq_Body req) = Some (JObj ms)" and "1 \<le> maxAttempts d"
    and "P = plan render d req ms (chain d req)"
  shows "\<exists>k < length P.
    dispatchBuffered parse render net d req =
      (Inr (result_for (net k (upstream_target d) (snd (P ! k))) (fst (P ! k))), logged d (take (Suc k) P)) \<and>
    (\<forall>i < k. worth_retry (net i (upstream_target d) (snd (P ! i)))) \<and>
    (worth_retry (net k (upstream_target d) (snd (P ! k))) \<longrightarrow> Suc k = length P)"
proof -
  have ne: "P \<noteq> []" using plan_nonempty [OF assms(2)] assms(3) by simp
  obtain stop r j where w: "walk (buffered_step net d) 0 P zero_result = (stop, r, j)" by (metis prod_cases3)
  obtain k where k: "j = Suc k" "k < length P" "\<forall>i < k. \<not> fst (buffered_step net d i (P ! i))"
    "r = snd (buffered_step net d k (P ! k))" "stop \<longleftrightarrow> fst (buffered_step net d k (P ! k))"
    "\<not> stop \<longrightarrow> Suc k = length P"
    using walk_spec [OF w ne] by auto
  have step: "buffered_step net d i (P ! i) =
      (\<not> worth_retry (net i (upstream_target d) (snd (P ! i))),
       result_for (net i (upstream_target d) (snd (P ! i))) (fst (P ! i)))" for i
    using buffered_step_eq [of net d i "fst (P ! i)" "snd (P ! i)"] by simp
  have "dispatchBuffered parse render net d req = (Inr r, logged d (take (Suc k) P))"
    using buffered_chain_walk [where parse = parse, OF assms(1)] w k(1)
    by (simp add: dispatchBuffered_def after_def assms(3))
  then show ?thesis
    using k step by (intro exI [of _ k]) simp
qed

text \<open>What one HTTP call means for a streaming dispatch: a response to commit to, or a result.\<close>

definition commits :: "do_result \<Rightarrow> bool" where
  "commits res = (case res of Got up \<Rightarrow> us_status up \<noteq> 502 \<and> us_status up \<noteq> 503 | _ \<Rightarrow> False)"

definition stream_result :: "do_result \<Rightarrow> string \<Rightarrow> Result \<times> bytes list" where
  "stream_result res m = (case res of
     BuildError \<Rightarrow> (err_result BuildUpstream m, []) | Unreachable \<Rightarrow> (err_result UpstreamUnreachable m, [])
   | Got up \<Rightarrow> if commits res then (commit_result up m, streamBody (us_chunks up))
       else (zero_result\<lparr>StatusCode := us_status up, rs_Body := concat (us_chunks up), ServedModel := m\<rparr>, []))"

lemma stream_step_eq:
  "fst (stream_step net d i (m, b)) \<longleftrightarrow> commits (net i (upstream_target d) b)"
  "stream_out (snd (stream_step net d i (m, b))) = stream_result (net i (upstream_target d) b) m"
  by (auto simp: stream_step_def stream_attempt_def Let_def commits_def stream_result_def isRetryableStatus_def
      stream_out_def split: do_result.splits)

lemma stream_walks_plan:
  assumes "parse (rq_Body req) = Some (JObj ms)" and "1 \<le> maxAttempts d"
    and "P = plan render d req ms (chain d req)"
  shows "\<exists>k < length P.
    dispatchStream parse render net d req =
      (Inr (stream_result (net k (upstream_target d) (snd (P ! k))) (fst (P ! k))), logged d (take (Suc k) P)) \<and>
    (\<forall>i < k. \<not> commits (net i (upstream_target d) (snd (P ! i)))) \<and>
    (\<not> commits (net k (upstream_target d) (snd (P ! k))) \<longrightarrow> Suc k = length P)"
proof -
  have ne: "P \<noteq> []" using plan_nonempty [OF assms(2)] assms(3) by simp
  obtain stop r j where w: "walk (stream_step net d) 0 P (Inr zero_result) = (stop, r, j)" by (metis prod_cases3)
  obtain k where k: "j = Suc k" "k < length P" "\<forall>i < k. \<not> fst (stream_step net d i (P ! i))"
    "r = snd (stream_step net d k (P ! k))" "stop \<longleftrightarrow> fst (stream_step net d k (P ! k))"
    "\<not> stop \<longrightarrow> Suc k = length P"
    using walk_spec [OF w ne] by auto
  have step: "fst (stream_step net d i (P ! i)) \<longleftrightarrow> commits (net i (upstream_target d) (snd (P ! i)))"
    "stream_out (snd (stream_step net d i (P ! i))) = stream_result (net i (upstream_target d) (snd (P ! i))) (fst (P ! i))" for i
    using stream_step_eq [of net d i "fst (P ! i)" "snd (P ! i)"] by simp_all
  have "dispatchStream parse render net d req = (Inr (stream_out r), logged d (take (Suc k) P))"
    using stream_chain_walk [where parse = parse, OF assms(1)] w k(1)
    by (simp add: dispatchStream_def after_def assms(3))
  then show ?thesis using k step by (intro exI [of _ k]) simp
qed

text \<open>Whether a dispatch goes on after a call, and what it delivers if it ends with it.\<close>

definition goes_on :: "Request \<Rightarrow> do_result \<Rightarrow> bool" where
  "goes_on req res \<longleftrightarrow> (if rq_Stream req then \<not> commits res else worth_retry res)"

definition outcome_of :: "Request \<Rightarrow> do_result \<Rightarrow> string \<Rightarrow> Result \<times> bytes list" where
  "outcome_of req res m = (if rq_Stream req then stream_result res m else (result_for res m, []))"

lemma Streaming_outcome: "Streaming (fst (outcome_of req res m)) \<longleftrightarrow> rq_Stream req \<and> commits res"
  by (auto simp: outcome_of_def stream_result_def result_for_def commits_def commit_result_def err_result_def zero_result_def
      split: do_result.splits)

lemma walks_plan:
  assumes "parse (rq_Body req) = Some (JObj ms)" and "1 \<le> maxAttempts d"
    and "P = plan render d req ms (chain d req)"
  obtains k where "k < length P"
    "dispatch parse render net d req =
       (Inr (outcome_of req (net k (upstream_target d) (snd (P ! k))) (fst (P ! k))), logged d (take (Suc k) P))"
    "\<forall>i < k. goes_on req (net i (upstream_target d) (snd (P ! i)))"
    "goes_on req (net k (upstream_target d) (snd (P ! k))) \<Longrightarrow> Suc k = length P"
proof (cases "rq_Stream req")
  case True
  obtain k where "k < length P"
    "dispatchStream parse render net d req =
      (Inr (stream_result (net k (upstream_target d) (snd (P ! k))) (fst (P ! k))), logged d (take (Suc k) P))"
    "\<forall>i < k. \<not> commits (net i (upstream_target d) (snd (P ! i)))"
    "\<not> commits (net k (upstream_target d) (snd (P ! k))) \<longrightarrow> Suc k = length P"
    using stream_walks_plan [where parse = parse, OF assms] by blast
  then show thesis using True that by (simp add: dispatch_def goes_on_def outcome_of_def)
next
  case False
  obtain k where "k < length P"
    "dispatchBuffered parse render net d req =
      (Inr (result_for (net k (upstream_target d) (snd (P ! k))) (fst (P ! k))), logged d (take (Suc k) P))"
    "\<forall>i < k. worth_retry (net i (upstream_target d) (snd (P ! i)))"
    "worth_retry (net k (upstream_target d) (snd (P ! k))) \<longrightarrow> Suc k = length P"
    using buffered_walks_plan [where parse = parse, OF assms] by blast
  then show thesis using False that by (simp add: dispatch_def goes_on_def outcome_of_def)
qed

text \<open>
  C13: Retries and fallback. For a request whose body is a JSON object, a dispatch
  walks through its plan: the requested model with the client's body unchanged, as often
  as configured, then each fallback model of the chain, with only the model rewritten.
  A buffered dispatch stops at the first call that is not worth a retry (anything but an unreachable
  upstream, a 502 or a 503), a streaming one at the first response that is neither a 502 nor a 503;
  otherwise it goes on to the end of the plan. The result it delivers is that of the last call made,
  and names the model that produced it; a stream is announced exactly if a streaming
  dispatch got a response to commit to, and then its non-empty chunks are forwarded. It never panics and
  makes between one and \<open>maxAttempts * (1 + number of fallbacks)\<close> calls.
\<close>

theorem dispatch_walks_plan:
  assumes "parse (rq_Body req) = Some (JObj ms)" and "1 \<le> maxAttempts d"
    and "P = plan render d req ms (chain d req)"
  shows "\<exists>k < length P. \<exists>res. res = net k (upstream_target d) (snd (P ! k)) \<and>
    dispatch parse render net d req = (Inr (outcome_of req res (fst (P ! k))), logged d (take (Suc k) P)) \<and>
    (\<forall>i < k. goes_on req (net i (upstream_target d) (snd (P ! i)))) \<and>
    (goes_on req res \<longrightarrow> Suc k = length P) \<and>
    (Streaming (fst (outcome_of req res (fst (P ! k)))) \<longleftrightarrow> rq_Stream req \<and> commits res) \<and>
    P ! 0 = (rq_Model req, rq_Body req) \<and>
    length P = length (chain d req) * nat (maxAttempts d)"
proof -
  obtain k where "k < length P"
    "dispatch parse render net d req =
       (Inr (outcome_of req (net k (upstream_target d) (snd (P ! k))) (fst (P ! k))), logged d (take (Suc k) P))"
    "\<forall>i < k. goes_on req (net i (upstream_target d) (snd (P ! i)))"
    "goes_on req (net k (upstream_target d) (snd (P ! k))) \<longrightarrow> Suc k = length P"
    by (rule walks_plan [where net = net and parse = parse, OF assms]) blast
  moreover have "P ! 0 = (rq_Model req, rq_Body req)" using plan_head [OF assms(2)] assms(3) by simp
  moreover have "length P = length (chain d req) * nat (maxAttempts d)" using length_plan assms(3) by simp
  ultimately show ?thesis using Streaming_outcome by blast
qed

definition demo_dispatcher :: Dispatcher where
  "demo_dispatcher = Dispatcher_New ''http://router'' 2 [WithMaxAttempts 2, WithFallbacks [''big'' \<mapsto> [''small'']]]"

definition demo_dispatch_request :: Request where
  "demo_dispatch_request = \<lparr>rq_ID = ''req-1'', rq_Body = ''b'', rq_Model = ''big'', rq_Priority = 0,
     rq_EnqueuedAt = 0, rq_KeyID = [], rq_Stream = False\<rparr>"

definition demo_body :: "bytes \<Rightarrow> json option" where
  "demo_body b = Some (JObj [(''model'', JStr ''big'')])"

lemma demo_dispatcher_attempts: "1 \<le> maxAttempts demo_dispatcher"
  by (simp add: demo_dispatcher_def Dispatcher_New_def WithMaxAttempts_def WithFallbacks_def)

theorem dispatch_walks_plan_witness:
  "fst (dispatch demo_body (\<lambda>_. ''r'') (\<lambda>_ _ _. Unreachable) demo_dispatcher demo_dispatch_request) =
     Inr (err_result UpstreamUnreachable ''small'', []) \<and>
   (\<exists>out log. dispatch demo_body (\<lambda>_. ''r'') (\<lambda>_ _ _. BuildError) demo_dispatcher (demo_dispatch_request\<lparr>rq_Stream := True\<rparr>) =
      (Inr out, log) \<and> \<not> Streaming (fst out) \<and> length log \<le> 4)"
proof -
  let ?P = "[(''big'', ''b''), (''big'', ''b''), (''small'', ''r''), (''small'', ''r'')]"
  have P: "?P = plan (\<lambda>_. ''r'') demo_dispatcher (demo_dispatch_request\<lparr>rq_Stream := st\<rparr>) [(''model'', JStr ''big'')]
      (chain demo_dispatcher (demo_dispatch_request\<lparr>rq_Stream := st\<rparr>))" for st
    by (simp add: plan_def chain_def planned_body_def demo_dispatcher_def Dispatcher_New_def WithMaxAttempts_def
        WithFallbacks_def demo_dispatch_request_def eval_nat_numeral)
  have body: "demo_body (rq_Body (demo_dispatch_request\<lparr>rq_Stream := st\<rparr>)) = Some (JObj [(''model'', JStr ''big'')])" for st
    by (simp add: demo_body_def)
  note walk = dispatch_walks_plan [where parse = demo_body, OF body demo_dispatcher_attempts P]
  have plain: "demo_dispatch_request\<lparr>rq_Stream := False\<rparr> = demo_dispatch_request" by (simp add: demo_dispatch_request_def)
  obtain k where k: "fst (dispatch demo_body (\<lambda>_. ''r'') (\<lambda>_ _ _. Unreachable) demo_dispatcher demo_dispatch_request) =
     Inr (outcome_of demo_dispatch_request Unreachable (fst (?P ! k)))" "goes_on demo_dispatch_request Unreachable \<longrightarrow> Suc k = length ?P"
    using walk [of "\<lambda>_ _ _. Unreachable" False, unfolded plain] by (metis fst_conv)
  then have "k = 3" by (simp add: goes_on_def worth_retry_def demo_dispatch_request_def)
  then have "fst (dispatch demo_body (\<lambda>_. ''r'') (\<lambda>_ _ _. Unreachable) demo_dispatcher demo_dispatch_request) =
     Inr (err_result UpstreamUnreachable ''small'', [])"
    using k(1) by (simp add: outcome_of_def result_for_def demo_dispatch_request_def)
  moreover have "\<not> commits BuildError" by (simp add: commits_def)
  then obtain n where n: "dispatch demo_body (\<lambda>_. ''r'') (\<lambda>_ _ _. BuildError) demo_dispatcher (demo_dispatch_request\<lparr>rq_Stream := True\<rparr>) =
      (Inr (outcome_of (demo_dispatch_request\<lparr>rq_Stream := True\<rparr>) BuildError (fst (?P ! n))), logged demo_dispatcher (take (Suc n) ?P))"
    "\<not> Streaming (fst (outcome_of (demo_dispatch_request\<lparr>rq_Stream := True\<rparr>) BuildError (fst (?P ! n))))"
    using walk [of "\<lambda>_ _ _. BuildError" True] by blast
  moreover have "length (logged demo_dispatcher (take (Suc n) ?P)) \<le> 4" by (simp add: logged_def)
  ultimately show ?thesis by blast
qed

text \<open>
  C27: Falling back rewrites the model and nothing else. For every request the gateway
  accepts (a JSON object whose model field decodes), and if parsing what was printed
  gives the printed object back, the rewritten body decodes to the fallback model, also when the object spells the key in several ways, and every other
  member keeps its value; rewriting never fails or panics.
\<close>

theorem setModel_roundtrip:
  assumes "parse body = Some (JObj ms)" and "unmarshal_string_field ''model'' (JObj ms) \<noteq> None"
    and "parse (render (JObj (canonical (ms @ [(''model'', JStr m)])))) =
      Some (JObj (canonical (ms @ [(''model'', JStr m)])))"
  shows "\<exists>body' ms'. setModel parse render body m = Inr (Some body') \<and> parse body' = Some (JObj ms') \<and>
    unmarshal_string_field ''model'' (JObj ms') = Some m \<and>
    (\<forall>k. k \<noteq> ''model'' \<longrightarrow> go_map ms' k = go_map ms k)"
proof -
  let ?c = "canonical (ms @ [(''model'', JStr m)])"
  have "go_map ?c = go_map (ms @ [(''model'', JStr m)])"
  proof -
    have "go_map ?c = map_of ?c"
      unfolding go_map_def using map_of_inject_set [of "rev ?c" ?c] canonical_keys(2) [of "ms @ [(''model'', JStr m)]"]
      by (simp add: rev_map [symmetric])
    then show ?thesis by (simp add: canonical_lookup)
  qed
  then have "go_map ?c k = go_map ms k" if "k \<noteq> ''model''" for k using that by (simp add: go_map_append)
  then show ?thesis
    using setModel_decodes [OF assms(2)] assms(1,3) by (auto simp: setModel_def)
qed

text \<open>A concrete parser that knows two texts, and the printer that writes the second.\<close>

definition demo_members :: "(string \<times> json) list" where
  "demo_members = [(''MODEL'', JStr ''a''), (''n'', JNull)]"

definition demo_two_texts :: "bytes \<Rightarrow> json option" where
  "demo_two_texts b =
     (if b = ''in'' then Some (JObj demo_members)
      else Some (JObj (canonical (demo_members @ [(''model'', JStr ''b'')]))))"

theorem setModel_roundtrip_witness:
  "\<exists>body' ms'. setModel demo_two_texts (\<lambda>_. ''out'') ''in'' ''b'' = Inr (Some body') \<and>
     demo_two_texts body' = Some (JObj ms') \<and> unmarshal_string_field ''model'' (JObj ms') = Some ''b''"
proof -
  have "unmarshal_string_field ''model'' (JObj demo_members) \<noteq> None"
    by (simp add: demo_members_def unmarshal_string_field_def same_field_def lower_char_def)
  moreover have "demo_two_texts ''in'' = Some (JObj demo_members)" by (simp add: demo_two_texts_def)
  moreover have "demo_two_texts ''out'' = Some (JObj (canonical (demo_members @ [(''model'', JStr ''b'')])))"
    by (simp add: demo_two_texts_def)
  ultimately show ?thesis
    using setModel_roundtrip [of demo_two_texts "''in''" demo_members "\<lambda>_. ''out''" "''b''"] by metis
qed

text \<open>
  Every popped request is answered. A dispatcher goroutine delivers exactly one result
  for each request it pops, in order, until its context is cancelled, provided the
  bodies are JSON objects, as the gateway guarantees; no upstream behaviour makes it
  panic or skip one.
\<close>

theorem worker_answers_every_request:
  assumes "1 \<le> maxAttempts d" and "\<forall>req. Some req \<in> set popped \<longrightarrow> (\<exists>ms. parse (rq_Body req) = Some (JObj ms))"
  shows "map fst (workerLoop parse render nets d i popped) = map the (takeWhile (\<lambda>p. p \<noteq> None) popped) \<and>
    (\<forall>(req, out) \<in> set (workerLoop parse render nets d i popped). \<exists>result chunks. out = Inr (result, chunks))"
  using assms(2)
proof (induction popped arbitrary: i)
  case (Cons p popped)
  show ?case
  proof (cases p)
    case None
    then show ?thesis by simp
  next
    case (Some req)
    then obtain ms where ms: "parse (rq_Body req) = Some (JObj ms)" using Cons.prems by auto
    have "\<exists>out. fst (dispatchBuffered parse render (nets i) d req) = Inr out"
      using buffered_chain_walk [where parse = parse, OF ms, of render "nets i" d]
      by (simp add: dispatchBuffered_def case_prod_beta)
    moreover have "\<exists>out. fst (dispatchStream parse render (nets i) d req) = Inr out"
      using stream_chain_walk [where parse = parse, OF ms, of render "nets i" d]
      by (simp add: dispatchStream_def case_prod_beta)
    ultimately have "\<exists>result chunks. fst (dispatch parse render (nets i) d req) = Inr (result, chunks)"
      by (auto simp: dispatch_def split: prod.splits sum.splits)
    then show ?thesis using Cons.IH [of "Suc i"] Cons.prems Some by fastforce
  qed
qed simp

theorem worker_answers_every_request_witness:
  "map fst (workerLoop demo_body (\<lambda>_. ''r'') (\<lambda>_ _ _ _. Unreachable) demo_dispatcher 0
     [Some demo_dispatch_request, None]) = [demo_dispatch_request]"
  using worker_answers_every_request [OF demo_dispatcher_attempts, of "[Some demo_dispatch_request, None]" demo_body
      "\<lambda>_. ''r''" "\<lambda>_ _ _ _. Unreachable" 0]
  by (simp add: demo_body_def del: workerLoop.simps)

end
