(* ===== verification/Gateway_Props.thy ===== *)
theory Gateway_Props
  imports Gateway Queue_Steps Dispatcher_Props
begin

text \<open>
  What the gateway guarantees: which requests it admits and what admission does to the
  queue, that the metrics hook sees every request exactly once, and that requests without
  a valid key touch nothing.
\<close>

section \<open>Admission\<close>

definition authorised :: "time \<Rightarrow> Gateway \<Rightarrow> http_request \<Rightarrow> bool" where
  "authorised t g r \<longleftrightarrow>
     (case g_keyStore g of
        None \<Rightarrow> True
      | Some ks \<Rightarrow>
          (\<exists>apiKey info. extractAPIKey r = Some apiKey \<and> Lookup ks apiKey = Some info \<and>
             (case g_rateLimiter g of None \<Rightarrow> True | Some rl \<Rightarrow> fst (Allow rl (ki_KeyID info) (RequestsPerMin info) t))))"

definition within_slo :: "Gateway \<Rightarrow> string \<Rightarrow> Priority \<Rightarrow> bool" where
  "within_slo g model p \<longleftrightarrow>
     (\<forall>policy e bound. g_policy g = Some policy \<and> estimate_wait g model p = Some e \<and> policy p = Some bound \<longrightarrow> e \<le> bound)"

definition has_payload :: "(bytes \<Rightarrow> json option) \<Rightarrow> http_request \<Rightarrow> bytes \<Rightarrow> string \<Rightarrow> bool \<Rightarrow> bool" where
  "has_payload parse r body model stream \<longleftrightarrow>
     Body r = Some body \<and> Option.bind (parse body) unmarshal_payload = Some (model, stream) \<and> model \<noteq> ''''"

lemma authenticate_ok:
  "(\<exists>keyID. fst (authenticate t g r w) = Inr keyID) \<longleftrightarrow> authorised t g r"
  by (auto simp: authenticate_def authorised_def Let_def case_prod_beta split: option.splits)

lemma authenticate_frame:
  assumes "authenticate t g r w = (x, g')"
  shows "g_queue g' = g_queue g" "g_policy g' = g_policy g" "g_estimator g' = g_estimator g"
    "g_tracker g' = g_tracker g" "idCounter g' = idCounter g" "g_hasHook g' = g_hasHook g"
    "g_hookCalls g' = g_hookCalls g" "g_keyStore g' = g_keyStore g"
  using assms by (auto simp: authenticate_def Let_def case_prod_beta split: option.splits if_splits)

lemma authenticate_status:
  "fst (authenticate t g r new_response) = Inl w' \<Longrightarrow> rstatus w' = Some 401 \<or> rstatus w' = Some 429"
  by (auto simp: authenticate_def Let_def case_prod_beta split: option.splits if_splits)

lemma backpressure_within: "backpressure_rejects g p (estimate_wait g model p) \<longleftrightarrow> \<not> within_slo g model p"
  by (auto simp: backpressure_rejects_def within_slo_def Admit_def split: option.splits)

lemma within_slo_frame:
  "g_queue g' = g_queue g \<Longrightarrow> g_policy g' = g_policy g \<Longrightarrow> g_estimator g' = g_estimator g \<Longrightarrow> g_tracker g' = g_tracker g \<Longrightarrow>
   within_slo g' model p = within_slo g model p"
proof -
  assume eq: "g_queue g' = g_queue g" "g_policy g' = g_policy g" "g_estimator g' = g_estimator g" "g_tracker g' = g_tracker g"
  then have "estimate_wait g' model p = estimate_wait g model p" by (simp only: estimate_wait_def)
  then show ?thesis using eq(2) by (simp add: within_slo_def)
qed

lemma parsePriority_lane: "parsePriority r \<in> set popOrder"
  by (simp add: parsePriority_def popOrder_def Let_def)

lemma rejected_wait_status: "rstatus (rejected_wait p e new_response) = Some 503"
  by (simp add: rejected_wait_def)

lemma enqueue_cases:
  assumes "enqueue t g r body model stream keyID new_response = (a, g')"
  shows "(case a of
      Enqueued req w \<Rightarrow>
        req = new_request g body model (parsePriority r) stream keyID t \<and> within_slo g model (parsePriority r) \<and>
        TryPush (g_queue g) req = (True, g_queue g') \<and> rstatus w = None
    | Rejected w m \<Rightarrow> m = model \<and> g_queue g' = g_queue g \<and> rstatus w = Some 503 \<and>
        (within_slo g model (parsePriority r) \<longrightarrow>
           \<not> fst (TryPush (g_queue g) (new_request g body model (parsePriority r) stream keyID t)))) \<and>
    g_hasHook g' = g_hasHook g \<and> g_hookCalls g' = g_hookCalls g"
proof -
  let ?p = "parsePriority r"
  let ?req = "new_request g body model ?p stream keyID t"
  obtain ok q' where push: "TryPush (g_queue g) ?req = (ok, q')" by fastforce
  have keep: "\<not> ok \<Longrightarrow> q' = g_queue g" using TryPush_rejects [of "g_queue g" ?req] push by simp
  have hdr: "rstatus (estimate_header est new_response) = None" for est
    by (simp add: estimate_header_def split: option.splits)
  show ?thesis
    using assms push keep hdr backpressure_within [of g ?p model] rejected_wait_status
    by (auto simp: enqueue_def Let_def split: if_splits)
qed

text \<open>The whole admission phase, by where it ends.\<close>

lemma admit_cases:
  obtains (not_post) w where "Method r \<noteq> ''POST''" "admit parse t1 t2 g r = (Rejected w '''', g)" "rstatus w = Some 405"
  | (auth) w g1 where "Method r = ''POST''" "\<not> authorised t1 g r" "authenticate t1 g r new_response = (Inl w, g1)"
      "admit parse t1 t2 g r = (Rejected w '''', g1)" "rstatus w = Some 401 \<or> rstatus w = Some 429"
  | (body) w g1 keyID where "Method r = ''POST''" "authorised t1 g r" "\<nexists>body model stream. has_payload parse r body model stream"
      "authenticate t1 g r new_response = (Inr keyID, g1)"
      "admit parse t1 t2 g r = (Rejected w '''', g1)" "rstatus w = Some 400"
  | (queue) g1 keyID body model stream where "Method r = ''POST''" "authorised t1 g r" "has_payload parse r body model stream"
      "authenticate t1 g r new_response = (Inr keyID, g1)"
      "admit parse t1 t2 g r = enqueue t2 g1 r body model stream keyID new_response"
proof -
  note rules = that
  obtain x g1 where auth: "authenticate t1 g r new_response = (x, g1)" by fastforce
  show thesis
  proof (cases "Method r = ''POST''")
    case False
    then show thesis by (rule rules(1), simp add: admit_def Let_def) simp
  next
    case post: True
    show thesis
    proof (cases x)
      case (Inl w)
      then have "\<not> authorised t1 g r" using authenticate_ok [of t1 g r new_response] auth by simp
      moreover have "rstatus w = Some 401 \<or> rstatus w = Some 429" using authenticate_status [of t1 g r w] auth Inl by simp
      ultimately show thesis using post auth Inl by (intro rules(2)) (simp_all add: admit_def Let_def)
    next
      case (Inr keyID)
      then have au: "authorised t1 g r" using authenticate_ok [of t1 g r new_response] auth by auto
      show thesis
      proof (cases "\<exists>body model stream. has_payload parse r body model stream")
        case True
        then obtain body model stream where pl: "has_payload parse r body model stream" by blast
        then show thesis using post au auth Inr
          by (intro rules(4) [OF post au pl]) (auto simp: admit_def Let_def has_payload_def)
      next
        case False
        then have "\<exists>w. admit parse t1 t2 g r = (Rejected w '''', g1) \<and> rstatus w = Some 400"
          using post auth Inr by (auto simp: admit_def Let_def has_payload_def split: option.splits prod.splits)
        then show thesis using post au auth Inr rules(3) [OF post au False, of keyID g1] by blast
      qed
    qed
  qed
qed

lemma unmarshal_payload_object:
  assumes "unmarshal_payload j = Some (model, stream)" and "model \<noteq> ''''"
  shows "\<exists>ms. j = JObj ms \<and> unmarshal_string_field ''model'' (JObj ms) = Some model"
  using assms by (cases j) (auto simp: unmarshal_payload_def unmarshal_string_field_def bind_eq_Some_conv)

section \<open>Properties\<close>

text \<open>
  C12: Admission is exact. A request is put on the queue if and only if it is a POST, carries a
  registered key within its rate limit (when keys are configured), has a JSON object with
  a non-empty model, is predicted to wait no longer than the threshold of its priority
  (when estimates and thresholds are configured), and its lane has room. An admitted
  request carries exactly the client's body, model and priority and is appended to its
  lane; a refused one leaves the queue alone and gets a 400, 401, 405, 429 or 503.
\<close>

theorem gateway_admits_exactly:
  assumes "queue_wf c (g_queue g)"
  shows "case admit parse t1 t2 g r of
      (Enqueued req w, g') \<Rightarrow>
        Method r = ''POST'' \<and> authorised t1 g r \<and> has_payload parse r (rq_Body req) (rq_Model req) (rq_Stream req) \<and>
        within_slo g (rq_Model req) (rq_Priority req) \<and> rq_Priority req = parsePriority r \<and>
        length (lane_content (g_queue g) (parsePriority r)) < c \<and>
        lane_content (g_queue g') (parsePriority r) = lane_content (g_queue g) (parsePriority r) @ [req] \<and>
        queue_wf c (g_queue g')
    | (Rejected w m, g') \<Rightarrow>
        g_queue g' = g_queue g \<and> rstatus w \<in> {Some 400, Some 401, Some 405, Some 429, Some 503} \<and>
        \<not> (Method r = ''POST'' \<and> authorised t1 g r \<and>
           (\<exists>body model stream. has_payload parse r body model stream \<and> within_slo g model (parsePriority r)) \<and>
           length (lane_content (g_queue g) (parsePriority r)) < c)"
proof (cases rule: admit_cases [of r parse t1 t2 g])
  case (not_post w)
  then show ?thesis by simp
next
  case (auth w g1)
  then show ?thesis using authenticate_frame(1) [OF auth(3)] by auto
next
  case (body w g1 keyID)
  then show ?thesis using authenticate_frame(1) [OF body(4)] by auto
next
  case (queue g1 keyID body model stream)
  note fr = authenticate_frame [OF queue(4)]
  have slo: "within_slo g1 m p = within_slo g m p" for m p using within_slo_frame fr(1-4) by blast
  let ?req = "new_request g1 body model (parsePriority r) stream keyID t2"
  have pr: "rq_Priority ?req = parsePriority r" "rq_Body ?req = body" "rq_Model ?req = model" "rq_Stream ?req = stream"
    by (simp_all add: new_request_def)
  obtain a g' where a: "enqueue t2 g1 r body model stream keyID new_response = (a, g')" by fastforce
  have room: "fst (TryPush (g_queue g) ?req) \<longleftrightarrow> length (lane_content (g_queue g) (parsePriority r)) < c"
    using TryPush_accept_iff [OF assms, of ?req] pr(1) parsePriority_lane by simp
  have uniq: "has_payload parse r b m s \<Longrightarrow> m = model" for b m s using queue(3) by (auto simp: has_payload_def)
  show ?thesis
  proof (cases a)
    case (Rejected w m)
    then have "g_queue g' = g_queue g" "rstatus w = Some 503"
      "within_slo g model (parsePriority r) \<longrightarrow> \<not> fst (TryPush (g_queue g) ?req)"
      using enqueue_cases [OF a] fr(1) slo by simp_all
    then show ?thesis using Rejected a queue(5) uniq room by auto
  next
    case (Enqueued req w)
    then have e: "req = ?req" "within_slo g model (parsePriority r)" "TryPush (g_queue g) req = (True, g_queue g')"
      using enqueue_cases [OF a] fr(1) slo by auto
    have "lane_content (g_queue g') (parsePriority r) = lane_content (g_queue g) (parsePriority r) @ [req]"
      using pq.push_content [of "g_queue g" req "parsePriority r"] e pr(1) by simp
    moreover have "queue_wf c (g_queue g')" using TryPush_wf [OF assms, of req] e(3) by simp
    ultimately show ?thesis using Enqueued a queue e room pr by simp
  qed
qed

definition demo_gateway :: Gateway where
  "demo_gateway = Gateway_New demo_queue (30 * Second)
     [WithSLO (NewLatencyTracker (2 * Second)) (NewEstimator 10), WithBackpressure DefaultThresholds,
      WithAuth (AddKey NewKeyStore ''secret'' \<lparr>ki_KeyID = ''team'', RequestsPerMin = 60\<rparr>) NewRateLimiter,
      WithRequestHook]"

definition demo_client :: "string \<Rightarrow> http_request" where
  "demo_client key = \<lparr>Method = ''POST'', Path = ''/v1/completions'',
     Header = [''Authorization'' \<mapsto> ''Bearer '' @ key], Body = Some ''b''\<rparr>"

lemma demo_gateway_fields [simp]:
  "g_queue demo_gateway = demo_queue"
  "g_keyStore demo_gateway = Some (AddKey NewKeyStore ''secret'' \<lparr>ki_KeyID = ''team'', RequestsPerMin = 60\<rparr>)"
  "g_hasHook demo_gateway" "g_hookCalls demo_gateway = []"
  by (simp_all add: demo_gateway_def Gateway_New_def WithSLO_def WithBackpressure_def WithAuth_def WithRequestHook_def)

theorem gateway_admits_exactly_witness:
  "case admit demo_body 0 0 demo_gateway (demo_client ''wrong'') of
     (Enqueued req w, g') \<Rightarrow> authorised 0 demo_gateway (demo_client ''wrong'')
   | (Rejected w m, g') \<Rightarrow> g_queue g' = demo_queue"
  using gateway_admits_exactly [of 2 demo_gateway, where parse = demo_body and ?t1.0 = 0 and ?t2.0 = 0 and r = "demo_client ''wrong''"]
    demo_queue_wf
  by (auto split: prod.splits admission.splits)

text \<open>
  Unknown keys touch nothing. When keys are configured, a POST without a well-formed
  bearer key, with a key that was never registered, or with a key that has been revoked
  gets a 401 before its body is read, and nothing but the metrics hook notices: no
  token is taken, nothing is queued and no id is used up.
\<close>

theorem unknown_key_touches_nothing:
  assumes "Method r = ''POST''" and "g_keyStore g = Some ks"
    and "\<And>apiKey. extractAPIKey r = Some apiKey \<Longrightarrow> Lookup ks apiKey = None"
    and "R = gateway_handleInference parse err_text t1 t2 others outcome g r"
  shows "rstatus (gr_response R) = Some 401 \<and> gr_panic R = None \<and> gr_gateway R = gateway_hook '''' False g"
proof (cases "extractAPIKey r")
  case None
  then show ?thesis using assms by (simp add: gateway_handleInference_def admit_def authenticate_def Let_def)
next
  case (Some apiKey)
  then show ?thesis
    using assms(3) [OF Some] assms by (simp add: gateway_handleInference_def admit_def authenticate_def Let_def)
qed

theorem unknown_key_touches_nothing_witness:
  "rstatus (gr_response (gateway_handleInference demo_body (\<lambda>_. []) 0 0 id (\<lambda>_. TimedOut)
     (demo_gateway\<lparr>g_keyStore := Some (RemoveKey (AddKey NewKeyStore ''secret'' \<lparr>ki_KeyID = ''team'', RequestsPerMin = 60\<rparr>) ''secret'')\<rparr>)
     (demo_client ''secret''))) = Some 401"
proof -
  let ?ks = "RemoveKey (AddKey NewKeyStore ''secret'' \<lparr>ki_KeyID = ''team'', RequestsPerMin = 60\<rparr>) ''secret''"
  have "Lookup ?ks k = None" for k by (simp add: Lookup_def RemoveKey_def AddKey_def NewKeyStore_def)
  then show ?thesis
    using unknown_key_touches_nothing [of "demo_client ''secret''" "demo_gateway\<lparr>g_keyStore := Some ?ks\<rparr>" ?ks, OF _ _ _ refl]
    by (simp add: demo_client_def)
qed

section \<open>The whole handler\<close>

text \<open>Other goroutines leave this request's entry in the metrics hook alone.\<close>

definition hook_stable :: "(Gateway \<Rightarrow> Gateway) \<Rightarrow> bool" where
  "hook_stable others \<longleftrightarrow> (\<forall>g. g_hasHook (others g) = g_hasHook g \<and> g_hookCalls (others g) = g_hookCalls g)"

text \<open>Results carry a final status, or an error.\<close>

definition final_outcome :: "wait_outcome \<Rightarrow> bool" where
  "final_outcome outcome = (case outcome of TimedOut \<Rightarrow> True
     | ResultIn result now chunks \<Rightarrow> rs_Err result \<noteq> None \<or> 200 \<le> StatusCode result \<and> StatusCode result \<le> 999)"

lemma gateway_hook_simps:
  "g_hookCalls (gateway_hook m s g) = g_hookCalls g @ (if g_hasHook g then [(m, s)] else [])"
  by (simp add: gateway_hook_def)

lemma record_wait_frame:
  assumes "record_wait g req now w = (g', w')"
  shows "g_hasHook g' = g_hasHook g" "g_hookCalls g' = g_hookCalls g" "rstatus w' = rstatus w" "rbody w' = rbody w"
  using assms by (auto simp: record_wait_def Let_def split: option.splits)

lemma fold_write_body:
  "rstatus w = Some c \<Longrightarrow> rstatus (fold write_body bs w) = Some c"
  "rbody (fold write_body bs w) = rbody w @ bs"
  by (induction bs arbitrary: w) simp_all

lemma responses_relay:
  assumes "200 \<le> StatusCode result" and "StatusCode result \<le> 999" and "rstatus w = None"
  shows "\<exists>w'. streamResponse w result chunks = Inr w' \<and> rstatus w' = Some (StatusCode result) \<and> rbody w' = rbody w @ chunks"
    "\<exists>w'. bufferedResponse w result = Inr w' \<and> rstatus w' = Some (StatusCode result) \<and> rbody w' = rbody w @ [rs_Body result]"
  using assms
  by (auto simp: streamResponse_def bufferedResponse_def WriteHeader_def Let_def served_header_def fold_write_body
      write_body_keeps)

lemma finish_spec:
  assumes "final_outcome outcome" and "rstatus w = None"
  shows "gr_panic (finish err_text outcome g req w) = None"
    "\<exists>s. g_hookCalls (gr_gateway (finish err_text outcome g req w)) =
        g_hookCalls g @ (if g_hasHook g then [(rq_Model req, s)] else []) \<and>
      (\<exists>code. rstatus (gr_response (finish err_text outcome g req w)) = Some code \<and> (s \<longleftrightarrow> 200 \<le> code \<and> code < 300))"
proof -
  have "gr_panic (finish err_text outcome g req w) = None \<and>
    (\<exists>s. g_hookCalls (gr_gateway (finish err_text outcome g req w)) =
        g_hookCalls g @ (if g_hasHook g then [(rq_Model req, s)] else []) \<and>
      (\<exists>code. rstatus (gr_response (finish err_text outcome g req w)) = Some code \<and> (s \<longleftrightarrow> 200 \<le> code \<and> code < 300)))"
  proof (cases outcome)
    case TimedOut
    then show ?thesis using assms(2) by (simp add: finish_def gateway_hook_simps) blast
  next
    case (ResultIn result now chunks)
    obtain g' w' where rec: "record_wait g req now w = (g', w')" by fastforce
    note fr = record_wait_frame [OF rec]
    have w': "rstatus w' = None" using fr(3) assms(2) by simp
    show ?thesis
    proof (cases "rs_Err result")
      case (Some e)
      then show ?thesis using ResultIn rec w' fr by (simp add: finish_def gateway_hook_simps) blast
    next
      case None
      then have st: "200 \<le> StatusCode result" "StatusCode result \<le> 999"
        using assms(1) ResultIn by (simp_all add: final_outcome_def)
      obtain v where "(if Streaming result then streamResponse w' result chunks else bufferedResponse w' result) = Inr v"
        "rstatus v = Some (StatusCode result)"
        using responses_relay [OF st w'] by (cases "Streaming result") auto
      then show ?thesis using ResultIn rec None fr by (auto simp: finish_def gateway_hook_simps is_success_def)
    qed
  qed
  then show "gr_panic (finish err_text outcome g req w) = None"
    "\<exists>s. g_hookCalls (gr_gateway (finish err_text outcome g req w)) =
        g_hookCalls g @ (if g_hasHook g then [(rq_Model req, s)] else []) \<and>
      (\<exists>code. rstatus (gr_response (finish err_text outcome g req w)) = Some code \<and> (s \<longleftrightarrow> 200 \<le> code \<and> code < 300))"
    by blast+
qed

text \<open>
  Every request is answered and counted once. Whatever the request and the result, the
  gateway does not panic, commits exactly one status, and calls the metrics hook exactly
  once, with success if and only if the status is 2xx.
\<close>

theorem gateway_answers_and_counts_once:
  assumes "\<And>req. final_outcome (outcome req)" and "hook_stable others" and "g_hasHook g"
    and "R = gateway_handleInference parse err_text t1 t2 others outcome g r"
  shows "gr_panic R = None \<and> (\<exists>model success code. rstatus (gr_response R) = Some code \<and>
    g_hookCalls (gr_gateway R) = g_hookCalls g @ [(model, success)] \<and> (success \<longleftrightarrow> 200 \<le> code \<and> code < 300))"
proof -
  obtain a g' where a: "admit parse t1 t2 g r = (a, g')" by fastforce
  have fr: "g_hasHook g' = g_hasHook g \<and> g_hookCalls g' = g_hookCalls g \<and>
    (case a of Rejected w m \<Rightarrow> \<exists>code. rstatus w = Some code \<and> 400 \<le> code | Enqueued req w \<Rightarrow> rstatus w = None)"
  proof (cases rule: admit_cases [of r parse t1 t2 g])
    case (not_post w)
    then show ?thesis using a by auto
  next
    case (auth w g1)
    then show ?thesis using a authenticate_frame(6,7) [OF auth(3)] by auto
  next
    case (body w g1 keyID)
    then show ?thesis using a authenticate_frame(6,7) [OF body(4)] by auto
  next
    case (queue g1 keyID body model stream)
    then have "enqueue t2 g1 r body model stream keyID new_response = (a, g')" using a by simp
    from enqueue_cases [OF this] show ?thesis
      using authenticate_frame(6,7) [OF queue(4)] by (auto split: admission.splits)
  qed
  show ?thesis
  proof (cases a)
    case (Rejected w m)
    then show ?thesis using a fr assms(3,4)
      by (auto simp: gateway_handleInference_def gateway_hook_simps)
  next
    case (Enqueued req w)
    then have w: "rstatus w = None" and R: "R = finish err_text (outcome req) (others g') req w"
      using a fr assms(4) by (simp_all add: gateway_handleInference_def)
    have hk: "g_hasHook (others g')" "g_hookCalls (others g') = g_hookCalls g"
      using assms(2,3) fr by (simp_all add: hook_stable_def)
    note spec = finish_spec [where req = req and outcome = "outcome req" and g = "others g'" and err_text = err_text, OF assms(1) w]
    from spec(2) obtain s code where
      "g_hookCalls (gr_gateway R) = g_hookCalls g @ [(rq_Model req, s)]"
      "rstatus (gr_response R) = Some code" "s \<longleftrightarrow> 200 \<le> code \<and> code < 300"
      using hk unfolding R by auto
    then show ?thesis using spec(1) unfolding R by blast
  qed
qed

theorem gateway_answers_and_counts_once_witness:
  "\<exists>code. rstatus (gr_response (gateway_handleInference demo_body (\<lambda>_. []) 0 0 id (\<lambda>_. TimedOut) demo_gateway
     (demo_client ''secret''))) = Some code"
  using gateway_answers_and_counts_once [of "\<lambda>_. TimedOut" id demo_gateway, OF _ _ _ refl, of demo_body "\<lambda>_. []" 0 0 "demo_client ''secret''"]
  by (auto simp: final_outcome_def hook_stable_def)

section \<open>Shedding\<close>

lemma AheadOf_le_waiting: "queue_wf c q \<Longrightarrow> p \<in> set popOrder \<Longrightarrow> AheadOf q p \<le> length (waiting q)"
  by (auto simp: set_popOrder AheadOf_eq waiting_def)

text \<open>
  Whether a request is within its threshold, by the latencies the average is made of and the number of
  requests ahead.
\<close>

lemma within_slo_latencies:
  assumes "g_tracker g = Some (recorded fb samples)" and "g_estimator g = Some (NewEstimator c)" and "c \<le> 1024"
    and "g_policy g = Some policy" and "policy p = Some bound" and "AheadOf (g_queue g) p \<le> 4096"
    and "\<forall>d \<in> set (observed fb samples model). l \<le> d \<and> d \<le> u" and "0 \<le> l" and "u < 2 ^ 39"
  shows "int (AheadOf (g_queue g) p) * u \<le> bound * max 1 c \<Longrightarrow> within_slo g model p"
    and "(bound + 2) * max 1 c \<le> int (AheadOf (g_queue g) p) * (l - 1) \<Longrightarrow> \<not> within_slo g model p"
proof -
  let ?n = "int (AheadOf (g_queue g) p)" and ?a = "Average (recorded fb samples) model"
  have u: "u < 2 ^ 48" using assms(9) by simp
  note a = average_among [OF assms(8) u assms(7)]
  have n: "?n \<le> 4096" "0 \<le> ?n" using assms(6) by simp_all
  have small: "?a < 2 ^ 39" using a(3) assms(9) by simp
  note sides = estimate_sides [OF n(2,1) assms(3) a(2) small]
  have slo: "within_slo g model p \<longleftrightarrow> Estimate (recorded fb samples) (NewEstimator c) model ?n \<le> bound"
    using assms(1,2,4,5) by (simp add: within_slo_def estimate_wait_def)
  show "within_slo g model p" if "?n * u \<le> bound * max 1 c"
    unfolding slo using sides(1) order_trans [OF mult_left_mono [OF a(3) n(2)] that] by blast
  show "\<not> within_slo g model p" if "(bound + 2) * max 1 c \<le> ?n * (l - 1)"
    unfolding slo not_le using sides(2) order_trans [OF that mult_left_mono [OF a(1) n(2)]] by blast
qed

text \<open>
  C28: Backpressure sheds by what was observed. Take a request that passes the checks before
  the queue, for a priority with a threshold, when \<open>ahead\<close> requests of at least its priority wait
  (up to 4096; the default queue holds 3000), with up to 1024 dispatchers, and let all latencies
  recorded for its model, in any order and among those of other models, or the fallback
  before the first one, lie between \<open>l\<close> and \<open>u\<close>, below \<open>2 ^ 39\<close> nanoseconds (9
  minutes). If \<open>ahead\<close> times \<open>u\<close> is at most the threshold times the number of dispatchers and
  its lane has room, the request is queued. If \<open>ahead\<close> times \<open>l - 1\<close> is at least the threshold plus two
  nanoseconds, times the number of dispatchers, it gets a 503 and the queue stays as it is, however
  much room there is. No rounding of the average or of the estimate gets in between.
\<close>

theorem shedding_follows_latencies:
  assumes "Method r = ''POST''" and "authorised t1 g r" and "has_payload parse r body model stream"
    and "queue_wf n (g_queue g)" and "length (waiting (g_queue g)) \<le> 4096"
    and "g_tracker g = Some (recorded fb samples)" and "g_estimator g = Some (NewEstimator c)" and "c \<le> 1024"
    and "g_policy g = Some policy" and "policy (parsePriority r) = Some bound"
    and "\<forall>d \<in> set (observed fb samples model). l \<le> d \<and> d \<le> u" and "0 \<le> l" and "u < 2 ^ 39"
    and "rq_Priority x = parsePriority r" and "ahead = length (filter (\<lambda>y. rank y \<le> rank x) (waiting (g_queue g)))"
  shows "(int ahead * u \<le> bound * max 1 c \<and> length (lane_content (g_queue g) (parsePriority r)) < n \<longrightarrow>
      (\<exists>req w g'. admit parse t1 t2 g r = (Enqueued req w, g') \<and>
        lane_content (g_queue g') (parsePriority r) = lane_content (g_queue g) (parsePriority r) @ [req] \<and>
        rq_Body req = body \<and> rq_Model req = model)) \<and>
    ((bound + 2) * max 1 c \<le> int ahead * (l - 1) \<longrightarrow>
      (\<exists>w g'. admit parse t1 t2 g r = (Rejected w model, g') \<and> rstatus w = Some 503 \<and> g_queue g' = g_queue g))"
proof -
  let ?p = "parsePriority r"
  have ahead: "ahead = AheadOf (g_queue g) ?p"
    using AheadOf_rank [OF assms(4), of x] assms(14,15) parsePriority_lane by simp
  have "AheadOf (g_queue g) ?p \<le> 4096" using AheadOf_le_waiting [OF assms(4) parsePriority_lane] assms(5) le_trans by blast
  note slo = within_slo_latencies [OF assms(6-10) this assms(11-13), folded ahead]
  obtain keyID g1 where auth: "authenticate t1 g r new_response = (Inr keyID, g1)"
    using authenticate_ok [of t1 g r new_response] assms(2) by (metis prod.collapse)
  note fr = authenticate_frame [OF auth]
  have slo1: "within_slo g1 m p = within_slo g m p" for m p using within_slo_frame fr(1-4) by blast
  let ?req = "new_request g1 body model ?p stream keyID t2"
  have pr: "rq_Priority ?req = ?p" "rq_Body ?req = body" "rq_Model ?req = model" by (simp_all add: new_request_def)
  obtain a g' where a: "enqueue t2 g1 r body model stream keyID new_response = (a, g')" by fastforce
  have adm: "admit parse t1 t2 g r = (a, g')"
    using assms(1,3) auth a by (auto simp: admit_def Let_def has_payload_def)
  have room: "fst (TryPush (g_queue g) ?req) \<longleftrightarrow> length (lane_content (g_queue g) ?p) < n"
    using TryPush_accept_iff [OF assms(4), of ?req] pr(1) parsePriority_lane by simp
  show ?thesis
  proof (cases a)
    case (Rejected w m)
    then show ?thesis using enqueue_cases [OF a] fr(1) slo1 slo(1) room adm by auto
  next
    case (Enqueued req w)
    then have e: "req = ?req" "within_slo g model ?p" "TryPush (g_queue g) req = (True, g_queue g')"
      using enqueue_cases [OF a] fr(1) slo1 by auto
    have "lane_content (g_queue g') ?p = lane_content (g_queue g) ?p @ [req]"
      using pq.push_content [of "g_queue g" req ?p] e pr(1) by simp
    then show ?thesis using Enqueued adm e(1,2) pr slo(2) by auto
  qed
qed

definition demo_pressed :: "duration \<Rightarrow> Gateway" where
  "demo_pressed d = demo_gateway\<lparr>g_keyStore := None, g_estimator := Some (NewEstimator 1),
     g_tracker := Some (recorded Second [(''big'', d), (''other'', 7), (''big'', d + Second)])\<rparr>"

theorem shedding_follows_latencies_witness:
  "(\<exists>req w g'. admit demo_body 0 0 (demo_pressed (3 * Second)) (demo_client ''secret'') = (Enqueued req w, g') \<and>
      rq_Model req = ''big'') \<and>
   (\<exists>w g'. admit demo_body 0 0 (demo_pressed (20 * Second)) (demo_client ''secret'') = (Rejected w ''big'', g') \<and>
      rstatus w = Some 503)"
proof -
  let ?r = "demo_client ''secret''" and ?x = "demo_req ''x'' PriorityNormal"
  have g: "g_queue (demo_pressed d) = demo_queue" "g_keyStore (demo_pressed d) = None"
    "g_policy (demo_pressed d) = Some DefaultThresholds" "g_estimator (demo_pressed d) = Some (NewEstimator 1)"
    "g_tracker (demo_pressed d) = Some (recorded Second [(''big'', d), (''other'', 7), (''big'', d + Second)])" for d
    by (simp_all add: demo_pressed_def demo_gateway_def Gateway_New_def WithSLO_def WithBackpressure_def WithAuth_def WithRequestHook_def)
  have r: "Method ?r = ''POST''" "authorised 0 (demo_pressed d) ?r" "has_payload demo_body ?r ''b'' ''big'' False"
    "parsePriority ?r = PriorityNormal" for d
    by (simp_all add: demo_client_def authorised_def g has_payload_def demo_body_def unmarshal_payload_def Let_def
        unmarshal_string_field_def unmarshal_bool_field_def parsePriority_def same_field_def header_get_def)
  have q: "rq_Priority ?x = parsePriority ?r" "length (filter (\<lambda>y. rank y \<le> rank ?x) (waiting demo_queue)) = 1"
    "length (waiting demo_queue) \<le> 4096" "length (lane_content demo_queue PriorityNormal) < 2"
    by (simp_all add: r waiting_def demo_req_def rank_def demo_queue_def Queue_New_def Let_def TryPush_def lane_content_def)
  have o: "\<forall>e \<in> set (observed Second [(''big'', d), (''other'', 7), (''big'', d + Second)] ''big''). d \<le> e \<and> e \<le> d + Second" for d
    by (simp add: observed_def)
  have T: "DefaultThresholds (parsePriority ?r) = Some (15 * Second)" by (simp add: r DefaultThresholds_def)
  note shed = shedding_follows_latencies [where parse = demo_body and ?t2.0 = 0 and policy = DefaultThresholds and c = 1
    and ahead = 1 and x = ?x, OF r(1) r(2) r(3), unfolded g, OF demo_queue_wf q(3) refl refl _ refl T o _ _ q(1)]
  have "\<exists>req w g'. admit demo_body 0 0 (demo_pressed (3 * Second)) ?r = (Enqueued req w, g') \<and> rq_Model req = ''big''"
    using shed [of "3 * Second"] q(2,4) r(4) by auto
  moreover have "\<exists>w g'. admit demo_body 0 0 (demo_pressed (20 * Second)) ?r = (Rejected w ''big'', g') \<and> rstatus w = Some 503"
    using shed [of "20 * Second"] q(2,4) r(4) by auto
  ultimately show ?thesis by blast
qed

end
