(* ===== verification/Queue_Concurrency.thy ===== *)
theory Queue_Concurrency
  imports Queue_Steps
begin

text \<open>
  Gateways and dispatcher goroutines on one queue. A call of \<^verbatim>\<open>Pop\<close> first tries the
  lanes one by one, each receive a step of its own; then it enters the blocking
  \<^verbatim>\<open>select\<close>, which takes from any lane that is ready, or waits. The runtime hands
  a push directly to a call that waits. A cancelled context may win at the
  \<^verbatim>\<open>select\<close>. Two histories record what was accepted and what calls returned.
\<close>

section \<open>The step relation\<close>

datatype pop_call =
    Scan "Priority list"
  | Blocked
  | Returned "Request option"

record qsys =
  queue :: Queue
  calls :: "nat \<rightharpoonup> pop_call"
  accepted :: "Request list"
  returned :: "(nat \<times> Request) list"

datatype qevent = QPush Request bool | QCall nat | QRecv nat Priority | QMiss nat | QBlock nat | QCancel nat

definition finish_pop :: "qsys \<Rightarrow> nat \<Rightarrow> Request \<Rightarrow> Queue \<Rightarrow> qsys" where
  "finish_pop s k r q' =
     s\<lparr>queue := q', calls := (calls s)(k \<mapsto> Returned (Some r)), returned := returned s @ [(k, r)]\<rparr>"

inductive qstep :: "qsys \<Rightarrow> qevent \<Rightarrow> qsys \<Rightarrow> bool" where
  push_buffered: "\<lbrakk>\<forall>k. calls s k \<noteq> Some Blocked; TryPush (queue s) r = (ok, q')\<rbrakk> \<Longrightarrow>
    qstep s (QPush r ok) (s\<lparr>queue := q', accepted := accepted s @ (if ok then [r] else [])\<rparr>)"
| push_handoff: "\<lbrakk>calls s k = Some Blocked; lanes (queue s) (rq_Priority r) \<noteq> None\<rbrakk> \<Longrightarrow>
    qstep s (QPush r True) (finish_pop (s\<lparr>accepted := accepted s @ [r]\<rparr>) k r (queue s))"
| push_no_lane: "\<lbrakk>lanes (queue s) (rq_Priority r) = None\<rbrakk> \<Longrightarrow> qstep s (QPush r False) s"
| pop_call: "calls s k = None \<Longrightarrow> qstep s (QCall k) (s\<lparr>calls := (calls s)(k \<mapsto> Scan popOrder)\<rparr>)"
| pop_scan_hit: "\<lbrakk>calls s k = Some (Scan (p # ps)); try_recv (queue s) p = Some (r, q')\<rbrakk> \<Longrightarrow>
    qstep s (QRecv k p) (finish_pop s k r q')"
| pop_scan_miss: "\<lbrakk>calls s k = Some (Scan (p # ps)); try_recv (queue s) p = None\<rbrakk> \<Longrightarrow>
    qstep s (QMiss k) (s\<lparr>calls := (calls s)(k \<mapsto> Scan ps)\<rparr>)"
| pop_select: "\<lbrakk>calls s k = Some (Scan []); p \<in> set popOrder; try_recv (queue s) p = Some (r, q')\<rbrakk> \<Longrightarrow>
    qstep s (QRecv k p) (finish_pop s k r q')"
| pop_block: "\<lbrakk>calls s k = Some (Scan []); \<forall>p \<in> set popOrder. try_recv (queue s) p = None\<rbrakk> \<Longrightarrow>
    qstep s (QBlock k) (s\<lparr>calls := (calls s)(k \<mapsto> Blocked)\<rparr>)"
| pop_cancel: "\<lbrakk>calls s k = Some (Scan []) \<or> calls s k = Some Blocked\<rbrakk> \<Longrightarrow>
    qstep s (QCancel k) (s\<lparr>calls := (calls s)(k \<mapsto> Returned None)\<rparr>)"

definition qstart :: "nat \<Rightarrow> qsys \<Rightarrow> bool" where
  "qstart c s \<longleftrightarrow> Queue_New (int c) = Inr (queue s) \<and> calls s = Map.empty \<and> accepted s = [] \<and> returned s = []"

section \<open>The invariant\<close>

abbreviation of_prio :: "Priority \<Rightarrow> Request list \<Rightarrow> Request list" where
  "of_prio p rs \<equiv> filter (\<lambda>r. rq_Priority r = p) rs"

definition fifo :: "qsys \<Rightarrow> bool" where
  "fifo s \<longleftrightarrow> (\<forall>p \<in> set popOrder.
     of_prio p (accepted s) = of_prio p (map snd (returned s)) @ lane_content (queue s) p)"

definition delivered :: "qsys \<Rightarrow> bool" where
  "delivered s \<longleftrightarrow> distinct (map fst (returned s)) \<and>
     (\<forall>k r. (k, r) \<in> set (returned s) \<longleftrightarrow> calls s k = Some (Returned (Some r)))"

definition scans_ok :: "qsys \<Rightarrow> bool" where
  "scans_ok s \<longleftrightarrow> (\<forall>k ps. calls s k = Some (Scan ps) \<longrightarrow> suffix ps popOrder)"

definition no_lost_wakeup :: "qsys \<Rightarrow> bool" where
  "no_lost_wakeup s \<longleftrightarrow> (\<forall>k. calls s k = Some Blocked \<longrightarrow> waiting (queue s) = [])"

definition known_prios :: "qsys \<Rightarrow> bool" where
  "known_prios s \<longleftrightarrow> (\<forall>r \<in> set (accepted s) \<union> snd ` set (returned s). rq_Priority r \<in> set popOrder)"

definition qinv :: "nat \<Rightarrow> qsys \<Rightarrow> bool" where
  "qinv c s \<longleftrightarrow> queue_wf c (queue s) \<and> fifo s \<and> delivered s \<and> scans_ok s \<and> no_lost_wakeup s \<and> known_prios s"

lemma waiting_empty_iff: "waiting q = [] \<longleftrightarrow> (\<forall>p \<in> set popOrder. lane_content q p = [])"
  by (auto simp: waiting_def set_popOrder)

lemma unreturned:
  "delivered s \<Longrightarrow> calls s k = Some x \<Longrightarrow> x \<noteq> Returned (Some r') \<Longrightarrow> (k, r') \<notin> set (returned s)"
  by (auto simp: delivered_def)

lemma delivered_finish:
  assumes "delivered s" and "calls s k = Some x" and "\<And>r. x \<noteq> Returned (Some r)"
  shows "delivered (finish_pop s k r q')"
proof -
  have "k \<notin> fst ` set (returned s)" using unreturned [OF assms(1,2)] assms(3) by force
  then show ?thesis using assms(1) by (auto simp: delivered_def finish_pop_def) (force)+
qed

lemma delivered_calls:
  assumes "delivered s" and "\<And>r. calls s k \<noteq> Some (Returned (Some r))" and "\<And>r. x \<noteq> Returned (Some r)"
  shows "delivered (s\<lparr>calls := (calls s)(k \<mapsto> x)\<rparr>)"
  using assms by (auto simp: delivered_def)

text \<open>Receiving from a lane, by the scan or by the select.\<close>

lemma qinv_recv:
  assumes "qinv c s" and "calls s k = Some (Scan ps)" and "p \<in> set popOrder"
    and "try_recv (queue s) p = Some (r, q')"
  shows "qinv c (finish_pop s k r q')"
proof -
  have wf: "queue_wf c (queue s)" using assms(1) by (simp add: qinv_def)
  note recv = tryPop_wf [OF wf assms(4,3)]
  have ne: "waiting (queue s) \<noteq> []" using recv(3) assms(3) unfolding waiting_empty_iff by force
  have nb: "calls s i \<noteq> Some Blocked" for i using assms(1) ne by (auto simp: qinv_def no_lost_wakeup_def)
  have "fifo (finish_pop s k r q')"
    using assms(1) recv(2,3,4) unfolding qinv_def fifo_def finish_pop_def by auto
  moreover have "delivered (finish_pop s k r q')"
    using assms(1,2) by (intro delivered_finish [of s k "Scan ps"]) (auto simp: qinv_def)
  moreover have "scans_ok (finish_pop s k r q')" "known_prios (finish_pop s k r q')"
    using assms(1,3) recv(2) by (auto simp: qinv_def scans_ok_def known_prios_def finish_pop_def split: if_splits)
  moreover have "no_lost_wakeup (finish_pop s k r q')"
    using nb by (simp add: no_lost_wakeup_def finish_pop_def)
  ultimately show ?thesis using recv(1) by (simp add: qinv_def finish_pop_def)
qed

lemma qinv_handoff:
  assumes "qinv c s" and "calls s k = Some Blocked" and "lanes (queue s) (rq_Priority r) \<noteq> None"
  shows "qinv c (finish_pop (s\<lparr>accepted := accepted s @ [r]\<rparr>) k r (queue s))"
proof -
  have empty: "\<forall>p \<in> set popOrder. lane_content (queue s) p = []"
    using assms(1,2) by (auto simp: qinv_def no_lost_wakeup_def simp flip: waiting_empty_iff)
  have p: "rq_Priority r \<in> set popOrder" using assms(1,3) by (auto simp: qinv_def queue_wf_def)
  let ?t = "s\<lparr>accepted := accepted s @ [r]\<rparr>"
  have "delivered ?t" using assms(1) by (simp add: qinv_def delivered_def)
  then have "delivered (finish_pop ?t k r (queue s))"
    using assms(2) by (intro delivered_finish [of ?t k Blocked]) simp_all
  then show ?thesis
    using assms(1) empty p
    by (auto simp: qinv_def fifo_def scans_ok_def no_lost_wakeup_def known_prios_def finish_pop_def split: if_splits)
qed

lemma qinv_push:
  assumes "qinv c s" and "\<forall>k. calls s k \<noteq> Some Blocked" and "TryPush (queue s) r = (ok, q')"
  shows "qinv c (s\<lparr>queue := q', accepted := accepted s @ (if ok then [r] else [])\<rparr>)"
proof -
  have wf: "queue_wf c (queue s)" using assms(1) by (simp add: qinv_def)
  have eqs: "fst (TryPush (queue s) r) = ok" "snd (TryPush (queue s) r) = q'" using assms(3) by simp_all
  have p: "ok \<Longrightarrow> rq_Priority r \<in> set popOrder" using TryPush_accept_iff [OF wf, of r] eqs by simp
  have content: "lane_content q' p = (if ok \<and> p = rq_Priority r then lane_content (queue s) p @ [r] else lane_content (queue s) p)" for p
    using pq.push_content [of "queue s" r p] eqs by simp
  have "queue_wf c q'" using TryPush_wf [OF wf, of r] eqs by simp
  then show ?thesis
    using assms(1,2) p content
    by (auto simp: qinv_def fifo_def delivered_def scans_ok_def no_lost_wakeup_def known_prios_def)
qed

lemma qinv_calls:
  assumes "qinv c s" and "\<And>r. calls s k \<noteq> Some (Returned (Some r))" and "\<And>r. x \<noteq> Returned (Some r)"
    and "\<And>ps. x = Scan ps \<Longrightarrow> suffix ps popOrder" and "x = Blocked \<Longrightarrow> waiting (queue s) = []"
  shows "qinv c (s\<lparr>calls := (calls s)(k \<mapsto> x)\<rparr>)"
  using assms delivered_calls [of s k x]
  by (auto simp: qinv_def fifo_def scans_ok_def no_lost_wakeup_def known_prios_def split: if_splits)

interpretation qsystem: inductive_invariant "qstart c" qstep "qinv c" for c
proof unfold_locales
  show "qinv c s" if "qstart c s" for s
    using that queue_wf_New [of c "queue s"]
    by (auto simp: qstart_def qinv_def fifo_def delivered_def scans_ok_def no_lost_wakeup_def known_prios_def waiting_empty_iff)
next
  show "qinv c t" if "qinv c s" "qstep s e t" for s e t
    using that(2,1)
  proof (induction rule: qstep.induct)
    case (push_buffered s r ok q')
    then show ?case by (intro qinv_push)
  next
    case (pop_scan_hit s k p ps r q')
    then have "suffix (p # ps) popOrder" by (simp add: qinv_def scans_ok_def)
    then have "p \<in> set popOrder" by (metis list.set_intros(1) set_mono_suffix subsetD)
    then show ?case using pop_scan_hit qinv_recv by blast
  next
    case (pop_scan_miss s k p ps)
    then have "suffix ps popOrder" by (auto simp: qinv_def scans_ok_def intro: suffix_ConsD)
    then show ?case using pop_scan_miss by (intro qinv_calls) auto
  next
    case (pop_block s k)
    then show ?case by (intro qinv_calls) (auto simp: waiting_empty_iff try_recv_None)
  qed (auto intro: qinv_push qinv_handoff qinv_recv qinv_calls)
qed

text \<open>Everything accepted has been returned or still waits.\<close>

lemma mset_of_prio:
  assumes "\<forall>r \<in> set rs. rq_Priority r \<in> set popOrder"
  shows "mset rs = mset (of_prio PriorityHigh rs) + mset (of_prio PriorityNormal rs) + mset (of_prio PriorityLow rs)"
  using assms by (induction rs) (auto simp: set_popOrder)

lemma qinv_mset:
  assumes "qinv c s"
  shows "mset (accepted s) = mset (map snd (returned s)) + mset (waiting (queue s))"
  using assms mset_of_prio [of "accepted s"] mset_of_prio [of "map snd (returned s)"]
  unfolding qinv_def fifo_def known_prios_def waiting_def set_popOrder mset_append
  by (simp add: ac_simps del: mset_map mset_filter)

section \<open>What a step does to the calls\<close>

text \<open>A push, accepted or not, as the pushing goroutine and the pool see it.\<close>

lemma qstep_push:
  assumes "qstep s (QPush r ok) t"
  shows "accepted t = accepted s @ (if ok then [r] else [])"
    and "calls t = calls s \<or> ok \<and> (\<exists>k. calls s k = Some Blocked \<and> calls t = (calls s)(k \<mapsto> Returned (Some r)))"
  using assms by (cases; auto simp: finish_pop_def)+

definition unreturned_call :: "pop_call \<Rightarrow> bool" where
  "unreturned_call x \<longleftrightarrow> (\<forall>y. x \<noteq> Returned y)"

lemma unreturned_call_simps [simp]:
  "unreturned_call (Scan ps)" "unreturned_call Blocked" "\<not> unreturned_call (Returned y)"
  by (simp_all add: unreturned_call_def)

lemma qstep_pop:
  assumes "qstep s e t" and "e = QMiss k \<or> e = QBlock k \<or> (\<exists>p. e = QRecv k p) \<or> e = QCancel k"
  shows "accepted t = accepted s"
    and "\<exists>x y. calls s k = Some x \<and> unreturned_call x \<and> calls t = (calls s)(k \<mapsto> y) \<and>
      (y = Returned None \<longrightarrow> e = QCancel k)"
  using assms by (auto elim!: qstep.cases simp: finish_pop_def)

lemma qstep_call: "qstep s (QCall k) t \<longleftrightarrow> calls s k = None \<and> t = s\<lparr>calls := (calls s)(k \<mapsto> Scan popOrder)\<rparr>"
  by (auto elim: qstep.cases intro: qstep.intros)

text \<open>If the ids of accepted requests differ, no request is returned twice.\<close>

lemma returned_once:
  assumes "qinv c s" and "distinct (map rq_ID (accepted s))"
    and "calls s k = Some (Returned (Some r))" and "calls s k' = Some (Returned (Some r'))" and "rq_ID r = rq_ID r'"
  shows "k = k'"
proof -
  have "mset (map rq_ID (accepted s)) = mset (map rq_ID (map snd (returned s)) @ map rq_ID (waiting (queue s)))"
    unfolding mset_map mset_append qinv_mset [OF assms(1)] by simp
  then have "distinct (map rq_ID (map snd (returned s)) @ map rq_ID (waiting (queue s)))"
    using assms(2) by (metis mset_eq_imp_distinct_iff)
  then have "distinct (map (\<lambda>x. rq_ID (snd x)) (returned s))" by (simp add: comp_def)
  moreover have "(k, r) \<in> set (returned s)" "(k', r') \<in> set (returned s)"
    using assms(1,3,4) by (auto simp: qinv_def delivered_def)
  ultimately have "(k, r) = (k', r')" using assms(5) by (metis (mono_tags, lifting) distinct_map inj_onD snd_conv)
  then show ?thesis by simp
qed

lemma returned_accepted:
  assumes "qinv c s" and "calls s k = Some (Returned (Some r))"
  shows "r \<in> set (accepted s)"
proof -
  have "(k, r) \<in> set (returned s)" using assms by (simp add: qinv_def delivered_def)
  then have "r \<in># mset (map snd (returned s)) + mset (waiting (queue s))" by force
  then show ?thesis using qinv_mset [OF assms(1)] by (metis set_mset_mset)
qed

section \<open>Properties\<close>

text \<open>
  C11: No request is lost, duplicated or reordered. However pushes, pops and cancellations of
  any number of goroutines interleave, for each priority the requests accepted so far
  are, in order, those already returned by pops followed by those still waiting in the
  lane; each returning call returned exactly one of them; no lane exceeds its
  capacity; and no call is blocked while anything waits.
\<close>

theorem queue_interleaved_fifo:
  assumes "reach (qstart c) qstep s"
  shows "(\<forall>p \<in> {PriorityHigh, PriorityNormal, PriorityLow}.
      of_prio p (accepted s) = of_prio p (map snd (returned s)) @ lane_content (queue s) p \<and>
      length (lane_content (queue s) p) \<le> c) \<and>
    mset (accepted s) = mset (map snd (returned s)) + mset (waiting (queue s)) \<and>
    distinct (map fst (returned s)) \<and>
    (\<forall>k r. calls s k = Some (Returned (Some r)) \<longleftrightarrow> (k, r) \<in> set (returned s)) \<and>
    (\<forall>k. calls s k = Some Blocked \<longrightarrow> waiting (queue s) = [])"
proof -
  have inv: "qinv c s" by (rule qsystem.reach_inv [OF assms])
  then have wf: "queue_wf c (queue s)" by (simp add: qinv_def)
  have "mset (accepted s) = mset (map snd (returned s)) + mset (waiting (queue s))" by (rule qinv_mset [OF inv])
  then show ?thesis
    using inv queue_wf_content(2) [OF wf]
    by (auto simp: qinv_def fifo_def delivered_def no_lost_wakeup_def set_popOrder)
qed

definition demo_empty :: qsys where
  "demo_empty = \<lparr>queue = (case Queue_New 1 of Inr q \<Rightarrow> q | Inl _ \<Rightarrow> \<lparr>lanes = Map.empty\<rparr>),
     calls = Map.empty, accepted = [], returned = []\<rparr>"

lemma demo_empty_start: "qstart 1 demo_empty"
  by (simp add: qstart_def demo_empty_def Queue_New_def Let_def)

abbreviation demo_high :: Request where
  "demo_high \<equiv> demo_req ''h'' PriorityHigh"

abbreviation demo_normal :: Request where
  "demo_normal \<equiv> demo_req ''n'' PriorityNormal"

definition demo_called :: qsys where
  "demo_called = demo_empty\<lparr>calls := [0 \<mapsto> Scan [PriorityNormal, PriorityLow]]\<rparr>"

definition demo_pushed :: qsys where
  "demo_pushed = demo_called\<lparr>
     queue := snd (TryPush (snd (TryPush (queue demo_empty) demo_high)) demo_normal),
     accepted := [demo_high, demo_normal]\<rparr>"

definition demo_inverted :: qsys where
  "demo_inverted = finish_pop demo_pushed 0 demo_normal (snd (TryPush (queue demo_empty) demo_high))"

lemma demo_called_run: "run qstep demo_empty [QCall 0, QMiss 0] demo_called"
proof -
  have "qstep demo_empty (QCall 0) (demo_empty\<lparr>calls := [0 \<mapsto> Scan popOrder]\<rparr>)"
    using pop_call [of demo_empty 0] by (simp add: demo_empty_def)
  moreover have "qstep (demo_empty\<lparr>calls := [0 \<mapsto> Scan popOrder]\<rparr>) (QMiss 0) demo_called"
    using pop_scan_miss [of "demo_empty\<lparr>calls := [0 \<mapsto> Scan popOrder]\<rparr>" 0 PriorityHigh "[PriorityNormal, PriorityLow]"]
    by (simp add: popOrder_def demo_called_def try_recv_def demo_empty_def Queue_New_def Let_def)
  ultimately show ?thesis by (auto simp: run_Cons_iff)
qed

lemma demo_pushed_run: "run qstep demo_called [QPush demo_high True, QPush demo_normal True] demo_pushed"
proof -
  let ?m = "demo_called\<lparr>queue := snd (TryPush (queue demo_empty) demo_high), accepted := [demo_high]\<rparr>"
  have "qstep demo_called (QPush demo_high True) ?m"
    using push_buffered [of demo_called demo_high True "snd (TryPush (queue demo_empty) demo_high)"]
    by (simp add: demo_called_def demo_empty_def Queue_New_def Let_def TryPush_def demo_req_def)
  moreover have "qstep ?m (QPush demo_normal True) demo_pushed"
    using push_buffered [of ?m demo_normal True "queue demo_pushed"]
    by (simp add: demo_pushed_def demo_called_def demo_empty_def Queue_New_def Let_def TryPush_def demo_req_def)
  ultimately show ?thesis by (auto simp: run_Cons_iff)
qed

lemma demo_inverted_run: "run qstep demo_pushed [QRecv 0 PriorityNormal] demo_inverted"
proof -
  have "qstep demo_pushed (QRecv 0 PriorityNormal) demo_inverted"
    using pop_scan_hit [of demo_pushed 0 PriorityNormal "[PriorityLow]" demo_normal "snd (TryPush (queue demo_empty) demo_high)"]
    by (auto simp: demo_inverted_def demo_pushed_def demo_called_def demo_empty_def Queue_New_def Let_def
        TryPush_def try_recv_def demo_req_def fun_eq_iff)
  then show ?thesis by (auto simp: run_Cons_iff)
qed

lemma demo_called_reach: "reach (qstart 1) qstep demo_called"
  using reach_run [OF demo_called_run] reach.reach_start [of "qstart 1", OF demo_empty_start] by blast

theorem queue_interleaved_fifo_witness:
  "accepted demo_inverted = [demo_high, demo_normal] \<and> returned demo_inverted = [(0, demo_normal)] \<and>
   of_prio PriorityNormal (accepted demo_inverted) =
     of_prio PriorityNormal (map snd (returned demo_inverted)) @ lane_content (queue demo_inverted) PriorityNormal \<and>
   mset (accepted demo_inverted) = mset (map snd (returned demo_inverted)) + mset (waiting (queue demo_inverted))"
proof -
  have "reach (qstart 1) qstep demo_inverted"
    using reach_run [OF demo_inverted_run] reach_run [OF demo_pushed_run demo_called_reach] by blast
  note fifo = queue_interleaved_fifo [OF this]
  have "accepted demo_inverted = [demo_high, demo_normal]" "returned demo_inverted = [(0, demo_normal)]"
    by (simp_all add: demo_inverted_def finish_pop_def demo_pushed_def demo_called_def demo_empty_def)
  then show ?thesis using fifo by simp
qed

text \<open>
  C39: Priority is not strict under concurrency. There is a run of two pushes and one pop in
  which the pop returns a normal request although a high-priority request was accepted
  before it and is still waiting: it arrived after the call had found the high lane empty.
\<close>

theorem priority_inversion_possible:
  "\<exists>s t. reach (qstart 1) qstep s \<and> qstep s (QRecv 0 PriorityNormal) t \<and>
     lane_content (queue s) PriorityHigh \<noteq> [] \<and> lane_content (queue t) PriorityHigh \<noteq> [] \<and>
     (\<exists>r. calls t 0 = Some (Returned (Some r)) \<and> rq_Priority r = PriorityNormal \<and>
       accepted t = lane_content (queue t) PriorityHigh @ [r])"
proof (intro exI conjI)
  show "reach (qstart 1) qstep demo_pushed" using reach_run [OF demo_pushed_run demo_called_reach] .
  show "qstep demo_pushed (QRecv 0 PriorityNormal) demo_inverted"
    using demo_inverted_run by (simp add: run_Cons_iff)
qed (simp_all add: demo_inverted_def finish_pop_def demo_pushed_def demo_called_def demo_empty_def Queue_New_def
    Let_def TryPush_def lane_content_def demo_req_def)

end
