(* ===== verification/Stream_Pump.thy ===== *)
theory Stream_Pump
  imports Dispatcher
begin

text \<open>
  The streaming path between the dispatcher and the gateway: \<^verbatim>\<open>streamBody\<close> sends the chunks
  on the request's channel, which holds 16, the dispatcher closes it at the end, and the
  gateway's loop in \<^verbatim>\<open>streamResponse\<close> receives until it is closed and empty. A gateway
  that has given up waiting never receives.
\<close>

section \<open>The channel\<close>

definition chunksCap :: nat where
  "chunksCap = 16"

record pump =
  pm_rest :: "bytes list"
  pm_chan :: "bytes list"
  pm_closed :: bool
  pm_reading :: bool
  pm_out :: "bytes list"
  pm_done :: bool

definition pump_start :: "bool \<Rightarrow> bytes list \<Rightarrow> pump \<Rightarrow> bool" where
  "pump_start reading chunks s \<longleftrightarrow>
     s = \<lparr>pm_rest = chunks, pm_chan = [], pm_closed = False, pm_reading = reading, pm_out = [], pm_done = False\<rparr>"

datatype pump_event = PSend | PClose | PRecv | PEnd

inductive pump_step :: "pump \<Rightarrow> pump_event \<Rightarrow> pump \<Rightarrow> bool" where
  send: "\<lbrakk>pm_rest s = c # cs; length (pm_chan s) < chunksCap; \<not> pm_closed s\<rbrakk> \<Longrightarrow>
    pump_step s PSend (s\<lparr>pm_rest := cs, pm_chan := pm_chan s @ [c]\<rparr>)"
| closing: "\<lbrakk>pm_rest s = []; \<not> pm_closed s\<rbrakk> \<Longrightarrow> pump_step s PClose (s\<lparr>pm_closed := True\<rparr>)"
| recv: "\<lbrakk>pm_reading s; \<not> pm_done s; pm_chan s = c # cs\<rbrakk> \<Longrightarrow>
    pump_step s PRecv (s\<lparr>pm_chan := cs, pm_out := pm_out s @ [c]\<rparr>)"
| ended: "\<lbrakk>pm_reading s; \<not> pm_done s; pm_chan s = []; pm_closed s\<rbrakk> \<Longrightarrow> pump_step s PEnd (s\<lparr>pm_done := True\<rparr>)"

inductive_cases pump_stepE: "pump_step s e t"

definition pump_inv :: "bool \<Rightarrow> bytes list \<Rightarrow> pump \<Rightarrow> bool" where
  "pump_inv reading chunks s \<longleftrightarrow>
     pm_out s @ pm_chan s @ pm_rest s = chunks \<and> length (pm_chan s) \<le> chunksCap \<and>
     (pm_closed s \<longrightarrow> pm_rest s = []) \<and> (pm_done s \<longrightarrow> pm_closed s \<and> pm_chan s = []) \<and>
     pm_reading s = reading \<and> (\<not> reading \<longrightarrow> pm_out s = [])"

interpretation pumpsys: inductive_invariant "pump_start reading chunks" pump_step "pump_inv reading chunks"
  for reading chunks
proof unfold_locales
  show "pump_inv reading chunks s" if "pump_start reading chunks s" for s
    using that by (auto simp: pump_start_def pump_inv_def)
  show "pump_inv reading chunks t" if "pump_inv reading chunks s" "pump_step s e t" for s e t
    using that(2,1) by (induction rule: pump_step.induct) (auto simp: pump_inv_def)
qed

text \<open>Steps left: two for every chunk not yet sent, one for every chunk in the channel, closing, ending.\<close>

definition pump_left :: "pump \<Rightarrow> nat" where
  "pump_left s = 2 * length (pm_rest s) + length (pm_chan s) +
     (if pm_closed s then 0 else 1) + (if pm_done s then 0 else 1)"

lemma pump_step_decreases: "pump_step s e t \<Longrightarrow> pump_left t < pump_left s"
  by (induction rule: pump_step.induct) (auto simp: pump_left_def)

lemma pump_progress:
  assumes "pump_inv True chunks s" and "\<not> pm_done s"
  shows "\<exists>e t. pump_step s e t"
proof (cases "pm_chan s")
  case Nil
  then show ?thesis
    using assms pump_step.send [of s] pump_step.closing [of s] pump_step.ended [of s]
    by (cases "pm_rest s"; cases "pm_closed s") (auto simp: pump_inv_def chunksCap_def)
next
  case (Cons c cs)
  then show ?thesis using assms pump_step.recv [of s c cs] by (auto simp: pump_inv_def)
qed

section \<open>Properties\<close>

text \<open>
  A stream that is read is delivered. While the gateway reads, what the client got so far
  is a prefix of the chunks, in order, and the channel never holds more than 16; the
  system never gets stuck before the end; every run is finite, at most two steps per
  chunk and two more; and when the gateway's loop ends the client has all the chunks.
\<close>

theorem stream_delivered:
  assumes "reach (pump_start True chunks) pump_step s"
  shows "(\<exists>later. chunks = pm_out s @ later) \<and> length (pm_chan s) \<le> 16 \<and>
    (pm_done s \<longrightarrow> pm_out s = chunks) \<and>
    (\<not> pm_done s \<longrightarrow> (\<exists>e t. pump_step s e t)) \<and>
    (\<forall>es t. run pump_step s es t \<longrightarrow> length es \<le> 2 * length chunks + 2)"
proof -
  have inv: "pump_inv True chunks s" by (rule pumpsys.reach_inv [OF assms])
  have shorter: "length es + pump_left t \<le> pump_left u" if "run pump_step u es t" for u es t
    using that by (induction rule: run.induct) (auto dest: pump_step_decreases)
  have "chunks = pm_out s @ pm_chan s @ pm_rest s" using inv by (simp add: pump_inv_def)
  then have "length chunks = length (pm_out s) + length (pm_chan s) + length (pm_rest s)" by simp
  then have "pump_left s \<le> 2 * length chunks + 2" by (simp add: pump_left_def)
  then have "length es \<le> 2 * length chunks + 2" if "run pump_step s es t" for es t
    using shorter [OF that] by simp
  moreover have "\<exists>later. chunks = pm_out s @ later" using inv by (auto simp: pump_inv_def)
  moreover have "pm_done s \<longrightarrow> pm_out s = chunks" "length (pm_chan s) \<le> 16"
    using inv by (auto simp: pump_inv_def chunksCap_def)
  ultimately show ?thesis using pump_progress [OF inv] by blast
qed

definition demo_pump :: "bool \<Rightarrow> pump" where
  "demo_pump reading = \<lparr>pm_rest = replicate 17 ''x'', pm_chan = [], pm_closed = False, pm_reading = reading,
     pm_out = [], pm_done = False\<rparr>"

lemma demo_pump_start: "pump_start reading (replicate 17 ''x'') (demo_pump reading)"
  by (simp add: pump_start_def demo_pump_def)

theorem stream_delivered_witness: "\<exists>e t. pump_step (demo_pump True) e t"
  using stream_delivered [OF reach.reach_start [of "pump_start True (replicate 17 ''x'')", OF demo_pump_start]]
  by (simp add: demo_pump_def)

text \<open>
  C40: A stream nobody reads blocks its dispatcher for ever. If the gateway has timed out before
  the dispatcher commits and the response has more than 16 chunks, then in no reachable
  state is the channel closed, so the dispatcher's goroutine never gets past this
  request; and the state in which it waits with a full channel has no further step.
\<close>

theorem abandoned_stream_blocks_dispatcher:
  assumes "reach (pump_start False chunks) pump_step s" and "16 < length chunks"
  shows "\<not> pm_closed s \<and> pm_out s = [] \<and> (length (pm_chan s) = 16 \<longrightarrow> (\<nexists>e t. pump_step s e t)) \<and>
    (\<exists>es t. run pump_step s es t \<and> length (pm_chan t) = 16)"
proof -
  have inv: "pump_inv False chunks s" by (rule pumpsys.reach_inv [OF assms(1)])
  have open_: "\<not> pm_closed u \<and> pm_rest u \<noteq> [] \<and> \<not> pm_reading u" if "pump_inv False chunks u" for u
  proof -
    have "length (pm_chan u) + length (pm_rest u) = length chunks" using that by (auto simp: pump_inv_def)
    then show ?thesis using that assms(2) by (auto simp: pump_inv_def chunksCap_def)
  qed
  have fill: "\<exists>es t. run pump_step u es t \<and> length (pm_chan t) = 16"
    if "pump_inv False chunks u" "length (pm_chan u) + n = 16" for n u
    using that
  proof (induction n arbitrary: u)
    case 0
    then show ?case using run.run_Nil by fastforce
  next
    case (Suc n)
    obtain c cs where c: "pm_rest u = c # cs" using open_ [OF Suc.prems(1)] by (metis neq_Nil_conv)
    let ?v = "u\<lparr>pm_rest := cs, pm_chan := pm_chan u @ [c]\<rparr>"
    have st: "pump_step u PSend ?v"
      using pump_step.send [OF c] Suc.prems open_ [OF Suc.prems(1)] by (simp add: chunksCap_def)
    have "pump_inv False chunks ?v" using pumpsys.step_inv [OF Suc.prems(1) st] .
    then obtain es t where "run pump_step ?v es t" "length (pm_chan t) = 16" using Suc.IH [of ?v] Suc.prems(2) by auto
    then show ?case using run.run_Cons [of pump_step, OF st] by blast
  qed
  have "length (pm_chan s) + (16 - length (pm_chan s)) = 16" using inv by (simp add: pump_inv_def chunksCap_def)
  then have "\<exists>es t. run pump_step s es t \<and> length (pm_chan t) = 16" using fill [OF inv] by blast
  moreover have "\<nexists>e t. pump_step s e t" if "length (pm_chan s) = 16"
    using open_ [OF inv] that by (auto simp: chunksCap_def elim!: pump_stepE)
  ultimately show ?thesis using open_ [OF inv] inv by (auto simp: pump_inv_def)
qed

theorem abandoned_stream_blocks_dispatcher_witness:
  "\<exists>es t. run pump_step (demo_pump False) es t \<and> length (pm_chan t) = 16"
  using abandoned_stream_blocks_dispatcher [OF reach.reach_start [of "pump_start False (replicate 17 ''x'')", OF demo_pump_start]]
  by simp

end
