(* ===== verification/Request_Plane.thy ===== *)
theory Request_Plane
  imports Gateway_Props Queue_Concurrency Stream_Pump
begin

text \<open>
  The request plane as one system: any number of clients, each a goroutine in the gateway's
  \<^verbatim>\<open>handleInference\<close>, the pool of goroutines in the dispatcher's \<^verbatim>\<open>workerLoop\<close>, the queue between
  them, and the channels of each request on which its result and its chunks come back
  (\<^verbatim>\<open>gateway.go\<close>, \<^verbatim>\<open>queue.go\<close>, \<^verbatim>\<open>dispatcher.go\<close>).

  A handler is cut at every access to what it shares: the rate limiter, the queue's lengths
  and the tracker, the id counter, the push, the receive of the result, each receive of a
  chunk, the metrics hook. A pool goroutine is cut at every receive of \<^verbatim>\<open>Pop\<close>, at the send of the
  result, at each send of a chunk and at the close. The pieces put together without anything
  in between are the handler of \<open>Gateway\<close> (\<open>admit_pieces\<close>, \<open>finish_pieces\<close>).

  The channels of a request are named by its id. Ids come from a 64-bit counter; the model
  covers runs with fewer than \<open>2 ^ 64\<close> requests, so that they do not repeat.
\<close>

section \<open>Clients\<close>

text \<open>What a handler leaves behind: the request it queued, the result it received, what it reports and answers.\<close>

record answer =
  an_req :: "Request option"
  an_result :: "Result option"
  an_model :: string
  an_success :: bool
  an_response :: response
  an_panic :: "panic option"

datatype cphase =
    CArrived
  | CParsed bytes string bool string
  | CEstimated bytes string bool string "duration option"
  | CNumbered Request "duration option"
  | CWaiting Request response
  | CStreaming Request Result response
  | CReporting answer
  | CDone answer

record client =
  cl_http :: http_request
  cl_phase :: cphase

definition refusal :: "string \<Rightarrow> response \<Rightarrow> answer" where
  "refusal model w =
     \<lparr>an_req = None, an_result = None, an_model = model, an_success = False, an_response = w, an_panic = None\<rparr>"

text \<open>Method, key and rate limit, body.\<close>

definition client_begin :: "(bytes \<Rightarrow> json option) \<Rightarrow> time \<Rightarrow> Gateway \<Rightarrow> http_request \<Rightarrow> cphase \<times> Gateway" where
  "client_begin parse now g r =
     (let w = new_response
      in if Method r \<noteq> ''POST'' then (CReporting (refusal '''' (http_Error ''method not allowed'' 405 w)), g)
         else
           case authenticate now g r w of
             (Inl w', g') \<Rightarrow> (CReporting (refusal '''' w'), g')
           | (Inr keyID, g') \<Rightarrow>
               (case Body r of
                  None \<Rightarrow> (CReporting (refusal '''' (http_Error ''failed to read request body'' 400 w)), g')
                | Some body \<Rightarrow>
                    (case Option.bind (parse body) unmarshal_payload of
                       None \<Rightarrow> (CReporting (refusal '''' (http_Error ''request body must contain a valid 'model' field'' 400 w)), g')
                     | Some (model, stream) \<Rightarrow>
                         if model = ''''
                         then (CReporting (refusal '''' (http_Error ''request body must contain a valid 'model' field'' 400 w)), g')
                         else (CParsed body model stream keyID, g'))))"

definition client_estimate :: "Gateway \<Rightarrow> http_request \<Rightarrow> bytes \<Rightarrow> string \<Rightarrow> bool \<Rightarrow> string \<Rightarrow> cphase" where
  "client_estimate g r body model stream keyID =
     (let priority = parsePriority r;
          est = estimate_wait g model priority
      in if backpressure_rejects g priority est
         then CReporting (refusal model (rejected_wait priority (the est) new_response))
         else CEstimated body model stream keyID est)"

definition client_number ::
  "time \<Rightarrow> Gateway \<Rightarrow> http_request \<Rightarrow> bytes \<Rightarrow> string \<Rightarrow> bool \<Rightarrow> string \<Rightarrow> duration option \<Rightarrow> cphase \<times> Gateway" where
  "client_number now g r body model stream keyID est =
     (CNumbered (new_request g body model (parsePriority r) stream keyID now) est, g\<lparr>idCounter := idCounter g + 1\<rparr>)"

definition client_pushed :: "bool \<Rightarrow> Request \<Rightarrow> duration option \<Rightarrow> cphase" where
  "client_pushed ok req est =
     (if \<not> ok then CReporting (refusal (rq_Model req) (http_Error ''request queue full, try again later'' 503 new_response))
      else CWaiting req (estimate_header est new_response))"

definition client_result ::
  "(dispatch_error \<Rightarrow> string) \<Rightarrow> time \<Rightarrow> Gateway \<Rightarrow> Request \<Rightarrow> response \<Rightarrow> Result \<Rightarrow> cphase \<times> Gateway" where
  "client_result err_text now g req w result =
     (let (g', w') = record_wait g req now w;
          answer = \<lparr>an_req = Some req, an_result = Some result, an_model = rq_Model req,
                    an_success = is_success result, an_response = w', an_panic = None\<rparr>
      in (case rs_Err result of
            Some e \<Rightarrow> CReporting (answer\<lparr>an_success := False, an_response := http_Error (err_text e) 502 w'\<rparr>)
          | None \<Rightarrow>
              if Streaming result
              then (case streamResponse w' result [] of
                      Inl p \<Rightarrow> CReporting (answer\<lparr>an_panic := Some p\<rparr>)
                    | Inr w'' \<Rightarrow> CStreaming req result w'')
              else (case bufferedResponse w' result of
                      Inl p \<Rightarrow> CReporting (answer\<lparr>an_panic := Some p\<rparr>)
                    | Inr w'' \<Rightarrow> CReporting (answer\<lparr>an_response := w''\<rparr>)),
          g'))"

definition client_timeout :: "Request \<Rightarrow> response \<Rightarrow> cphase" where
  "client_timeout req w =
     CReporting \<lparr>an_req = Some req, an_result = None, an_model = rq_Model req, an_success = False,
       an_response = http_Error ''request timed out waiting for dispatch'' 504 w, an_panic = None\<rparr>"

definition client_streamed :: "Request \<Rightarrow> Result \<Rightarrow> response \<Rightarrow> cphase" where
  "client_streamed req result w =
     CReporting \<lparr>an_req = Some req, an_result = Some result, an_model = rq_Model req, an_success = is_success result,
       an_response = w, an_panic = None\<rparr>"

section \<open>Channels and the pool\<close>

text \<open>
  The channels of one request: the result channel (which holds one result), the chunk channel
  and whether it is closed. \<open>wr_sent\<close> and \<open>wr_got\<close> record what the dispatcher sent and which
  chunks the gateway has received.
\<close>

record wires =
  wr_result :: "Result option"
  wr_chunks :: "bytes list"
  wr_closed :: bool
  wr_sent :: "(Result \<times> bytes list) option"
  wr_got :: "bytes list"

definition fresh_wires :: wires where
  "fresh_wires = \<lparr>wr_result = None, wr_chunks = [], wr_closed = False, wr_sent = None, wr_got = []\<rparr>"

datatype goroutine =
    Looping
  | Popping nat
  | Serving nat Request
  | Pumping nat Request "bytes list"
  | Exited
  | Panicked panic

record plane =
  pl_gateway :: Gateway
  pl_q :: qsys
  pl_clients :: "nat \<rightharpoonup> client"
  pl_pool :: "nat \<Rightarrow> goroutine"
  pl_wires :: "string \<Rightarrow> wires"
  pl_cancelled :: bool

text \<open>The gateway reads the queue as it is now.\<close>

definition gateway_now :: "plane \<Rightarrow> Gateway" where
  "gateway_now s = (pl_gateway s)\<lparr>g_queue := queue (pl_q s)\<rparr>"

definition set_client :: "plane \<Rightarrow> nat \<Rightarrow> client \<Rightarrow> cphase \<Rightarrow> plane" where
  "set_client s i c ph = s\<lparr>pl_clients := (pl_clients s)(i \<mapsto> c\<lparr>cl_phase := ph\<rparr>)\<rparr>"

definition set_pool :: "plane \<Rightarrow> nat \<Rightarrow> goroutine \<Rightarrow> plane" where
  "set_pool s j x = s\<lparr>pl_pool := (pl_pool s)(j := x)\<rparr>"

definition set_wires :: "plane \<Rightarrow> Request \<Rightarrow> (wires \<Rightarrow> wires) \<Rightarrow> plane" where
  "set_wires s req f = s\<lparr>pl_wires := (pl_wires s)(rq_ID req := f (pl_wires s (rq_ID req)))\<rparr>"

abbreviation wires_of :: "plane \<Rightarrow> Request \<Rightarrow> wires" where
  "wires_of s req \<equiv> pl_wires s (rq_ID req)"

section \<open>Steps\<close>

datatype plane_event =
    PArrive nat | PBegin nat | PEstimate nat | PNumber nat | PPush nat | PResult nat | PTimeout nat
  | PChunk nat | PStreamed nat | PReport nat
  | PCall nat | PPop nat qevent | PTake nat | PDispatch nat | PSendChunk nat | PCloseChunks nat | PExit nat
  | PCancel

inductive plane_step ::
  "(bytes \<Rightarrow> json option) \<Rightarrow> (json \<Rightarrow> bytes) \<Rightarrow> (dispatch_error \<Rightarrow> string) \<Rightarrow> Dispatcher \<Rightarrow>
     plane \<Rightarrow> plane_event \<Rightarrow> plane \<Rightarrow> bool"
  for parse render err_text d where
  p_arrive: "pl_clients s i = None \<Longrightarrow>
    plane_step parse render err_text d s (PArrive i)
      (s\<lparr>pl_clients := (pl_clients s)(i \<mapsto> \<lparr>cl_http = r, cl_phase = CArrived\<rparr>)\<rparr>)"
| p_begin: "\<lbrakk>pl_clients s i = Some c; cl_phase c = CArrived; client_begin parse now (pl_gateway s) (cl_http c) = (ph, g')\<rbrakk> \<Longrightarrow>
    plane_step parse render err_text d s (PBegin i) ((set_client s i c ph)\<lparr>pl_gateway := g'\<rparr>)"
| p_estimate: "\<lbrakk>pl_clients s i = Some c; cl_phase c = CParsed body model stream keyID\<rbrakk> \<Longrightarrow>
    plane_step parse render err_text d s (PEstimate i)
      (set_client s i c (client_estimate (gateway_now s) (cl_http c) body model stream keyID))"
| p_number: "\<lbrakk>pl_clients s i = Some c; cl_phase c = CEstimated body model stream keyID est;
      unat (idCounter (pl_gateway s)) + 1 < 2 ^ 64;
      client_number now (pl_gateway s) (cl_http c) body model stream keyID est = (ph, g')\<rbrakk> \<Longrightarrow>
    plane_step parse render err_text d s (PNumber i) ((set_client s i c ph)\<lparr>pl_gateway := g'\<rparr>)"
| p_push: "\<lbrakk>pl_clients s i = Some c; cl_phase c = CNumbered req est; qstep (pl_q s) (QPush req ok) q'\<rbrakk> \<Longrightarrow>
    plane_step parse render err_text d s (PPush i) ((set_client s i c (client_pushed ok req est))\<lparr>pl_q := q'\<rparr>)"
| p_result: "\<lbrakk>pl_clients s i = Some c; cl_phase c = CWaiting req w; wr_result (wires_of s req) = Some result;
      client_result err_text now (pl_gateway s) req w result = (ph, g')\<rbrakk> \<Longrightarrow>
    plane_step parse render err_text d s (PResult i)
      ((set_wires (set_client s i c ph) req (wr_result_update (\<lambda>_. None)))\<lparr>pl_gateway := g'\<rparr>)"
| p_timeout: "\<lbrakk>pl_clients s i = Some c; cl_phase c = CWaiting req w\<rbrakk> \<Longrightarrow>
    plane_step parse render err_text d s (PTimeout i) (set_client s i c (client_timeout req w))"
| p_chunk: "\<lbrakk>pl_clients s i = Some c; cl_phase c = CStreaming req result w; wr_chunks (wires_of s req) = x # xs\<rbrakk> \<Longrightarrow>
    plane_step parse render err_text d s (PChunk i)
      (set_wires (set_client s i c (CStreaming req result (write_body x w))) req
        (\<lambda>v. v\<lparr>wr_chunks := xs, wr_got := wr_got v @ [x]\<rparr>))"
| p_streamed: "\<lbrakk>pl_clients s i = Some c; cl_phase c = CStreaming req result w; wr_chunks (wires_of s req) = [];
      wr_closed (wires_of s req)\<rbrakk> \<Longrightarrow>
    plane_step parse render err_text d s (PStreamed i) (set_client s i c (client_streamed req result w))"
| p_report: "\<lbrakk>pl_clients s i = Some c; cl_phase c = CReporting a\<rbrakk> \<Longrightarrow>
    plane_step parse render err_text d s (PReport i)
      ((set_client s i c (CDone a))\<lparr>pl_gateway := gateway_hook (an_model a) (an_success a) (pl_gateway s)\<rparr>)"
| p_call: "\<lbrakk>pl_pool s j = Looping; qstep (pl_q s) (QCall k) q'\<rbrakk> \<Longrightarrow>
    plane_step parse render err_text d s (PCall j) ((set_pool s j (Popping k))\<lparr>pl_q := q'\<rparr>)"
| p_pop: "\<lbrakk>pl_pool s j = Popping k; e = QMiss k \<or> e = QBlock k \<or> (\<exists>p. e = QRecv k p) \<or> e = QCancel k \<and> pl_cancelled s;
      qstep (pl_q s) e q'\<rbrakk> \<Longrightarrow>
    plane_step parse render err_text d s (PPop j e) (s\<lparr>pl_q := q'\<rparr>)"
| p_take: "\<lbrakk>pl_pool s j = Popping k; calls (pl_q s) k = Some (Returned (Some req))\<rbrakk> \<Longrightarrow>
    plane_step parse render err_text d s (PTake j) (set_pool s j (Serving k req))"
| p_exit: "\<lbrakk>pl_pool s j = Popping k; calls (pl_q s) k = Some (Returned None)\<rbrakk> \<Longrightarrow>
    plane_step parse render err_text d s (PExit j) (set_pool s j Exited)"
| p_dispatch: "\<lbrakk>pl_pool s j = Serving k req; fst (dispatch parse render net d req) = Inr (result, chunks);
      wr_result (wires_of s req) = None\<rbrakk> \<Longrightarrow>
    plane_step parse render err_text d s (PDispatch j)
      (set_wires (set_pool s j (if rq_Stream req then Pumping k req chunks else Looping)) req
        (\<lambda>v. v\<lparr>wr_result := Some result, wr_sent := Some (result, chunks)\<rparr>))"
| p_panic: "\<lbrakk>pl_pool s j = Serving k req; fst (dispatch parse render net d req) = Inl p\<rbrakk> \<Longrightarrow>
    plane_step parse render err_text d s (PDispatch j) (set_pool s j (Panicked p))"
| p_send: "\<lbrakk>pl_pool s j = Pumping k req (x # xs); length (wr_chunks (wires_of s req)) < chunksCap\<rbrakk> \<Longrightarrow>
    plane_step parse render err_text d s (PSendChunk j)
      (set_wires (set_pool s j (Pumping k req xs)) req (\<lambda>v. v\<lparr>wr_chunks := wr_chunks v @ [x]\<rparr>))"
| p_close: "\<lbrakk>pl_pool s j = Pumping k req []; \<not> wr_closed (wires_of s req)\<rbrakk> \<Longrightarrow>
    plane_step parse render err_text d s (PCloseChunks j)
      (set_wires (set_pool s j Looping) req (wr_closed_update (\<lambda>_. True)))"
| p_cancel: "plane_step parse render err_text d s PCancel (s\<lparr>pl_cancelled := True\<rparr>)"

text \<open>The start: what \<^verbatim>\<open>main\<close> builds, with lanes of capacity \<open>cap\<close> and the pool's goroutines about to call \<^verbatim>\<open>Pop\<close>.\<close>

definition plane_start :: "nat \<Rightarrow> Dispatcher \<Rightarrow> plane \<Rightarrow> bool" where
  "plane_start cap d s \<longleftrightarrow>
     qstart cap (pl_q s) \<and> idCounter (pl_gateway s) = 0 \<and> g_hookCalls (pl_gateway s) = [] \<and>
     pl_clients s = Map.empty \<and> pl_pool s = (\<lambda>j. if j < nat (concurrency d) then Looping else Exited) \<and>
     pl_wires s = (\<lambda>_. fresh_wires) \<and> \<not> pl_cancelled s"

section \<open>The pieces make up the handler\<close>

definition admission_of :: "cphase \<Rightarrow> Gateway \<Rightarrow> admission \<times> Gateway" where
  "admission_of ph g =
     (case ph of
        CReporting a \<Rightarrow> (Rejected (an_response a) (an_model a), g)
      | CWaiting req w \<Rightarrow> (Enqueued req w, g)
      | _ \<Rightarrow> undefined)"

definition admit_rest :: "time \<Rightarrow> http_request \<Rightarrow> cphase \<times> Gateway \<Rightarrow> admission \<times> Gateway" where
  "admit_rest now r = (\<lambda>(ph, g).
     case ph of
       CParsed body model stream keyID \<Rightarrow>
         (case client_estimate g r body model stream keyID of
            CEstimated body model stream keyID est \<Rightarrow>
              (case client_number now g r body model stream keyID est of
                 (CNumbered req est, g') \<Rightarrow>
                   (let (ok, q') = TryPush (g_queue g') req in admission_of (client_pushed ok req est) (g'\<lparr>g_queue := q'\<rparr>)))
          | ph' \<Rightarrow> admission_of ph' g)
     | _ \<Rightarrow> admission_of ph g)"

lemma enqueue_pieces:
  "enqueue now g r body model stream keyID new_response = admit_rest now r (CParsed body model stream keyID, g)"
  by (simp add: enqueue_def admit_rest_def client_estimate_def client_number_def client_pushed_def admission_of_def
      refusal_def new_request_def Let_def split: prod.split)

lemma admit_pieces: "admit parse t1 t2 g r = admit_rest t2 r (client_begin parse t1 g r)"
  by (simp add: admit_def client_begin_def enqueue_pieces Let_def split: prod.split sum.split option.split)
     (simp add: admit_rest_def admission_of_def refusal_def)

definition gateway_result_of :: "answer \<Rightarrow> Gateway \<Rightarrow> gateway_result" where
  "gateway_result_of a g =
     \<lparr>gr_panic = an_panic a, gr_gateway = gateway_hook (an_model a) (an_success a) g, gr_response = an_response a\<rparr>"

definition finish_rest :: "bytes list \<Rightarrow> cphase \<times> Gateway \<Rightarrow> gateway_result" where
  "finish_rest chunks = (\<lambda>(ph, g).
     case ph of
       CStreaming req result w \<Rightarrow>
         (case client_streamed req result (fold write_body chunks w) of CReporting a \<Rightarrow> gateway_result_of a g)
     | CReporting a \<Rightarrow> gateway_result_of a g)"

lemma streamResponse_fold:
  "streamResponse w result chunks = map_sum id (fold write_body chunks) (streamResponse w result [])"
  by (simp add: streamResponse_def Let_def split: sum.split)

lemma finish_pieces:
  "finish err_text TimedOut g req w = finish_rest [] (client_timeout req w, g)"
  "finish err_text (ResultIn result now chunks) g req w =
     finish_rest chunks (client_result err_text now g req w result)"
  by (simp_all add: finish_def finish_rest_def client_timeout_def client_result_def gateway_result_of_def client_streamed_def
      streamResponse_fold [of _ result chunks] Let_def split: prod.split option.split sum.split)

end
