(* ===== verification/Request_Plane_Inv.thy ===== *)
theory Request_Plane_Inv
  imports Request_Plane
begin

text \<open>
  The invariant of the request plane, in four parts that each speak about a few components of
  the state: the ids of the requests (\<open>ids_ok\<close>), what a client in each phase knows
  (\<open>client_ok\<close>), the channels (\<open>wire_ok\<close>, \<open>sent_ok\<close>) and the pool (\<open>pool_ok\<close>). From it: every
  client gets the result of one dispatch of its own request, and no pool goroutine panics.
\<close>

section \<open>Requests and their ids\<close>

fun creq :: "cphase \<Rightarrow> Request option" where
  "creq (CNumbered r _) = Some r"
| "creq (CWaiting r _) = Some r"
| "creq (CStreaming r _ _) = Some r"
| "creq (CReporting a) = an_req a"
| "creq (CDone a) = an_req a"
| "creq _ = None"

definition requests :: "(nat \<rightharpoonup> client) \<Rightarrow> nat \<rightharpoonup> Request" where
  "requests C i = Option.bind (C i) (\<lambda>c. creq (cl_phase c))"

lemma requests_upd [simp]: "requests (C(i \<mapsto> c)) = (requests C)(i := creq (cl_phase c))"
  by (auto simp: requests_def fun_eq_iff)

lemma requests_client: "C i = Some c \<Longrightarrow> requests C i = creq (cl_phase c)"
  by (simp add: requests_def)

definition id_of :: "nat \<Rightarrow> string" where
  "id_of n = ''req-'' @ nat_digits n"

lemma id_of_inject [simp]: "id_of m = id_of n \<longleftrightarrow> m = n"
  by (auto simp: id_of_def) (metis digits_val_nat_digits)

definition ids_ok :: "64 word \<Rightarrow> (nat \<rightharpoonup> Request) \<Rightarrow> Request list \<Rightarrow> bool" where
  "ids_ok ctr R acc \<longleftrightarrow>
     (\<forall>i r. R i = Some r \<longrightarrow> (\<exists>n \<le> unat ctr. rq_ID r = id_of n)) \<and>
     (\<forall>i j r r'. R i = Some r \<longrightarrow> R j = Some r' \<longrightarrow> rq_ID r = rq_ID r' \<longrightarrow> i = j) \<and>
     set acc \<subseteq> ran R \<and> distinct (map rq_ID acc)"

lemma ids_ok_unique: "ids_ok ctr R acc \<Longrightarrow> R i = Some r \<Longrightarrow> R j = Some r' \<Longrightarrow> rq_ID r = rq_ID r' \<Longrightarrow> i = j"
  unfolding ids_ok_def by blast

lemma ids_ok_numbered: "ids_ok ctr R acc \<Longrightarrow> R i = Some r \<Longrightarrow> \<exists>n \<le> unat ctr. rq_ID r = id_of n"
  unfolding ids_ok_def by blast

lemma ids_ok_owner:
  assumes "ids_ok ctr R acc" and "r \<in> set acc"
  obtains i where "R i = Some r"
  using assms unfolding ids_ok_def ran_def by blast

lemma ids_ok_same:
  assumes "ids_ok ctr R acc" and "R i = Some r" and "r' \<in> set acc" and "rq_ID r = rq_ID r'"
  shows "r = r'"
proof -
  obtain j where "R j = Some r'" using ids_ok_owner assms(1,3) by blast
  then show ?thesis using ids_ok_unique [OF assms(1,2) _ assms(4)] assms(2) by auto
qed

lemma unat_Suc_counter: "unat (n :: 64 word) + 1 < 2 ^ 64 \<Longrightarrow> unat (n + 1) = unat n + 1"
  by (simp add: unat_word_ariths)

lemma ids_ok_number:
  assumes "ids_ok ctr R acc" and "R i = None" and "unat ctr + 1 < 2 ^ 64" and "rq_ID r = id_of (unat (ctr + 1))"
  shows "ids_ok (ctr + 1) (R(i \<mapsto> r)) acc"
proof -
  have ctr: "unat (ctr + 1) = unat ctr + 1" by (rule unat_Suc_counter [OF assms(3)])
  have new: "rq_ID r' \<noteq> rq_ID r" if "R j = Some r'" for j r'
  proof -
    from ids_ok_numbered [OF assms(1) that] obtain n where "n \<le> unat ctr" "rq_ID r' = id_of n" by blast
    then show ?thesis using assms(4) ctr by simp
  qed
  have "set acc \<subseteq> ran R" using assms(1) by (simp add: ids_ok_def)
  also have "ran R \<subseteq> ran (R(i \<mapsto> r))" using assms(2) by auto
  finally have "set acc \<subseteq> ran (R(i \<mapsto> r))" .
  moreover have "\<exists>n \<le> unat (ctr + 1). rq_ID r' = id_of n" if "(R(i \<mapsto> r)) j = Some r'" for j r'
  proof (cases "j = i")
    case True
    then show ?thesis using that assms(4) by auto
  next
    case False
    then have "R j = Some r'" using that by simp
    from ids_ok_numbered [OF assms(1) this] obtain n where "n \<le> unat ctr" "rq_ID r' = id_of n" by blast
    then show ?thesis using ctr by (intro exI [of _ n]) simp
  qed
  moreover have "j = k" if "(R(i \<mapsto> r)) j = Some a" "(R(i \<mapsto> r)) k = Some b" "rq_ID a = rq_ID b" for j k a b
    using that new ids_ok_unique [OF assms(1)] by (auto split: if_splits)
  ultimately show ?thesis using assms(1) unfolding ids_ok_def by blast
qed

lemma ids_ok_accept:
  assumes "ids_ok ctr R acc" and "R i = Some r" and "rq_ID r \<notin> rq_ID ` set acc"
  shows "ids_ok ctr R (acc @ [r])"
  using assms by (auto simp: ids_ok_def ran_def)

lemma ids_ok_drop:
  assumes "ids_ok ctr R acc" and "R i = Some r" and "rq_ID r \<notin> rq_ID ` set acc"
  shows "ids_ok ctr (R(i := None)) acc"
proof -
  have "set acc \<subseteq> ran (R(i := None))"
  proof
    fix x assume x: "x \<in> set acc"
    then obtain j where j: "R j = Some x" using ids_ok_owner [OF assms(1)] by blast
    then have "j \<noteq> i" using assms(2,3) x by auto
    then show "x \<in> ran (R(i := None))" using j by (auto simp: ran_def)
  qed
  then show ?thesis using assms(1) by (auto simp: ids_ok_def)
qed

section \<open>Clients\<close>

definition made_for :: "(bytes \<Rightarrow> json option) \<Rightarrow> http_request \<Rightarrow> Request \<Rightarrow> bool" where
  "made_for parse h r \<longleftrightarrow>
     Method h = ''POST'' \<and> has_payload parse h (rq_Body r) (rq_Model r) (rq_Stream r) \<and> rq_Priority r = parsePriority h"

text \<open>
  What an answer owes to the result it came from. (A status below 200 is informational: it is
  sent ahead, and the first write commits 200.)
\<close>

definition relays :: "answer \<Rightarrow> Result \<Rightarrow> bytes list \<Rightarrow> bool" where
  "relays a res chunks \<longleftrightarrow>
     (case rs_Err res of
        Some e \<Rightarrow> rstatus (an_response a) = Some 502 \<and> \<not> an_success a \<and> an_panic a = None
      | None \<Rightarrow> an_success a = is_success res \<and>
          (an_panic a = None \<longrightarrow> (200 \<le> StatusCode res \<longrightarrow> rstatus (an_response a) = Some (StatusCode res)) \<and>
             rbody (an_response a) = (if Streaming res then chunks else [rs_Body res])))"

definition answer_ok :: "(string \<Rightarrow> wires) \<Rightarrow> answer \<Rightarrow> bool" where
  "answer_ok W a \<longleftrightarrow>
     (case an_req a of
        None \<Rightarrow> an_result a = None \<and> \<not> an_success a \<and> an_panic a = None \<and>
          rstatus (an_response a) \<in> {Some 400, Some 401, Some 405, Some 429, Some 503}
      | Some r \<Rightarrow> an_model a = rq_Model r \<and>
          (case an_result a of
             None \<Rightarrow> \<not> an_success a \<and> an_panic a = None \<and> rstatus (an_response a) = Some 504
           | Some res \<Rightarrow>
               (\<exists>chunks. wr_sent (W (rq_ID r)) = Some (res, chunks) \<and> relays a res chunks) \<and>
               (rs_Err res = None \<and> Streaming res \<and> an_panic a = None \<longrightarrow> wr_closed (W (rq_ID r)))))"

fun client_ok ::
  "(bytes \<Rightarrow> json option) \<Rightarrow> Request list \<Rightarrow> (string \<Rightarrow> wires) \<Rightarrow> http_request \<Rightarrow> cphase \<Rightarrow> bool" where
  "client_ok parse acc W h CArrived \<longleftrightarrow> True"
| "client_ok parse acc W h (CParsed b m st key) \<longleftrightarrow> Method h = ''POST'' \<and> has_payload parse h b m st"
| "client_ok parse acc W h (CEstimated b m st key est) \<longleftrightarrow> Method h = ''POST'' \<and> has_payload parse h b m st"
| "client_ok parse acc W h (CNumbered r est) \<longleftrightarrow> made_for parse h r \<and> rq_ID r \<notin> rq_ID ` set acc"
| "client_ok parse acc W h (CWaiting r w) \<longleftrightarrow>
     made_for parse h r \<and> r \<in> set acc \<and> rstatus w = None \<and> rbody w = [] \<and> wr_got (W (rq_ID r)) = [] \<and>
     (\<forall>x. wr_sent (W (rq_ID r)) = Some x \<longrightarrow> wr_result (W (rq_ID r)) = Some (fst x))"
| "client_ok parse acc W h (CStreaming r res w) \<longleftrightarrow>
     made_for parse h r \<and> r \<in> set acc \<and> (\<exists>chunks. wr_sent (W (rq_ID r)) = Some (res, chunks)) \<and> Streaming res \<and>
     rs_Err res = None \<and> (200 \<le> StatusCode res \<longrightarrow> rstatus w = Some (StatusCode res)) \<and> rbody w = wr_got (W (rq_ID r))"
| "client_ok parse acc W h (CReporting a) \<longleftrightarrow>
     (\<forall>r. an_req a = Some r \<longrightarrow> made_for parse h r \<and> r \<in> set acc) \<and> answer_ok W a"
| "client_ok parse acc W h (CDone a) \<longleftrightarrow>
     (\<forall>r. an_req a = Some r \<longrightarrow> made_for parse h r \<and> r \<in> set acc) \<and> answer_ok W a"

text \<open>A client does not notice what happens on the channels of others, nor a push of a request with another id.\<close>

lemma answer_ok_cong:
  "(\<And>r. an_req a = Some r \<Longrightarrow> W' (rq_ID r) = W (rq_ID r)) \<Longrightarrow> answer_ok W' a = answer_ok W a"
  by (auto simp: answer_ok_def split: option.split)

lemma client_ok_wires:
  assumes "client_ok parse acc W h ph" and "\<And>r. creq ph = Some r \<Longrightarrow> W' (rq_ID r) = W (rq_ID r)"
  shows "client_ok parse acc W' h ph"
  using assms answer_ok_cong [of _ W' W] by (cases ph) auto

lemma client_ok_accept:
  assumes "client_ok parse acc W h ph" and "\<And>r'. creq ph = Some r' \<Longrightarrow> rq_ID r' \<noteq> rq_ID r"
  shows "client_ok parse (acc @ [r]) W h ph"
  using assms by (cases ph) auto

text \<open>What the pool does to the channels of a request.\<close>

definition wire_grows :: "wires \<Rightarrow> wires \<Rightarrow> bool" where
  "wire_grows v v' \<longleftrightarrow>
     wr_got v' = wr_got v \<and> (wr_closed v \<longrightarrow> wr_closed v') \<and>
     (wr_sent v' = wr_sent v \<and> wr_result v' = wr_result v \<or>
      wr_sent v = None \<and> (\<exists>x. wr_sent v' = Some x \<and> wr_result v' = Some (fst x)))"

lemma client_ok_grows:
  assumes "client_ok parse acc W h ph" and "\<And>n. wire_grows (W n) (W' n)"
  shows "client_ok parse acc W' h ph"
proof -
  have g: "wr_got (W' n) = wr_got (W n)" "wr_closed (W n) \<Longrightarrow> wr_closed (W' n)"
    "wr_sent (W n) = Some x \<Longrightarrow> wr_sent (W' n) = Some x \<and> wr_result (W' n) = wr_result (W n)"
    "wr_sent (W n) = None \<Longrightarrow> wr_sent (W' n) = Some x \<Longrightarrow> wr_result (W' n) = Some (fst x)" for n x
    using assms(2) [of n] by (auto simp: wire_grows_def)
  have a: "answer_ok W a \<Longrightarrow> answer_ok W' a" for a
    using g(2,3) by (fastforce simp: answer_ok_def split: option.splits)
  show ?thesis
  proof (cases ph)
    case (CWaiting r w)
    have "wr_result (W' (rq_ID r)) = Some (fst x)" if "wr_sent (W' (rq_ID r)) = Some x" for x
      using assms(1) CWaiting that g(3,4) by (cases "wr_sent (W (rq_ID r))") auto
    then show ?thesis using assms(1) CWaiting g(1) by auto
  next
    case (CStreaming r res w)
    then show ?thesis using assms(1) g(1,3) by auto
  qed (use assms(1) a in auto)
qed

section \<open>Channels\<close>

definition wire_ok :: "wires \<Rightarrow> bool" where
  "wire_ok v \<longleftrightarrow> length (wr_chunks v) \<le> chunksCap \<and>
     (case wr_sent v of
        None \<Rightarrow> v = fresh_wires
      | Some (res, chunks) \<Rightarrow>
          (wr_result v = None \<or> wr_result v = Some res) \<and>
          (\<exists>rest. wr_got v @ wr_chunks v @ rest = chunks \<and> (wr_closed v \<longrightarrow> rest = [])))"

lemma wire_ok_unsent: "wire_ok v \<Longrightarrow> wr_sent v = None \<Longrightarrow> v = fresh_wires"
  by (simp add: wire_ok_def)

lemma fresh_wires_simps [simp]:
  "wr_result fresh_wires = None" "wr_chunks fresh_wires = []" "\<not> wr_closed fresh_wires" "wr_sent fresh_wires = None"
  "wr_got fresh_wires = []" "wire_ok fresh_wires"
  by (simp_all add: fresh_wires_def wire_ok_def)

text \<open>What was sent comes from a dispatch of a request that a call of \<^verbatim>\<open>Pop\<close> returned.\<close>

definition sent_ok ::
  "(bytes \<Rightarrow> json option) \<Rightarrow> (json \<Rightarrow> bytes) \<Rightarrow> Dispatcher \<Rightarrow> (nat \<rightharpoonup> pop_call) \<Rightarrow> (string \<Rightarrow> wires) \<Rightarrow> bool" where
  "sent_ok parse render d cs W \<longleftrightarrow>
     (\<forall>n x. wr_sent (W n) = Some x \<longrightarrow>
        (\<exists>k r net. cs k = Some (Returned (Some r)) \<and> rq_ID r = n \<and> fst (dispatch parse render net d r) = Inr x))"

section \<open>The pool\<close>

fun current :: "goroutine \<Rightarrow> nat option" where
  "current (Popping k) = Some k"
| "current (Serving k _) = Some k"
| "current (Pumping k _ _) = Some k"
| "current _ = None"

text \<open>What a goroutine in each state knows about its call and the channels of its request.\<close>

fun goroutine_ok :: "(nat \<rightharpoonup> pop_call) \<Rightarrow> (string \<Rightarrow> wires) \<Rightarrow> goroutine \<Rightarrow> bool" where
  "goroutine_ok cs W (Popping k) \<longleftrightarrow>
     cs k \<noteq> None \<and> (\<forall>r. cs k = Some (Returned (Some r)) \<longrightarrow> wr_sent (W (rq_ID r)) = None)"
| "goroutine_ok cs W (Serving k r) \<longleftrightarrow> cs k = Some (Returned (Some r)) \<and> wr_sent (W (rq_ID r)) = None"
| "goroutine_ok cs W (Pumping k r rest) \<longleftrightarrow>
     cs k = Some (Returned (Some r)) \<and> rq_Stream r \<and> \<not> wr_closed (W (rq_ID r)) \<and>
     (\<exists>res. wr_sent (W (rq_ID r)) = Some (res, wr_got (W (rq_ID r)) @ wr_chunks (W (rq_ID r)) @ rest))"
| "goroutine_ok cs W (Panicked p) \<longleftrightarrow> False"
| "goroutine_ok cs W _ \<longleftrightarrow> True"

text \<open>Who works on a call: nobody once it is served.\<close>

fun works_on :: "(string \<Rightarrow> wires) \<Rightarrow> nat \<Rightarrow> pop_call \<Rightarrow> goroutine \<Rightarrow> bool" where
  "works_on W k (Returned None) g \<longleftrightarrow> True"
| "works_on W k (Returned (Some r)) g \<longleftrightarrow>
     (if wr_sent (W (rq_ID r)) = None then g = Popping k \<or> g = Serving k r
      else rq_Stream r \<and> \<not> wr_closed (W (rq_ID r)) \<longrightarrow> (\<exists>rest. g = Pumping k r rest))"
| "works_on W k (Scan ps) g \<longleftrightarrow> g = Popping k"
| "works_on W k Blocked g \<longleftrightarrow> g = Popping k"

definition pool_ok :: "nat \<Rightarrow> bool \<Rightarrow> (nat \<rightharpoonup> pop_call) \<Rightarrow> (string \<Rightarrow> wires) \<Rightarrow> (nat \<Rightarrow> goroutine) \<Rightarrow> bool" where
  "pool_ok n cancelled cs W P \<longleftrightarrow>
     (\<forall>j. goroutine_ok cs W (P j)) \<and>
     (\<forall>i j k. current (P i) = Some k \<longrightarrow> current (P j) = Some k \<longrightarrow> i = j) \<and>
     (\<forall>k x. cs k = Some x \<longrightarrow> (\<exists>j. works_on W k x (P j))) \<and>
     (\<forall>j. P j = Exited \<longrightarrow> n \<le> j \<or> cancelled) \<and> (\<forall>j. n \<le> j \<longrightarrow> P j = Exited) \<and>
     (\<forall>k. cs k = Some (Returned None) \<longrightarrow> cancelled)"

lemma pool_okD:
  assumes "pool_ok n b cs W P"
  shows "goroutine_ok cs W (P j)"
    and "current (P i) = Some k \<Longrightarrow> current (P j) = Some k \<Longrightarrow> i = j"
    and "cs k = Some x \<Longrightarrow> \<exists>j. works_on W k x (P j)"
    and "P j = Exited \<Longrightarrow> n \<le> j \<or> b"
    and "cs k = Some (Returned None) \<Longrightarrow> b"
    and "P j \<noteq> Exited \<Longrightarrow> j < n"
  using assms unfolding pool_ok_def by (blast, blast, blast, blast, blast, meson not_le)

lemma goroutine_current: "goroutine_ok cs W g \<Longrightarrow> current g = Some k \<Longrightarrow> cs k \<noteq> None"
  by (cases g) auto

text \<open>A call that has not returned is its goroutine's alone; what it returns has not been dispatched.\<close>

lemma pool_ok_calls:
  assumes "pool_ok n b cs W P" and "cs k = Some x" and "unreturned_call x" and "y = Returned None \<Longrightarrow> b"
    and "\<And>r. y = Returned (Some r) \<Longrightarrow> wr_sent (W (rq_ID r)) = None"
  shows "pool_ok n b (cs(k \<mapsto> y)) W P"
proof -
  obtain j where "works_on W k x (P j)" using pool_okD(3) [OF assms(1,2)] by blast
  then have j: "P j = Popping k" using assms(3) by (cases x) auto
  have "goroutine_ok (cs(k \<mapsto> y)) W (P i)" for i
  proof (cases "i = j")
    case True
    then show ?thesis using j assms(5) by auto
  next
    case False
    then have "current (P i) \<noteq> Some k" using pool_okD(2) [OF assms(1), of i k j] j by auto
    then show ?thesis using pool_okD(1) [OF assms(1), of i] by (cases "P i") auto
  qed
  moreover have "works_on W k y (P j)"
  proof (cases y)
    case (Returned z)
    then show ?thesis using j assms(5) by (cases z) auto
  qed (use j in auto)
  ultimately show ?thesis
    using assms(1,4) unfolding pool_ok_def by auto
qed

text \<open>One goroutine moves on, possibly changing the channels of its request.\<close>

lemma pool_ok_move:
  assumes "pool_ok n b cs W P"
    and "goroutine_ok cs W' g" and "g = Exited \<Longrightarrow> b" and busy: "P j \<noteq> Exited"
    and "current g = current (P j) \<or> current g = None"
    and "\<And>i. i \<noteq> j \<Longrightarrow> goroutine_ok cs W' (P i)"
    and "\<And>k x i. cs k = Some x \<Longrightarrow> works_on W k x (P i) \<Longrightarrow> \<exists>i. works_on W' k x ((P(j := g)) i)"
  shows "pool_ok n b cs W' (P(j := g))"
proof -
  have "i = i'" if "current ((P(j := g)) i) = Some k" "current ((P(j := g)) i') = Some k" for i i' k
    using that pool_okD(2) [OF assms(1)] assms(5) by (auto split: if_splits) metis+
  moreover have "\<exists>i. works_on W' k x ((P(j := g)) i)" if "cs k = Some x" for k x
    using assms(7) pool_okD(3) [OF assms(1) that] that by blast
  moreover have "goroutine_ok cs W' ((P(j := g)) i)" for i using assms(2,6) by simp
  moreover have "(P(j := g)) i = Exited" if "n \<le> i" for i
    using that busy assms(1) unfolding pool_ok_def by auto
  moreover have "n \<le> i \<or> b" if "(P(j := g)) i = Exited" for i
    using that assms(3) pool_okD(4) [OF assms(1)] by (auto split: if_splits)
  moreover note pool_okD(5) [OF assms(1)]
  ultimately show ?thesis unfolding pool_ok_def by blast
qed

text \<open>The moves of a goroutine that has a request: they touch its own channels only.\<close>

lemma pool_ok_own:
  assumes "pool_ok n b cs W P" and "current (P j) = Some k" and "cs k = Some (Returned (Some r))"
    and unique: "\<And>k' r'. cs k' = Some (Returned (Some r')) \<Longrightarrow> rq_ID r' = rq_ID r \<Longrightarrow> k' = k"
    and other: "\<And>m. m \<noteq> rq_ID r \<Longrightarrow> W' m = W m"
    and "goroutine_ok cs W' g" and "g \<noteq> Exited" and "current g = Some k \<or> current g = None"
    and "works_on W' k (Returned (Some r)) g"
  shows "pool_ok n b cs W' (P(j := g))"
proof (rule pool_ok_move [OF assms(1) assms(6)])
  fix i assume "i \<noteq> j"
  then have c: "current (P i) \<noteq> Some k" using pool_okD(2) [OF assms(1)] assms(2) by blast
  have W: "W' (rq_ID r') = W (rq_ID r')" if "cs k' = Some (Returned (Some r'))" "k' \<noteq> k" for k' r'
    using unique [OF that(1)] that(2) other by blast
  show "goroutine_ok cs W' (P i)" using pool_okD(1) [OF assms(1), of i] c W by (cases "P i") auto
next
  fix k' x i assume k': "cs k' = Some x" "works_on W k' x (P i)"
  show "\<exists>i. works_on W' k' x ((P(j := g)) i)"
  proof (cases "k' = k")
    case True
    then show ?thesis using k' assms(3,9) by (intro exI [of _ j]) simp
  next
    case False
    have W: "W' (rq_ID r') = W (rq_ID r')" if "x = Returned (Some r')" for r'
      using unique [of k' r'] that k'(1) False other by blast
    then have w: "works_on W' k' x (P i)"
    proof (cases x)
      case (Returned z)
      then show ?thesis using k'(2) W by (cases z) auto
    qed (use k'(2) in auto)
    show ?thesis
    proof (cases "i = j")
      case True
      then have "works_on W' k' x h" for h
      proof (cases x)
        case (Returned z)
        then show ?thesis using w True assms(2) False by (cases z) (auto split: if_splits)
      qed (use w True assms(2) False in auto)
      then show ?thesis by blast
    next
      case False
      then show ?thesis using w by (intro exI [of _ i]) simp
    qed
  qed
qed (use assms(2,7,8) in auto)

text \<open>The gateway's receives move chunks from the channel to the response.\<close>

lemma pool_ok_cong:
  assumes "pool_ok n b cs W P"
    and "\<And>m. wr_sent (W' m) = wr_sent (W m) \<and> wr_closed (W' m) = wr_closed (W m) \<and>
      wr_got (W' m) @ wr_chunks (W' m) = wr_got (W m) @ wr_chunks (W m)"
  shows "pool_ok n b cs W' P"
proof -
  have s: "wr_sent (W' m) = wr_sent (W m)" "wr_closed (W' m) = wr_closed (W m)"
    and a: "wr_got (W' m) @ wr_chunks (W' m) @ ys = wr_got (W m) @ wr_chunks (W m) @ ys" for m ys
    using assms(2) [of m] by (simp_all flip: append_assoc)
  have "goroutine_ok cs W' g = goroutine_ok cs W g" for g by (cases g) (simp_all add: s a)
  moreover have "works_on W' k x g = works_on W k x g" for k x g
  proof (cases x)
    case (Returned z)
    then show ?thesis by (cases z) (simp_all add: s)
  qed simp_all
  ultimately show ?thesis using assms(1) unfolding pool_ok_def by simp
qed

lemma pool_ok_new_call:
  assumes "pool_ok n b cs W P" and "P j = Looping" and "cs k = None"
  shows "pool_ok n b (cs(k \<mapsto> Scan ps)) W (P(j := Popping k))"
proof -
  have no: "current (P i) \<noteq> Some k" for i
    using goroutine_current [OF pool_okD(1) [OF assms(1)]] assms(3) by blast
  have "goroutine_ok (cs(k \<mapsto> Scan ps)) W (P i)" for i
    using pool_okD(1) [OF assms(1), of i] no [of i] by (cases "P i") auto
  then have "goroutine_ok (cs(k \<mapsto> Scan ps)) W ((P(j := Popping k)) i)" for i by simp
  moreover have "\<exists>i. works_on W k' x ((P(j := Popping k)) i)" if k': "(cs(k \<mapsto> Scan ps)) k' = Some x" for k' x
  proof (cases "k' = k")
    case True
    then show ?thesis using k' by (intro exI [of _ j]) auto
  next
    case False
    then obtain i where i: "works_on W k' x (P i)" using pool_okD(3) [OF assms(1)] k' by auto
    show ?thesis
    proof (cases "i = j")
      case True
      then have "works_on W k' x h" for h
      proof (cases x)
        case (Returned z)
        then show ?thesis using i True assms(2) by (cases z) (auto split: if_splits)
      qed (use i True assms(2) in auto)
      then show ?thesis by blast
    next
      case False
      then show ?thesis using i by (intro exI [of _ i]) simp
    qed
  qed
  moreover have "i = i'" if "current ((P(j := Popping k)) i) = Some m" "current ((P(j := Popping k)) i') = Some m" for i i' m
    using that no pool_okD(2) [OF assms(1)] by (auto split: if_splits)
  moreover have "(P(j := Popping k)) i = Exited" if "n \<le> i" for i
    using that assms(1,2) unfolding pool_ok_def by auto
  moreover have "n \<le> i \<or> b" if "(P(j := Popping k)) i = Exited" for i
    using that pool_okD(4) [OF assms(1)] by (auto split: if_splits)
  moreover have "b" if "(cs(k \<mapsto> Scan ps)) k' = Some (Returned None)" for k'
    using that pool_okD(5) [OF assms(1)] by (auto split: if_splits)
  ultimately show ?thesis unfolding pool_ok_def by blast
qed

section \<open>What a dispatch returns\<close>

lemma made_for_object: "made_for parse h r \<Longrightarrow> \<exists>ms. parse (rq_Body r) = Some (JObj ms)"
  using unmarshal_payload_object by (fastforce simp: made_for_def has_payload_def bind_eq_Some_conv)

lemma dispatch_returns:
  assumes "parse (rq_Body r) = Some (JObj ms)"
  shows "\<exists>x. fst (dispatch parse render net d r) = Inr x"
  by (auto simp: dispatch_def dispatchStream_def dispatchBuffered_def buffered_chain_walk [where req = r and parse = parse, OF assms]
      stream_chain_walk [where req = r and parse = parse, OF assms]
      split: prod.split)

lemma attempt_plain: "attempt net d b m lg = (res, retry, lg') \<Longrightarrow> \<not> Streaming res"
  by (auto simp: attempt_def err_result_def zero_result_def Let_def split: do_result.splits if_splits)

lemma buffered_attempts_plain:
  "\<not> Streaming final \<Longrightarrow> buffered_attempts net d b m n final lg = (stop, res, lg') \<Longrightarrow> \<not> Streaming res"
proof (induction n arbitrary: final lg)
  case (Suc n)
  obtain x retry l where a: "attempt net d b m lg = (x, retry, l)" by (metis prod_cases3)
  have x: "\<not> Streaming x" by (rule attempt_plain [OF a])
  show ?case
  proof (cases retry)
    case True
    then show ?thesis using Suc.IH [OF x, of l] Suc.prems a by simp
  next
    case False
    then show ?thesis using x Suc.prems a by simp
  qed
qed simp

lemma buffered_chain_plain:
  "\<not> Streaming final \<Longrightarrow> buffered_chain parse render net d r models final lg = (Inr res, lg') \<Longrightarrow> \<not> Streaming res"
proof (induction models arbitrary: final lg)
  case (Cons m models)
  show ?case
  proof (cases "body_for parse render r m")
    case (Inl p)
    then show ?thesis using Cons.prems by simp
  next
    case (Inr ob)
    show ?thesis
    proof (cases ob)
      case None
      have "\<not> Streaming (zero_result\<lparr>rs_Err := Some (RewriteModel m)\<rparr>)" by (simp add: zero_result_def)
      then show ?thesis using Cons.IH [of "zero_result\<lparr>rs_Err := Some (RewriteModel m)\<rparr>" lg] Cons.prems Inr None by simp
    next
      case (Some b)
      obtain stop x l where a: "buffered_attempts net d b m (nat (maxAttempts d)) final lg = (stop, x, l)" by (metis prod_cases3)
      have x: "\<not> Streaming x" by (rule buffered_attempts_plain [OF Cons.prems(1) a])
      show ?thesis using Cons.IH [OF x, of l] Cons.prems Inr Some a x by (cases stop) simp_all
    qed
  qed
qed simp

lemma stream_chain_chunks:
  "stream_chain parse render net d r models final lg = (Inr (res, chunks), lg') \<Longrightarrow> chunks \<noteq> [] \<Longrightarrow>
     Streaming res \<and> rs_Err res = None"
  by (induction models arbitrary: final lg)
     (auto simp: commit_result_def zero_result_def split: sum.splits option.splits prod.splits)

lemma dispatch_shape:
  assumes "fst (dispatch parse render net d r) = Inr (res, chunks)"
  shows "Streaming res \<Longrightarrow> rq_Stream r" and "chunks \<noteq> [] \<Longrightarrow> Streaming res \<and> rs_Err res = None"
proof -
  obtain lg where D: "dispatch parse render net d r = (Inr (res, chunks), lg)" using assms by (metis prod.collapse)
  have z: "\<not> Streaming zero_result" by (simp add: zero_result_def)
  have "\<not> rq_Stream r \<Longrightarrow> \<not> Streaming res \<and> chunks = []"
    using D buffered_chain_plain [OF z, of parse render net d r "chain d r" "[]" res]
    by (auto simp: dispatch_def dispatchBuffered_def split: prod.splits sum.splits)
  moreover have "rq_Stream r \<Longrightarrow> chunks \<noteq> [] \<Longrightarrow> Streaming res \<and> rs_Err res = None"
    using D stream_chain_chunks [of parse render net d r "chain d r" zero_result "[]" res chunks lg]
    by (simp add: dispatch_def dispatchStream_def)
  ultimately show "Streaming res \<Longrightarrow> rq_Stream r" and "chunks \<noteq> [] \<Longrightarrow> Streaming res \<and> rs_Err res = None" by blast+
qed

end
