(* ===== verification/Request_Plane_Safety.thy ===== *)
theory Request_Plane_Safety
  imports Request_Plane_Inv
begin

text \<open>
  Every step of the request plane keeps the invariant, whatever the interleaving. The
  property: each client is answered from one dispatch of its own request.
\<close>

section \<open>The invariant\<close>

definition plane_inv :: "(bytes \<Rightarrow> json option) \<Rightarrow> (json \<Rightarrow> bytes) \<Rightarrow> nat \<Rightarrow> Dispatcher \<Rightarrow> plane \<Rightarrow> bool" where
  "plane_inv parse render cap d s \<longleftrightarrow>
     qinv cap (pl_q s) \<and> finite (dom (calls (pl_q s))) \<and> finite (dom (pl_clients s)) \<and>
     ids_ok (idCounter (pl_gateway s)) (requests (pl_clients s)) (accepted (pl_q s)) \<and>
     (\<forall>i c. pl_clients s i = Some c \<longrightarrow>
        client_ok parse (accepted (pl_q s)) (pl_wires s) (cl_http c) (cl_phase c)) \<and>
     (\<forall>n. wire_ok (pl_wires s n)) \<and> sent_ok parse render d (calls (pl_q s)) (pl_wires s) \<and>
     pool_ok (nat (concurrency d)) (pl_cancelled s) (calls (pl_q s)) (pl_wires s) (pl_pool s)"

lemma plane_invD:
  assumes "plane_inv parse render cap d s"
  shows "qinv cap (pl_q s)" and "finite (dom (calls (pl_q s)))" and "finite (dom (pl_clients s))"
    and "ids_ok (idCounter (pl_gateway s)) (requests (pl_clients s)) (accepted (pl_q s))"
    and "pl_clients s i = Some c \<Longrightarrow> client_ok parse (accepted (pl_q s)) (pl_wires s) (cl_http c) (cl_phase c)"
    and "wire_ok (pl_wires s n)" and "sent_ok parse render d (calls (pl_q s)) (pl_wires s)"
    and "pool_ok (nat (concurrency d)) (pl_cancelled s) (calls (pl_q s)) (pl_wires s) (pl_pool s)"
  using assms unfolding plane_inv_def by blast+

lemmas plane_upds = set_client_def set_pool_def set_wires_def

text \<open>A request that a call has returned belongs to one client, and to no other call.\<close>

lemma plane_returned:
  assumes "plane_inv parse render cap d s" and "calls (pl_q s) k = Some (Returned (Some r))"
  shows "r \<in> set (accepted (pl_q s))"
    and "calls (pl_q s) k' = Some (Returned (Some r')) \<Longrightarrow> rq_ID r' = rq_ID r \<Longrightarrow> k' = k"
    and "\<exists>ms. parse (rq_Body r) = Some (JObj ms)"
proof -
  note inv = plane_invD [OF assms(1)]
  show acc: "r \<in> set (accepted (pl_q s))" by (rule returned_accepted [OF inv(1) assms(2)])
  have "distinct (map rq_ID (accepted (pl_q s)))" using inv(4) by (simp add: ids_ok_def)
  from returned_once [OF inv(1) this _ assms(2)]
  show "calls (pl_q s) k' = Some (Returned (Some r')) \<Longrightarrow> rq_ID r' = rq_ID r \<Longrightarrow> k' = k" .
  obtain i where "requests (pl_clients s) i = Some r" by (rule ids_ok_owner [OF inv(4) acc])
  then obtain c where c: "pl_clients s i = Some c" "creq (cl_phase c) = Some r"
    by (auto simp: requests_def bind_eq_Some_conv)
  then have "made_for parse (cl_http c) r" using inv(5) [OF c(1)] by (cases "cl_phase c") auto
  then show "\<exists>ms. parse (rq_Body r) = Some (JObj ms)" by (rule made_for_object)
qed

text \<open>A request that has not been accepted has untouched channels.\<close>

lemma plane_unaccepted:
  assumes "plane_inv parse render cap d s" and "rq_ID r \<notin> rq_ID ` set (accepted (pl_q s))"
  shows "wires_of s r = fresh_wires"
proof (rule wire_ok_unsent [OF plane_invD(6) [OF assms(1)]])
  show "wr_sent (wires_of s r) = None"
  proof (rule ccontr)
    assume "wr_sent (wires_of s r) \<noteq> None"
    then obtain k r' where "calls (pl_q s) k = Some (Returned (Some r'))" "rq_ID r' = rq_ID r"
      using plane_invD(7) [OF assms(1)] unfolding sent_ok_def by blast
    then show False using plane_returned(1) [OF assms(1)] assms(2) by (metis imageI)
  qed
qed

section \<open>Steps of clients\<close>

lemma client_begin_ok:
  assumes "client_begin parse now g h = (ph, g')"
  shows "client_ok parse acc W h ph" and "creq ph = None" and "idCounter g' = idCounter g"
proof -
  obtain x g1 where a: "authenticate now g h new_response = (x, g1)" by fastforce
  note st = authenticate_status [of now g h, unfolded a]
  have g: "idCounter g' = idCounter g"
    using assms a authenticate_frame(5) [OF a]
    by (auto simp: client_begin_def Let_def split: if_splits sum.splits option.splits prod.splits)
  have "client_ok parse acc W h ph \<and> creq ph = None"
    using assms a st
    by (auto simp: client_begin_def Let_def refusal_def answer_ok_def has_payload_def
        split: if_splits sum.splits option.splits prod.splits)
  then show "client_ok parse acc W h ph" and "creq ph = None" and "idCounter g' = idCounter g" using g by auto
qed

lemma client_estimate_ok:
  assumes "client_ok parse acc W h (CParsed b m st key)"
  shows "client_ok parse acc W h (client_estimate g h b m st key)" and "creq (client_estimate g h b m st key) = None"
  using assms rejected_wait_status by (auto simp: client_estimate_def Let_def refusal_def answer_ok_def)

lemma client_timeout_ok:
  assumes "client_ok parse acc W h (CWaiting r w)"
  shows "client_ok parse acc W h (client_timeout r w)" and "creq (client_timeout r w) = Some r"
  using assms by (auto simp: client_timeout_def answer_ok_def)

text \<open>Receiving the result takes it off the channel; what is answered is the result.\<close>

lemma client_result_creq: "client_result err_text now g r w res = (ph, g') \<Longrightarrow> creq ph = Some r"
  by (auto simp: client_result_def Let_def split: option.splits if_splits sum.splits prod.splits)

lemma client_result_ok:
  assumes "client_ok parse acc W h (CWaiting r w)" and "wr_result (W (rq_ID r)) = Some res"
    and "wire_ok (W (rq_ID r))" and "client_result err_text now g r w res = (ph, g')"
    and "W' (rq_ID r) = (W (rq_ID r))\<lparr>wr_result := None\<rparr>"
  shows "client_ok parse acc W' h ph" and "idCounter g' = idCounter g"
proof -
  obtain g1 w1 where rec: "record_wait g r now w = (g1, w1)" by fastforce
  have w1: "rstatus w1 = None" "rbody w1 = []" using record_wait_frame [OF rec] assms(1) by simp_all
  have "idCounter g1 = idCounter g" using rec by (auto simp: record_wait_def Let_def split: option.splits)
  moreover have "g' = g1" using assms(4) rec by (simp add: client_result_def Let_def)
  ultimately show "idCounter g' = idCounter g" by simp
  obtain chunks where sent: "wr_sent (W (rq_ID r)) = Some (res, chunks)"
    using assms(2,3) by (auto simp: wire_ok_def split: option.splits)
  have hd: "(200 \<le> StatusCode res \<longrightarrow> rstatus v = Some (StatusCode res)) \<and> rbody v = (if Streaming res then [] else [rs_Body res])"
    if "(if Streaming res then streamResponse w1 res [] else bufferedResponse w1 res) = Inr v" for v
    using that w1 by (auto simp: streamResponse_def bufferedResponse_def Let_def served_header_def WriteHeader_def
        split: if_splits sum.splits)
  show "client_ok parse acc W' h ph"
    using assms(1,4,5) rec sent hd w1
    by (auto simp: client_result_def Let_def answer_ok_def relays_def split: option.splits if_splits sum.splits)
qed

lemma client_streamed_ok:
  assumes "client_ok parse acc W h (CStreaming r res w)" and "wr_chunks (W (rq_ID r)) = []" and "wr_closed (W (rq_ID r))"
    and "wire_ok (W (rq_ID r))"
  shows "client_ok parse acc W h (client_streamed r res w)" and "creq (client_streamed r res w) = Some r"
  using assms by (auto simp: client_streamed_def answer_ok_def relays_def wire_ok_def)

text \<open>A client's step that touches nothing but the client.\<close>

lemma plane_inv_client:
  assumes "plane_inv parse render cap d s" and "pl_clients s i = Some c"
    and "client_ok parse (accepted (pl_q s)) (pl_wires s) (cl_http c) ph" and "creq ph = creq (cl_phase c)"
    and "idCounter g' = idCounter (pl_gateway s)"
  shows "plane_inv parse render cap d ((set_client s i c ph)\<lparr>pl_gateway := g'\<rparr>)"
proof -
  have "(requests (pl_clients s))(i := creq ph) = requests (pl_clients s)"
    using requests_client [of "pl_clients s", OF assms(2)] assms(4) by auto
  then show ?thesis using assms unfolding plane_inv_def by (auto simp: set_client_def)
qed

lemma set_client_same_gateway: "set_client s i c ph = (set_client s i c ph)\<lparr>pl_gateway := pl_gateway s\<rparr>"
  by (simp add: set_client_def)

text \<open>A client's step on the channels of its own request.\<close>

lemma plane_inv_channel:
  assumes inv: "plane_inv parse render cap d s" and c: "pl_clients s i = Some c" "creq (cl_phase c) = Some r" "creq ph = Some r"
    and ok: "client_ok parse (accepted (pl_q s)) ((pl_wires s)(rq_ID r := f (wires_of s r))) (cl_http c) ph"
    and w: "wire_ok (f (wires_of s r))"
    and got: "wr_got (f (wires_of s r)) @ wr_chunks (f (wires_of s r)) = wr_got (wires_of s r) @ wr_chunks (wires_of s r)"
    and g: "idCounter g' = idCounter (pl_gateway s)"
    and sent: "\<And>v. wr_sent (f v) = wr_sent v" and closed: "\<And>v. wr_closed (f v) = wr_closed v"
  shows "plane_inv parse render cap d ((set_wires (set_client s i c ph) r f)\<lparr>pl_gateway := g'\<rparr>)"
proof -
  let ?W = "(pl_wires s)(rq_ID r := f (wires_of s r))"
  note I = plane_invD [OF inv]
  have R: "requests (pl_clients s) i = Some r" using c by (simp add: requests_def)
  have "client_ok parse (accepted (pl_q s)) ?W (cl_http c') (cl_phase c')"
    if c': "pl_clients s j = Some c'" "j \<noteq> i" for j c'
  proof (rule client_ok_wires [OF I(5) [OF c'(1)]])
    fix r' assume "creq (cl_phase c') = Some r'"
    then have "requests (pl_clients s) j = Some r'" using c'(1) by (simp add: requests_def)
    then have "rq_ID r' \<noteq> rq_ID r" using ids_ok_unique [OF I(4) R, of j] c'(2) by auto
    then show "?W (rq_ID r') = pl_wires s (rq_ID r')" by simp
  qed
  moreover have "(requests (pl_clients s))(i := Some r) = requests (pl_clients s)" using R by auto
  moreover have "sent_ok parse render d (calls (pl_q s)) ?W" using I(7) unfolding sent_ok_def by (auto simp: sent)
  moreover have "pool_ok (nat (concurrency d)) (pl_cancelled s) (calls (pl_q s)) ?W (pl_pool s)"
    by (rule pool_ok_cong [OF I(8)]) (use got in \<open>auto simp: sent closed\<close>)
  ultimately show ?thesis
    using inv ok w g c(3) unfolding plane_inv_def by (auto simp: set_client_def set_wires_def)
qed

lemma plane_inv_arrive:
  assumes "plane_inv parse render cap d s" and "pl_clients s i = None"
  shows "plane_inv parse render cap d (s\<lparr>pl_clients := (pl_clients s)(i \<mapsto> \<lparr>cl_http = h, cl_phase = CArrived\<rparr>)\<rparr>)"
proof -
  have "(requests (pl_clients s))(i := None) = requests (pl_clients s)" using assms(2) by (auto simp: requests_def)
  then show ?thesis using assms unfolding plane_inv_def by auto
qed

lemma plane_inv_number:
  assumes inv: "plane_inv parse render cap d s" and c: "pl_clients s i = Some c" "cl_phase c = CEstimated b m st key est"
    and "unat (idCounter (pl_gateway s)) + 1 < 2 ^ 64"
    and n: "client_number now (pl_gateway s) (cl_http c) b m st key est = (ph, g')"
  shows "plane_inv parse render cap d ((set_client s i c ph)\<lparr>pl_gateway := g'\<rparr>)"
proof -
  note I = plane_invD [OF inv]
  let ?r = "new_request (pl_gateway s) b m (parsePriority (cl_http c)) st key now"
  have ph: "ph = CNumbered ?r est" "g' = (pl_gateway s)\<lparr>idCounter := idCounter (pl_gateway s) + 1\<rparr>"
    using n by (simp_all add: client_number_def)
  have id: "rq_ID ?r = id_of (unat (idCounter (pl_gateway s) + 1))" by (simp add: new_request_def id_of_def)
  have R: "requests (pl_clients s) i = None" using c by (simp add: requests_def)
  have ids: "ids_ok (idCounter g') ((requests (pl_clients s))(i \<mapsto> ?r)) (accepted (pl_q s))"
    using ids_ok_number [OF I(4) R assms(4) id] by (simp add: ph(2))
  have "rq_ID ?r \<notin> rq_ID ` set (accepted (pl_q s))"
  proof
    assume "rq_ID ?r \<in> rq_ID ` set (accepted (pl_q s))"
    then obtain x where x: "x \<in> set (accepted (pl_q s))" "rq_ID ?r = rq_ID x" by auto
    from x(1) obtain j where j: "requests (pl_clients s) j = Some x" by (rule ids_ok_owner [OF I(4)])
    then have "j \<noteq> i" using R by auto
    then show False using ids_ok_unique [OF ids, of i ?r j x] j x(2) by simp
  qed
  moreover have "Method (cl_http c) = ''POST''" "has_payload parse (cl_http c) b m st" using I(5) [OF c(1)] c(2) by simp_all
  ultimately have "client_ok parse (accepted (pl_q s)) (pl_wires s) (cl_http c) ph"
    by (simp add: ph(1) made_for_def new_request_def)
  then show ?thesis using inv ids unfolding plane_inv_def by (auto simp: set_client_def ph(1))
qed

lemma sent_ok_calls:
  assumes "sent_ok parse render d cs W" and "\<And>k r. cs k = Some (Returned (Some r)) \<Longrightarrow> cs' k = Some (Returned (Some r))"
  shows "sent_ok parse render d cs' W"
  using assms unfolding sent_ok_def by blast

text \<open>A call that returns gets a request that nobody has dispatched.\<close>

lemma pool_ok_return:
  assumes inv: "plane_inv parse render cap d s" and "qinv cap q'" and "distinct (map rq_ID (accepted q'))"
    and k: "calls (pl_q s) k = Some x" "unreturned_call x" "calls q' = (calls (pl_q s))(k \<mapsto> y)"
    and "y = Returned None \<Longrightarrow> pl_cancelled s"
  shows "pool_ok (nat (concurrency d)) (pl_cancelled s) (calls q') (pl_wires s) (pl_pool s)"
    and "sent_ok parse render d (calls q') (pl_wires s)"
proof -
  note I = plane_invD [OF inv]
  have new: "wr_sent (pl_wires s (rq_ID r)) = None" if y: "y = Returned (Some r)" for r
  proof (rule ccontr)
    assume "wr_sent (pl_wires s (rq_ID r)) \<noteq> None"
    then obtain k' r' where k': "calls (pl_q s) k' = Some (Returned (Some r'))" "rq_ID r' = rq_ID r"
      using I(7) unfolding sent_ok_def by blast
    then have "k' \<noteq> k" using k(1,2) by auto
    then have "calls q' k' = Some (Returned (Some r'))" using k(3) k'(1) by simp
    moreover have "calls q' k = Some (Returned (Some r))" using k(3) y by simp
    ultimately show False using returned_once [OF assms(2,3)] k'(2) \<open>k' \<noteq> k\<close> by blast
  qed
  show "pool_ok (nat (concurrency d)) (pl_cancelled s) (calls q') (pl_wires s) (pl_pool s)"
    unfolding k(3) by (rule pool_ok_calls [OF I(8) k(1,2) assms(7) new])
  show "sent_ok parse render d (calls q') (pl_wires s)"
    by (rule sent_ok_calls [OF I(7)]) (use k in auto)
qed

lemma plane_inv_push:
  assumes inv: "plane_inv parse render cap d s" and c: "pl_clients s i = Some c" "cl_phase c = CNumbered r est"
    and q: "qstep (pl_q s) (QPush r ok) q'"
  shows "plane_inv parse render cap d ((set_client s i c (client_pushed ok r est))\<lparr>pl_q := q'\<rparr>)"
proof -
  note I = plane_invD [OF inv]
  have R: "requests (pl_clients s) i = Some r" using c by (simp add: requests_def)
  have m: "made_for parse (cl_http c) r" "rq_ID r \<notin> rq_ID ` set (accepted (pl_q s))" using I(5) [OF c(1)] c(2) by simp_all
  have qi: "qinv cap q'" by (rule qsystem.step_inv [OF I(1) q])
  have acc: "accepted q' = accepted (pl_q s) @ (if ok then [r] else [])" by (rule qstep_push(1) [OF q])
  have ids: "ids_ok (idCounter (pl_gateway s)) ((requests (pl_clients s))(i := creq (client_pushed ok r est))) (accepted q')"
  proof (cases ok)
    case True
    then have "(requests (pl_clients s))(i := creq (client_pushed ok r est)) = requests (pl_clients s)"
      using R by (auto simp: client_pushed_def)
    then show ?thesis using ids_ok_accept [OF I(4) R m(2)] True by (simp add: acc)
  next
    case False
    then show ?thesis using ids_ok_drop [OF I(4) R m(2)] by (simp add: acc client_pushed_def refusal_def)
  qed
  have others: "client_ok parse (accepted q') (pl_wires s) (cl_http c') (cl_phase c')"
    if c': "pl_clients s j = Some c'" "j \<noteq> i" for j c'
  proof (cases ok)
    case True
    have "rq_ID r' \<noteq> rq_ID r" if "creq (cl_phase c') = Some r'" for r'
      using ids_ok_unique [OF I(4) R, of j r'] requests_client [of "pl_clients s", OF c'(1)] that c'(2) by auto
    then show ?thesis using client_ok_accept [OF I(5) [OF c'(1)]] True by (simp add: acc)
  next
    case False
    then show ?thesis using I(5) [OF c'(1)] by (simp add: acc)
  qed
  have self: "client_ok parse (accepted q') (pl_wires s) (cl_http c) (client_pushed ok r est)"
    using m plane_unaccepted [OF inv m(2)]
    by (auto simp: client_pushed_def refusal_def answer_ok_def acc estimate_header_def split: option.split)
  have pool: "pool_ok (nat (concurrency d)) (pl_cancelled s) (calls q') (pl_wires s) (pl_pool s) \<and>
      sent_ok parse render d (calls q') (pl_wires s) \<and> finite (dom (calls q'))"
  proof (cases "calls q' = calls (pl_q s)")
    case True
    then show ?thesis using I(2,7,8) by simp
  next
    case False
    then obtain k where k: "calls (pl_q s) k = Some Blocked" "calls q' = (calls (pl_q s))(k \<mapsto> Returned (Some r))"
      using qstep_push(2) [OF q] by blast
    have "distinct (map rq_ID (accepted q'))" using ids by (simp add: ids_ok_def)
    from pool_ok_return [OF inv qi this k(1) _ k(2)] show ?thesis using I(2) k(2) by simp
  qed
  show ?thesis
    using inv qi ids others self pool unfolding plane_inv_def by (auto simp: set_client_def)
qed

section \<open>Steps of the pool\<close>

lemma plane_inv_pop:
  assumes inv: "plane_inv parse render cap d s"
    and e: "e = QMiss k \<or> e = QBlock k \<or> (\<exists>p. e = QRecv k p) \<or> e = QCancel k \<and> pl_cancelled s"
    and q: "qstep (pl_q s) e q'"
  shows "plane_inv parse render cap d (s\<lparr>pl_q := q'\<rparr>)"
proof -
  note I = plane_invD [OF inv]
  have e': "e = QMiss k \<or> e = QBlock k \<or> (\<exists>p. e = QRecv k p) \<or> e = QCancel k" using e by blast
  note acc = qstep_pop(1) [OF q e']
  obtain x y where k: "calls (pl_q s) k = Some x" "unreturned_call x" "calls q' = (calls (pl_q s))(k \<mapsto> y)"
    "y = Returned None \<longrightarrow> e = QCancel k"
    using qstep_pop(2) [OF q e'] by blast
  have "y = Returned None \<Longrightarrow> pl_cancelled s" using k(4) e by auto
  moreover have qi: "qinv cap q'" by (rule qsystem.step_inv [OF I(1) q])
  moreover have "distinct (map rq_ID (accepted q'))" using I(4) by (simp add: ids_ok_def acc)
  ultimately show ?thesis
    using inv pool_ok_return [OF inv _ _ k(1-3)] k(3) unfolding plane_inv_def by (auto simp: acc)
qed

lemma plane_inv_call:
  assumes inv: "plane_inv parse render cap d s" and "pl_pool s j = Looping" and q: "qstep (pl_q s) (QCall k) q'"
  shows "plane_inv parse render cap d ((set_pool s j (Popping k))\<lparr>pl_q := q'\<rparr>)"
proof -
  note I = plane_invD [OF inv]
  have q': "calls (pl_q s) k = None" "q' = (pl_q s)\<lparr>calls := (calls (pl_q s))(k \<mapsto> Scan popOrder)\<rparr>"
    using q by (simp_all add: qstep_call)
  have "sent_ok parse render d (calls q') (pl_wires s)"
    by (rule sent_ok_calls [OF I(7)]) (use q' in auto)
  then show ?thesis
    using inv qsystem.step_inv [OF I(1) q] pool_ok_new_call [OF I(8) assms(2) q'(1), of popOrder] q'(2)
    unfolding plane_inv_def by (auto simp: set_pool_def)
qed

lemma plane_inv_exit:
  assumes inv: "plane_inv parse render cap d s" and "pl_pool s j = Popping k" and "calls (pl_q s) k = Some (Returned None)"
  shows "plane_inv parse render cap d (set_pool s j Exited)"
proof -
  note I = plane_invD [OF inv]
  have "pool_ok (nat (concurrency d)) (pl_cancelled s) (calls (pl_q s)) (pl_wires s) ((pl_pool s)(j := Exited))"
  proof (rule pool_ok_move [OF I(8)])
    show "pl_cancelled s" by (rule pool_okD(5) [OF I(8) assms(3)])
  next
    fix i show "goroutine_ok (calls (pl_q s)) (pl_wires s) (pl_pool s i)" by (rule pool_okD(1) [OF I(8)])
  next
    fix k' x i assume k': "calls (pl_q s) k' = Some x" "works_on (pl_wires s) k' x (pl_pool s i)"
    show "\<exists>i. works_on (pl_wires s) k' x (((pl_pool s)(j := Exited)) i)"
    proof (cases "i = j")
      case False
      then show ?thesis using k'(2) by (intro exI [of _ i]) simp
    next
      case True
      then have "works_on (pl_wires s) k' x h" for h
      proof (cases x)
        case (Returned z)
        then show ?thesis using k' True assms(2,3) by (cases z) (auto split: if_splits)
      qed (use k' True assms(2,3) in auto)
      then show ?thesis by blast
    qed
  qed (simp_all add: assms(2))
  then show ?thesis using inv unfolding plane_inv_def by (simp add: set_pool_def)
qed

text \<open>A goroutine's step on the channels of the request it serves.\<close>

lemma plane_inv_own:
  assumes inv: "plane_inv parse render cap d s" and cur: "current (pl_pool s j) = Some k"
    and k: "calls (pl_q s) k = Some (Returned (Some r))"
    and w: "wire_ok (f (wires_of s r))" and grows: "wire_grows (wires_of s r) (f (wires_of s r))"
    and g: "goroutine_ok (calls (pl_q s)) ((pl_wires s)(rq_ID r := f (wires_of s r))) g"
      "g \<noteq> Exited" "current g = Some k \<or> current g = None"
      "works_on ((pl_wires s)(rq_ID r := f (wires_of s r))) k (Returned (Some r)) g"
    and sent: "\<And>x. wr_sent (f (wires_of s r)) = Some x \<Longrightarrow>
      wr_sent (wires_of s r) = Some x \<or> (\<exists>net. fst (dispatch parse render net d r) = Inr x)"
  shows "plane_inv parse render cap d (set_wires (set_pool s j g) r f)"
proof -
  let ?W = "(pl_wires s)(rq_ID r := f (wires_of s r))"
  note I = plane_invD [OF inv]
  have "pool_ok (nat (concurrency d)) (pl_cancelled s) (calls (pl_q s)) ?W ((pl_pool s)(j := g))"
    by (rule pool_ok_own [OF I(8) cur k _ _ g]) (use plane_returned(2) [OF inv k] in auto)
  moreover have "sent_ok parse render d (calls (pl_q s)) ?W"
    using I(7) sent k unfolding sent_ok_def by (auto split: if_splits) blast+
  moreover have "client_ok parse (accepted (pl_q s)) ?W (cl_http c) (cl_phase c)" if "pl_clients s i = Some c" for i c
    by (rule client_ok_grows [OF I(5) [OF that]]) (use grows in \<open>auto simp: wire_grows_def\<close>)
  ultimately show ?thesis using inv w unfolding plane_inv_def by (simp add: set_pool_def set_wires_def)
qed

lemma set_wires_id: "set_wires s r (\<lambda>v. v) = s"
  by (simp add: set_wires_def)

lemma plane_inv_take:
  assumes inv: "plane_inv parse render cap d s" and "pl_pool s j = Popping k"
    and "calls (pl_q s) k = Some (Returned (Some r))"
  shows "plane_inv parse render cap d (set_pool s j (Serving k r))"
  using plane_inv_own [OF inv _ assms(3), of j "\<lambda>v. v" "Serving k r"] assms(2,3)
    pool_okD(1) [OF plane_invD(8) [OF inv], of j] plane_invD(6) [OF inv]
  by (simp add: set_wires_id wire_grows_def)

lemma plane_inv_dispatch:
  assumes inv: "plane_inv parse render cap d s" and j: "pl_pool s j = Serving k r"
    and D: "fst (dispatch parse render net d r) = Inr (res, chunks)"
  shows "plane_inv parse render cap d (set_wires (set_pool s j (if rq_Stream r then Pumping k r chunks else Looping)) r
    (\<lambda>v. v\<lparr>wr_result := Some res, wr_sent := Some (res, chunks)\<rparr>))"
proof -
  have ok: "calls (pl_q s) k = Some (Returned (Some r))" "wr_sent (wires_of s r) = None"
    using pool_okD(1) [OF plane_invD(8) [OF inv], of j] j by simp_all
  then have v: "wires_of s r = fresh_wires" using wire_ok_unsent [OF plane_invD(6) [OF inv]] by blast
  show ?thesis
  proof (rule plane_inv_own [OF inv _ ok(1)])
    show "wire_ok ((wires_of s r)\<lparr>wr_result := Some res, wr_sent := Some (res, chunks)\<rparr>)"
      unfolding v by (simp add: wire_ok_def)
    show "wire_grows (wires_of s r) ((wires_of s r)\<lparr>wr_result := Some res, wr_sent := Some (res, chunks)\<rparr>)"
      unfolding v by (simp add: wire_grows_def)
  qed (use j ok D in \<open>auto simp: v\<close>)
qed

lemma plane_inv_send:
  assumes inv: "plane_inv parse render cap d s" and j: "pl_pool s j = Pumping k r (x # xs)"
    and room: "length (wr_chunks (wires_of s r)) < chunksCap"
  shows "plane_inv parse render cap d (set_wires (set_pool s j (Pumping k r xs)) r (\<lambda>v. v\<lparr>wr_chunks := wr_chunks v @ [x]\<rparr>))"
proof -
  obtain res where ok: "calls (pl_q s) k = Some (Returned (Some r))" "rq_Stream r" "\<not> wr_closed (wires_of s r)"
    "wr_sent (wires_of s r) = Some (res, wr_got (wires_of s r) @ wr_chunks (wires_of s r) @ x # xs)"
    using pool_okD(1) [OF plane_invD(8) [OF inv], of j] j by auto
  show ?thesis
  proof (rule plane_inv_own [OF inv _ ok(1)])
    show "wire_ok ((wires_of s r)\<lparr>wr_chunks := wr_chunks (wires_of s r) @ [x]\<rparr>)"
      using plane_invD(6) [OF inv, of "rq_ID r"] ok(3,4) room by (simp add: wire_ok_def)
  qed (use j ok in \<open>auto simp: wire_grows_def\<close>)
qed

lemma plane_inv_close:
  assumes inv: "plane_inv parse render cap d s" and j: "pl_pool s j = Pumping k r []"
  shows "plane_inv parse render cap d (set_wires (set_pool s j Looping) r (wr_closed_update (\<lambda>_. True)))"
proof -
  obtain res where ok: "calls (pl_q s) k = Some (Returned (Some r))" "rq_Stream r" "\<not> wr_closed (wires_of s r)"
    "wr_sent (wires_of s r) = Some (res, wr_got (wires_of s r) @ wr_chunks (wires_of s r))"
    using pool_okD(1) [OF plane_invD(8) [OF inv], of j] j by auto
  show ?thesis
  proof (rule plane_inv_own [OF inv _ ok(1)])
    show "wire_ok ((wires_of s r)\<lparr>wr_closed := True\<rparr>)"
      using plane_invD(6) [OF inv, of "rq_ID r"] ok(4) by (auto simp: wire_ok_def)
  qed (use j ok in \<open>auto simp: wire_grows_def\<close>)
qed

lemma plane_no_panic:
  assumes inv: "plane_inv parse render cap d s" and j: "pl_pool s j = Serving k r"
  shows "fst (dispatch parse render net d r) \<noteq> Inl p"
proof -
  have "calls (pl_q s) k = Some (Returned (Some r))" using pool_okD(1) [OF plane_invD(8) [OF inv], of j] j by simp
  from plane_returned(3) [OF inv this] obtain ms where "parse (rq_Body r) = Some (JObj ms)" by blast
  from dispatch_returns [where parse = parse and r = r, OF this, of render net d] show ?thesis by auto
qed

section \<open>Every reachable state\<close>

lemma plane_inv_start:
  assumes "plane_start cap d s"
  shows "plane_inv parse render cap d s"
proof -
  have q: "qstart cap (pl_q s)" "accepted (pl_q s) = []" "calls (pl_q s) = Map.empty"
    using assms by (simp_all add: plane_start_def qstart_def)
  then show ?thesis
    using assms qsystem.start_inv [OF q(1)]
    by (auto simp: plane_inv_def plane_start_def ids_ok_def sent_ok_def pool_ok_def requests_def)
qed

lemma plane_inv_step:
  assumes "plane_inv parse render cap d s" and "plane_step parse render err_text d s e t"
  shows "plane_inv parse render cap d t"
  using assms(2,1)
proof (induction rule: plane_step.induct)
  case (p_arrive s i r)
  then show ?case by (intro plane_inv_arrive)
next
  case (p_begin s i c now ph g')
  note b = client_begin_ok [OF p_begin(3)]
  show ?case by (rule plane_inv_client [OF p_begin(4,1) b(1) _ b(3)]) (simp add: b(2) p_begin(2))
next
  case (p_estimate s i c body model stream keyID)
  have "client_ok parse (accepted (pl_q s)) (pl_wires s) (cl_http c) (CParsed body model stream keyID)"
    using plane_invD(5) [OF p_estimate(3,1)] p_estimate(2) by simp
  note e = client_estimate_ok [OF this]
  show ?case
    by (subst set_client_same_gateway, rule plane_inv_client [OF p_estimate(3,1) e(1)]) (simp_all add: e(2) p_estimate(2))
next
  case (p_number s i c body model stream keyID est now ph g')
  then show ?case by (intro plane_inv_number)
next
  case (p_push s i c req est ok q')
  then show ?case by (intro plane_inv_push)
next
  case (p_result s i c req w result now ph g')
  have c: "client_ok parse (accepted (pl_q s)) (pl_wires s) (cl_http c) (CWaiting req w)"
    using plane_invD(5) [OF p_result(5,1)] p_result(2) by simp
  have w: "wire_ok (wires_of s req)" by (rule plane_invD(6) [OF p_result(5)])
  note r = client_result_ok [OF c p_result(3) w p_result(4)]
  show ?case
  proof (rule plane_inv_channel [OF p_result(5,1)])
    show "wire_ok (wr_result_update (\<lambda>_. None) (wires_of s req))"
      using w p_result(3) by (auto simp: wire_ok_def split: option.splits)
  qed (use r client_result_creq [OF p_result(4)] p_result(2) in simp_all)
next
  case (p_timeout s i c req w)
  have "client_ok parse (accepted (pl_q s)) (pl_wires s) (cl_http c) (CWaiting req w)"
    using plane_invD(5) [OF p_timeout(3,1)] p_timeout(2) by simp
  note e = client_timeout_ok [OF this]
  show ?case
    by (subst set_client_same_gateway, rule plane_inv_client [OF p_timeout(3,1) e(1)]) (simp_all add: e(2) p_timeout(2))
next
  case (p_chunk s i c req result w x xs)
  have c: "client_ok parse (accepted (pl_q s)) (pl_wires s) (cl_http c) (CStreaming req result w)"
    using plane_invD(5) [OF p_chunk(4,1)] p_chunk(2) by simp
  have w: "wire_ok (wires_of s req)" by (rule plane_invD(6) [OF p_chunk(4)])
  have "plane_inv parse render cap d ((set_wires (set_client s i c (CStreaming req result (write_body x w))) req
      (\<lambda>v. v\<lparr>wr_chunks := xs, wr_got := wr_got v @ [x]\<rparr>))\<lparr>pl_gateway := pl_gateway s\<rparr>)"
  proof (rule plane_inv_channel [OF p_chunk(4,1)])
    show "wire_ok ((wires_of s req)\<lparr>wr_chunks := xs, wr_got := wr_got (wires_of s req) @ [x]\<rparr>)"
      using w p_chunk(3) c by (auto simp: wire_ok_def split: option.splits)
  qed (use c p_chunk(2,3) in \<open>auto\<close>)
  then show ?case by (simp add: set_wires_def set_client_def)
next
  case (p_streamed s i c req result w)
  have "client_ok parse (accepted (pl_q s)) (pl_wires s) (cl_http c) (CStreaming req result w)"
    using plane_invD(5) [OF p_streamed(5,1)] p_streamed(2) by simp
  note e = client_streamed_ok [OF this p_streamed(3,4) plane_invD(6) [OF p_streamed(5)]]
  show ?case
    by (subst set_client_same_gateway, rule plane_inv_client [OF p_streamed(5,1) e(1)]) (simp_all add: e(2) p_streamed(2))
next
  case (p_report s i c a)
  have "client_ok parse (accepted (pl_q s)) (pl_wires s) (cl_http c) (CReporting a)"
    using plane_invD(5) [OF p_report(3,1)] p_report(2) by simp
  then show ?case by (intro plane_inv_client [OF p_report(3,1)]) (simp_all add: p_report(2) gateway_hook_def)
next
  case (p_call s j k q')
  then show ?case by (intro plane_inv_call)
next
  case (p_pop s j k e q')
  then show ?case by (intro plane_inv_pop [OF _ p_pop(2)])
next
  case (p_take s j k req)
  then show ?case by (intro plane_inv_take)
next
  case (p_exit s j k)
  then show ?case by (intro plane_inv_exit)
next
  case (p_dispatch s j k req net result chunks)
  then show ?case by (intro plane_inv_dispatch)
next
  case (p_panic s j k req net p)
  then show ?case using plane_no_panic by blast
next
  case (p_send s j k req x xs)
  then show ?case by (intro plane_inv_send)
next
  case (p_close s j k req)
  then show ?case by (intro plane_inv_close)
next
  case (p_cancel s)
  then show ?case unfolding plane_inv_def pool_ok_def by auto
qed

interpretation planesys: inductive_invariant "plane_start cap d" "plane_step parse render err_text d" "plane_inv parse render cap d"
  for cap d parse render err_text
  by unfold_locales (rule plane_inv_start, assumption, rule plane_inv_step)

lemma plane_owner:
  assumes inv: "plane_inv parse render cap d s" and "r \<in> set (accepted (pl_q s))"
  obtains i c where "pl_clients s i = Some c" "creq (cl_phase c) = Some r"
    "client_ok parse (accepted (pl_q s)) (pl_wires s) (cl_http c) (cl_phase c)"
proof -
  obtain i where "requests (pl_clients s) i = Some r" by (rule ids_ok_owner [OF plane_invD(4) [OF inv] assms(2)])
  then obtain c where "pl_clients s i = Some c" "creq (cl_phase c) = Some r"
    by (auto simp: requests_def bind_eq_Some_conv)
  then show thesis using that plane_invD(5) [OF inv] by blast
qed

text \<open>What was sent to a client comes from the call that returned its request.\<close>

lemma plane_sent:
  assumes inv: "plane_inv parse render cap d s" and "r \<in> set (accepted (pl_q s))" and "wr_sent (wires_of s r) = Some x"
  obtains k net where "calls (pl_q s) k = Some (Returned (Some r))" "fst (dispatch parse render net d r) = Inr x"
proof -
  obtain k r' net where k: "calls (pl_q s) k = Some (Returned (Some r'))" "rq_ID r' = rq_ID r"
    "fst (dispatch parse render net d r') = Inr x"
    using plane_invD(7) [OF inv] assms(3) unfolding sent_ok_def by blast
  obtain i where "requests (pl_clients s) i = Some r'"
    by (rule ids_ok_owner [OF plane_invD(4) [OF inv] plane_returned(1) [OF inv k(1)]])
  from ids_ok_same [OF plane_invD(4) [OF inv] this assms(2) k(2)] have "r' = r" .
  then show thesis using that k by blast
qed

section \<open>The metrics hook\<close>

fun reported_by :: "cphase \<Rightarrow> (string \<times> bool) multiset" where
  "reported_by (CDone a) = {#(an_model a, an_success a)#}"
| "reported_by _ = {#}"

definition reports_of :: "(nat \<rightharpoonup> client) \<Rightarrow> (string \<times> bool) multiset" where
  "reports_of C = (\<Sum>i \<in> dom C. reported_by (cl_phase (the (C i))))"

lemma reports_of_split:
  assumes "finite (dom C)"
  shows "reports_of (C(i \<mapsto> c)) = reported_by (cl_phase c) + reports_of (C(i := None))"
proof -
  let ?f = "\<lambda>j. reported_by (cl_phase (the ((C(i \<mapsto> c)) j)))"
  have "reports_of (C(i \<mapsto> c)) = sum ?f (insert i (dom C - {i}))" unfolding reports_of_def by (rule sum.cong) auto
  also have "\<dots> = ?f i + sum ?f (dom C - {i})" using assms by (subst sum.insert) auto
  also have "sum ?f (dom C - {i}) = reports_of (C(i := None))" unfolding reports_of_def by (rule sum.cong) auto
  also have "?f i = reported_by (cl_phase c)" by simp
  finally show ?thesis .
qed

lemma reports_of_upd:
  assumes "finite (dom C)" and "C i = Some c"
  shows "reports_of (C(i \<mapsto> c\<lparr>cl_phase := ph\<rparr>)) + reported_by (cl_phase c) = reports_of C + reported_by ph"
proof -
  have "C = C(i \<mapsto> c)" using assms(2) by auto
  then have "reports_of C = reported_by (cl_phase c) + reports_of (C(i := None))"
    using reports_of_split [OF assms(1), of i c] by simp
  then show ?thesis using reports_of_split [OF assms(1), of i "c\<lparr>cl_phase := ph\<rparr>"] by simp
qed

definition counted :: "plane \<Rightarrow> bool" where
  "counted s \<longleftrightarrow> finite (dom (pl_clients s)) \<and>
     (g_hasHook (pl_gateway s) \<longrightarrow> mset (g_hookCalls (pl_gateway s)) = reports_of (pl_clients s))"

text \<open>A step of a handler that is not the report leaves the counters alone.\<close>

lemma counted_client:
  assumes "counted s" and "pl_clients s i = Some c" and "reported_by (cl_phase c) = {#}" and "reported_by ph = {#}"
    and "pl_clients t = (pl_clients s)(i \<mapsto> c\<lparr>cl_phase := ph\<rparr>)"
    and "g_hasHook (pl_gateway t) = g_hasHook (pl_gateway s)" and "g_hookCalls (pl_gateway t) = g_hookCalls (pl_gateway s)"
  shows "counted t"
  using assms reports_of_upd [of "pl_clients s" i c ph] by (simp add: counted_def)

lemma client_begin_frame:
  assumes "client_begin parse now g h = (ph, g')"
  shows "reported_by ph = {#}" "g_hasHook g' = g_hasHook g" "g_hookCalls g' = g_hookCalls g"
proof -
  obtain x g1 where a: "authenticate now g h new_response = (x, g1)" by fastforce
  show "reported_by ph = {#}" "g_hasHook g' = g_hasHook g" "g_hookCalls g' = g_hookCalls g"
    using assms a authenticate_frame(6,7) [OF a]
    by (auto simp: client_begin_def Let_def split: if_splits sum.splits option.splits prod.splits)
qed

lemma client_result_frame:
  assumes "client_result err_text now g r w res = (ph, g')"
  shows "reported_by ph = {#}" "g_hasHook g' = g_hasHook g" "g_hookCalls g' = g_hookCalls g"
proof -
  obtain g1 w1 where a: "record_wait g r now w = (g1, w1)" by fastforce
  show "reported_by ph = {#}" "g_hasHook g' = g_hasHook g" "g_hookCalls g' = g_hookCalls g"
    using assms a record_wait_frame(1,2) [OF a]
    by (auto simp: client_result_def Let_def split: option.splits if_splits sum.splits)
qed

lemma counted_step:
  assumes "counted s" and "plane_step parse render err_text d s e t"
  shows "counted t"
  using assms(2,1)
proof (induction rule: plane_step.induct)
  case (p_arrive s i r)
  have "(pl_clients s)(i := None) = pl_clients s" using p_arrive(1) by auto
  then show ?case
    using p_arrive(2) reports_of_split [of "pl_clients s" i "\<lparr>cl_http = r, cl_phase = CArrived\<rparr>"] by (simp add: counted_def)
next
  case (p_begin s i c now ph g')
  note b = client_begin_frame [OF p_begin(3)]
  show ?case by (rule counted_client [OF p_begin(4,1), where ph = ph]) (simp_all add: set_client_def p_begin(2) b)
next
  case (p_estimate s i c body model stream keyID)
  show ?case
    by (rule counted_client [OF p_estimate(3,1), where ph = "client_estimate (gateway_now s) (cl_http c) body model stream keyID"])
       (simp_all add: set_client_def p_estimate(2) client_estimate_def Let_def)
next
  case (p_number s i c body model stream keyID est now ph g')
  then show ?case
    by (intro counted_client [OF p_number(5,1), where ph = ph]) (auto simp: set_client_def client_number_def)
next
  case (p_push s i c req est ok q')
  show ?case
    by (rule counted_client [OF p_push(4,1), where ph = "client_pushed ok req est"])
       (simp_all add: set_client_def p_push(2) client_pushed_def)
next
  case (p_result s i c req w result now ph g')
  note b = client_result_frame [OF p_result(4)]
  show ?case
    by (rule counted_client [OF p_result(5,1), where ph = ph]) (simp_all add: set_client_def set_wires_def p_result(2) b)
next
  case (p_timeout s i c req w)
  show ?case
    by (rule counted_client [OF p_timeout(3,1), where ph = "client_timeout req w"])
       (simp_all add: set_client_def p_timeout(2) client_timeout_def)
next
  case (p_chunk s i c req result w x xs)
  show ?case
    by (rule counted_client [OF p_chunk(4,1), where ph = "CStreaming req result (write_body x w)"])
       (simp_all add: set_client_def set_wires_def p_chunk(2))
next
  case (p_streamed s i c req result w)
  show ?case
    by (rule counted_client [OF p_streamed(5,1), where ph = "client_streamed req result w"])
       (simp_all add: set_client_def p_streamed(2) client_streamed_def)
next
  case (p_report s i c a)
  then show ?case
    using reports_of_upd [of "pl_clients s" i c "CDone a"] by (simp add: counted_def set_client_def gateway_hook_def)
qed (simp_all add: counted_def set_pool_def set_wires_def)

interpretation hooksys: inductive_invariant "plane_start cap d" "plane_step parse render err_text d" counted
  for cap d parse render err_text
  by unfold_locales (simp add: plane_start_def counted_def reports_of_def, rule counted_step)

section \<open>Properties\<close>

text \<open>
  The step in which a goroutine finishes the dispatch of a request: it sends the result on the
  request's own channel, and goes on to forward the chunks of its stream.
\<close>

definition dispatches :: "plane \<Rightarrow> plane_event \<Rightarrow> Request \<Rightarrow> bool" where
  "dispatches s e r \<longleftrightarrow> (\<exists>j k. e = PDispatch j \<and> pl_pool s j = Serving k r)"

definition delivers :: "plane \<Rightarrow> plane_event \<Rightarrow> plane \<Rightarrow> Request \<Rightarrow> Result \<Rightarrow> bytes list \<Rightarrow> bool" where
  "delivers s e t r res chunks \<longleftrightarrow>
     (\<exists>j k. e = PDispatch j \<and> pl_pool s j = Serving k r \<and> wires_of s r = fresh_wires \<and>
        wr_result (wires_of t r) = Some res \<and> pl_pool t j = (if rq_Stream r then Pumping k r chunks else Looping))"

lemma sent_stays:
  assumes "plane_inv parse render cap d s" and "plane_step parse render err_text d s e t" and "wr_sent (pl_wires s m) = Some x"
  shows "wr_sent (pl_wires t m) = Some x"
  using assms(2)
proof (cases rule: plane_step.cases)
  case (p_dispatch j k req net result chunks)
  have "wr_sent (wires_of s req) = None"
    using pool_okD(1) [OF plane_invD(8) [OF assms(1)], of j] p_dispatch(3) by simp
  then show ?thesis using assms(3) p_dispatch(2) by (auto simp: plane_upds)
qed (use assms(3) in \<open>auto simp: plane_upds\<close>)

lemma sent_by_step:
  assumes "plane_inv parse render cap d s" and "plane_step parse render err_text d s e t"
    and "wr_sent (pl_wires s m) = None" and "wr_sent (pl_wires t m) = Some (res, chunks)"
  shows "\<exists>r k. rq_ID r = m \<and> calls (pl_q t) k = Some (Returned (Some r)) \<and> delivers s e t r res chunks \<and>
    (\<exists>net. fst (dispatch parse render net d r) = Inr (res, chunks))"
  using assms(2)
proof (cases rule: plane_step.cases)
  case (p_dispatch j k req net result chunks')
  have "calls (pl_q s) k = Some (Returned (Some req))"
    using pool_okD(1) [OF plane_invD(8) [OF assms(1)], of j] p_dispatch(3) by simp
  moreover have "rq_ID req = m" using p_dispatch(2) assms(3,4) by (auto simp: plane_upds split: if_splits)
  moreover have "wires_of s req = fresh_wires" by (rule wire_ok_unsent [OF plane_invD(6) [OF assms(1)]]) (simp add: calculation(2) assms(3))
  moreover have "result = res" "chunks' = chunks" using p_dispatch(2) assms(4) calculation(2) by (auto simp: plane_upds)
  ultimately show ?thesis
    using p_dispatch(1-4) by (intro exI [of _ req] exI [of _ k]) (auto simp: delivers_def plane_upds)
qed (use assms(3,4) in \<open>auto simp: plane_upds split: if_splits\<close>)

lemma dispatch_sends:
  assumes "plane_inv parse render cap d s" and "plane_step parse render err_text d s e t" and "plane_inv parse render cap d t"
    and "dispatches s e r"
  shows "wr_sent (wires_of s r) = None" and "wr_sent (wires_of t r) \<noteq> None"
proof -
  obtain j k where e: "e = PDispatch j" "pl_pool s j = Serving k r" using assms(4) by (auto simp: dispatches_def)
  then show "wr_sent (wires_of s r) = None" using pool_okD(1) [OF plane_invD(8) [OF assms(1)], of j] by simp
  show "wr_sent (wires_of t r) \<noteq> None"
    using assms(2)
  proof (cases rule: plane_step.cases)
    case (p_panic j' k' req net p)
    then have "pl_pool t j' = Panicked p" by (simp add: plane_upds)
    then show ?thesis using pool_okD(1) [OF plane_invD(8) [OF assms(3)], of j'] by simp
  qed (use e in \<open>auto simp: plane_upds\<close>)
qed

lemma qstep_returned:
  "qstep q e q' \<Longrightarrow> calls q k = Some (Returned x) \<Longrightarrow> calls q' k = Some (Returned x)"
  by (induction rule: qstep.induct) (auto simp: finish_pop_def)

lemma returned_stays:
  "plane_step parse render err_text d s e t \<Longrightarrow> calls (pl_q s) k = Some (Returned x) \<Longrightarrow> calls (pl_q t) k = Some (Returned x)"
  by (induction rule: plane_step.induct) (auto simp: plane_upds intro: qstep_returned)

text \<open>What was sent for a request was sent in exactly one step of the run.\<close>

lemma sent_in_one_step:
  assumes start: "plane_start cap d (f 0)" and path: "state_path (plane_step parse render err_text d) f es"
    and r: "r \<in> set (accepted (pl_q (f (length es))))" and sent: "wr_sent (wires_of (f (length es)) r) = Some (res, chunks)"
  shows "\<exists>!n. n < length es \<and> dispatches (f n) (es ! n) r"
    and "\<exists>n < length es. delivers (f n) (es ! n) (f (Suc n)) r res chunks \<and>
      (\<exists>net. fst (dispatch parse render net d r) = Inr (res, chunks))"
proof -
  let ?W = "\<lambda>n. wr_sent (wires_of (f n) r)"
  have inv: "plane_inv parse render cap d (f n)" if "n \<le> length es" for n
    by (rule planesys.reach_inv [OF path_reach [where start = "plane_start cap d" and f = f, OF start path that]])
  have step: "plane_step parse render err_text d (f n) (es ! n) (f (Suc n))" if "n < length es" for n
    using path that by (simp add: state_path_def)
  have keeps: "?W k = Some x" if "?W n = Some x" "n \<le> k" "k \<le> length es" for n k x
    using that(2,1,3)
  proof (induction k rule: dec_induct)
    case (step k)
    then show ?case using sent_stays [OF inv \<open>\<And>n. n < length es \<Longrightarrow> plane_step parse render err_text d (f n) (es ! n) (f (Suc n))\<close>] by simp
  qed simp
  have "?W 0 = None" using start by (simp add: plane_start_def)
  then obtain n where n: "n < length es" "?W n = None" "?W (Suc n) \<noteq> None"
    using ex_least_nat_less [of "\<lambda>n. ?W n \<noteq> None" "length es"] sent by (metis option.distinct(1) order_refl)
  then have sn: "?W (Suc n) = Some (res, chunks)" using keeps [of "Suc n" _ "length es"] sent by (cases "?W (Suc n)") auto
  obtain r' k where r': "rq_ID r' = rq_ID r" "calls (pl_q (f (Suc n))) k = Some (Returned (Some r'))"
    "delivers (f n) (es ! n) (f (Suc n)) r' res chunks" "\<exists>net. fst (dispatch parse render net d r') = Inr (res, chunks)"
    using sent_by_step [OF inv step n(2) sn] n(1) by (metis less_imp_le)
  have "calls (pl_q (f m)) k = Some (Returned (Some r'))" if "Suc n \<le> m" "m \<le> length es" for m
    using that
  proof (induction m rule: dec_induct)
    case (step m)
    then show ?case
      using returned_stays [OF \<open>\<And>n. n < length es \<Longrightarrow> plane_step parse render err_text d (f n) (es ! n) (f (Suc n))\<close>] by simp
  qed (rule r'(2))
  then have k: "calls (pl_q (f (length es))) k = Some (Returned (Some r'))" using n(1) by simp
  have "r' = r"
    using plane_returned(1) [OF inv k] r r'(1) plane_invD(4) [OF inv, of "length es"]
    by (auto simp: ids_ok_def distinct_map inj_on_def)
  with r'(3,4) n(1) show "\<exists>n < length es. delivers (f n) (es ! n) (f (Suc n)) r res chunks \<and>
      (\<exists>net. fst (dispatch parse render net d r) = Inr (res, chunks))" by blast
  show "\<exists>!n. n < length es \<and> dispatches (f n) (es ! n) r"
  proof (rule ex1I [of _ n])
    show "n < length es \<and> dispatches (f n) (es ! n) r"
      using n(1) r'(3) \<open>r' = r\<close> by (auto simp: delivers_def dispatches_def)
    fix m assume m: "m < length es \<and> dispatches (f m) (es ! m) r"
    then have "?W m = None" "?W (Suc m) \<noteq> None"
      using dispatch_sends [OF inv step inv, of m r] by auto
    then show "m = n" using m n sn keeps [of "Suc n" _ m] keeps [of "Suc m" _ n] by (metis Suc_leI less_imp_le linorder_neqE_nat option.exhaust option.distinct(1))
  qed
qed

text \<open>
  C3: Each client gets the answer to its own request. In every run, however any number of clients and the
  goroutines of the pool interleave, with retries, fallbacks, streams, timeouts and
  cancellation: a handler that is done has refused the request with a 400, 401, 405, 429 or
  503; or it has queued a request made of this client's own body, model, stream flag and
  priority, which is no other client's, and then either gave up with a 504 or
  received a result. Then the run has exactly one step in which a goroutine finished a dispatch of that
  request; the result the handler received is the one sent in that step, on the request's own channel that nothing
  had been sent on before; and what it wrote is that result: status and body, or, complete and in order, the
  chunks that the goroutine went on to forward after that step, or a 502 for an error. It counts as a success
  exactly if the result's status is 2xx. No goroutine of the pool ever panics.
\<close>

theorem clients_get_their_own_answers:
  assumes "plane_start cap d (f 0)" and "state_path (plane_step parse render err_text d) f es" and "s = f (length es)"
    and "pl_clients s i = Some c" and "cl_phase c = CDone a"
  shows "(\<forall>j p. pl_pool s j \<noteq> Panicked p) \<and>
    (case an_req a of
       None \<Rightarrow> an_result a = None \<and> \<not> an_success a \<and>
         rstatus (an_response a) \<in> {Some 400, Some 401, Some 405, Some 429, Some 503}
     | Some r \<Rightarrow>
         made_for parse (cl_http c) r \<and> an_model a = rq_Model r \<and>
         (\<forall>j c'. pl_clients s j = Some c' \<longrightarrow> creq (cl_phase c') = Some r \<longrightarrow> j = i) \<and>
         (case an_result a of
            None \<Rightarrow> \<not> an_success a \<and> rstatus (an_response a) = Some 504
          | Some res \<Rightarrow>
              (\<exists>!n. n < length es \<and> dispatches (f n) (es ! n) r) \<and>
              (\<exists>n < length es. \<exists>chunks. delivers (f n) (es ! n) (f (Suc n)) r res chunks \<and>
                 (\<exists>net. fst (dispatch parse render net d r) = Inr (res, chunks)) \<and> relays a res chunks)))"
proof -
  have inv: "plane_inv parse render cap d s" unfolding assms(3)
    by (rule planesys.reach_inv [OF path_reach [where start = "plane_start cap d" and f = f, OF assms(1,2) order_refl]])
  note I = plane_invD [OF inv]
  have ok: "client_ok parse (accepted (pl_q s)) (pl_wires s) (cl_http c) (CDone a)" using I(5) [OF assms(4)] assms(5) by simp
  have pool: "\<forall>j p. pl_pool s j \<noteq> Panicked p"
    using pool_okD(1) [OF I(8)] by (metis goroutine_ok.simps(4))
  show ?thesis
  proof (cases "an_req a")
    case None
    then show ?thesis using ok pool by (simp add: answer_ok_def)
  next
    case (Some r)
    then have r: "made_for parse (cl_http c) r" "r \<in> set (accepted (pl_q s))" "requests (pl_clients s) i = Some r"
      using ok assms(4,5) by (auto simp: requests_def)
    have own: "\<forall>j c'. pl_clients s j = Some c' \<longrightarrow> creq (cl_phase c') = Some r \<longrightarrow> j = i"
      using ids_ok_unique [OF I(4) _ r(3)] requests_client [of "pl_clients s"] by metis
    note once = sent_in_one_step [OF assms(1,2), of r, folded assms(3), OF r(2)]
    show ?thesis
    proof (cases "an_result a")
      case None
      then show ?thesis using ok pool own r(1) Some by (simp add: answer_ok_def)
    next
      case res: (Some res)
      obtain chunks where ch: "wr_sent (wires_of s r) = Some (res, chunks)" "relays a res chunks"
        using ok Some res by (auto simp: answer_ok_def)
      then show ?thesis using ok pool own r(1) Some res once [OF ch(1)] by (simp add: answer_ok_def) blast
    qed
  qed
qed

text \<open>
  C26: Every handler is counted exactly once. In every reachable state the calls of the metrics hook are,
  as a multiset, one per handler that is done, with the model and the success that handler
  reports; a handler still on its way is not counted yet, and none is counted twice.
\<close>

theorem every_client_counted_once:
  assumes "reach (plane_start cap d) (plane_step parse render err_text d) s" and "g_hasHook (pl_gateway s)"
  shows "mset (g_hookCalls (pl_gateway s)) = reports_of (pl_clients s)"
  using hooksys.reach_inv [OF assms(1)] assms(2) by (simp add: counted_def)

end
