(* ===== verification/Request_Plane_Progress.thy ===== *)
theory Request_Plane_Progress
  imports Request_Plane_Safety
begin

text \<open>
  The request plane left to itself: its internal steps are all but the arrival of clients, the
  expiry of a client's wait and the cancellation. They cannot go on for ever, and where
  they stop every client has its answer, unless the pool was cancelled or a stream
  was abandoned.
\<close>

fun internal :: "plane_event \<Rightarrow> bool" where
  "internal (PArrive _) = False"
| "internal (PTimeout _) = False"
| "internal PCancel = False"
| "internal _ = True"

section \<open>What can always go on\<close>

lemma qstep_push_enabled: "\<exists>ok q'. qstep q (QPush r ok) q'"
proof (cases "\<exists>k. calls q k = Some Blocked")
  case True
  then obtain k where k: "calls q k = Some Blocked" by blast
  show ?thesis
  proof (cases "lanes (queue q) (rq_Priority r)")
    case None
    then show ?thesis by (blast intro: qstep.push_no_lane)
  next
    case (Some l)
    then have "lanes (queue q) (rq_Priority r) \<noteq> None" by simp
    then show ?thesis using k by (blast intro: qstep.push_handoff)
  qed
next
  case False
  obtain ok q' where "TryPush (queue q) r = (ok, q')" by fastforce
  then show ?thesis using False by (blast intro: qstep.push_buffered)
qed

lemma qstep_scan_enabled:
  assumes "calls q k = Some (Scan ps)"
  shows "\<exists>e q'. (e = QMiss k \<or> e = QBlock k \<or> (\<exists>p. e = QRecv k p)) \<and> qstep q e q'"
proof (cases ps)
  case (Cons p ps')
  show ?thesis
  proof (cases "try_recv (queue q) p")
    case None
    then show ?thesis using assms Cons by (blast intro: qstep.pop_scan_miss)
  next
    case (Some x)
    then show ?thesis using assms Cons by (cases x) (blast intro: qstep.pop_scan_hit)
  qed
next
  case Nil
  show ?thesis
  proof (cases "\<exists>p \<in> set popOrder. try_recv (queue q) p \<noteq> None")
    case True
    then obtain p r q' where "p \<in> set popOrder" "try_recv (queue q) p = Some (r, q')" by auto
    then show ?thesis using assms Nil by (blast intro: qstep.pop_select)
  next
    case False
    then show ?thesis using assms Nil by (blast intro: qstep.pop_block)
  qed
qed

text \<open>A state with no internal step.\<close>

definition stuck ::
  "(bytes \<Rightarrow> json option) \<Rightarrow> (json \<Rightarrow> bytes) \<Rightarrow> (dispatch_error \<Rightarrow> string) \<Rightarrow> Dispatcher \<Rightarrow> plane \<Rightarrow> bool" where
  "stuck parse render err_text d s \<longleftrightarrow> (\<forall>e t. internal e \<longrightarrow> \<not> plane_step parse render err_text d s e t)"

lemma stuckD: "stuck parse render err_text d s \<Longrightarrow> plane_step parse render err_text d s e t \<Longrightarrow> \<not> internal e"
  unfolding stuck_def by blast

lemma stuck_client:
  assumes "stuck parse render err_text d s" and c: "pl_clients s i = Some c"
    and "unat (idCounter (pl_gateway s)) + 1 < 2 ^ 64"
  shows "(\<exists>a. cl_phase c = CDone a) \<or>
    (\<exists>r w. cl_phase c = CWaiting r w \<and> wr_result (wires_of s r) = None) \<or>
    (\<exists>r res w. cl_phase c = CStreaming r res w \<and> wr_chunks (wires_of s r) = [] \<and> \<not> wr_closed (wires_of s r))"
proof (cases "cl_phase c")
  case CArrived
  obtain ph g' where "client_begin parse 0 (pl_gateway s) (cl_http c) = (ph, g')" by fastforce
  then show ?thesis using stuckD [OF assms(1) p_begin] c CArrived by fastforce
next
  case (CParsed b m st key)
  then show ?thesis using stuckD [OF assms(1) p_estimate] c by fastforce
next
  case (CEstimated b m st key est)
  obtain ph g' where "client_number 0 (pl_gateway s) (cl_http c) b m st key est = (ph, g')" by fastforce
  then show ?thesis using stuckD [OF assms(1) p_number] c CEstimated assms(3) by fastforce
next
  case (CNumbered r est)
  obtain ok q' where "qstep (pl_q s) (QPush r ok) q'" using qstep_push_enabled by blast
  then show ?thesis using stuckD [OF assms(1) p_push] c CNumbered by fastforce
next
  case (CWaiting r w)
  have False if "wr_result (wires_of s r) = Some res" for res
  proof -
    obtain ph g' where "client_result err_text 0 (pl_gateway s) r w res = (ph, g')" by fastforce
    then show False using stuckD [OF assms(1) p_result] c CWaiting that by fastforce
  qed
  then show ?thesis using CWaiting by (cases "wr_result (wires_of s r)") auto
next
  case (CStreaming r res w)
  have "wr_chunks (wires_of s r) = []"
  proof (cases "wr_chunks (wires_of s r)")
    case (Cons x xs)
    then show ?thesis using stuckD [OF assms(1) p_chunk] c CStreaming by fastforce
  qed
  moreover have "\<not> wr_closed (wires_of s r)"
    using stuckD [OF assms(1) p_streamed [OF c CStreaming]] calculation by fastforce
  ultimately show ?thesis using CStreaming by blast
next
  case (CReporting a)
  then show ?thesis using stuckD [OF assms(1) p_report] c by fastforce
qed simp

lemma stuck_goroutine:
  assumes "stuck parse render err_text d s" and inv: "plane_inv parse render cap d s" and "\<not> pl_cancelled s"
    and "j < nat (concurrency d)"
  shows "(\<exists>k. pl_pool s j = Popping k \<and> calls (pl_q s) k = Some Blocked) \<or>
    (\<exists>k r x xs. pl_pool s j = Pumping k r (x # xs) \<and> chunksCap \<le> length (wr_chunks (wires_of s r)))"
proof (cases "pl_pool s j")
  case Looping
  obtain k where "k \<notin> dom (calls (pl_q s))" using ex_new_if_finite [OF infinite_UNIV_nat plane_invD(2) [OF inv]] by blast
  then have "calls (pl_q s) k = None" by blast
  then have "qstep (pl_q s) (QCall k) ((pl_q s)\<lparr>calls := (calls (pl_q s))(k \<mapsto> Scan popOrder)\<rparr>)" by (rule qstep.pop_call)
  then show ?thesis using stuckD [OF assms(1) p_call] Looping by fastforce
next
  case (Popping k)
  have "goroutine_ok (calls (pl_q s)) (pl_wires s) (Popping k)" using pool_okD(1) [OF plane_invD(8) [OF inv], of j] Popping by simp
  then obtain x where x: "calls (pl_q s) k = Some x" by auto
  show ?thesis
  proof (cases x)
    case (Scan ps)
    then obtain e q' where "e = QMiss k \<or> e = QBlock k \<or> (\<exists>p. e = QRecv k p)" "qstep (pl_q s) e q'"
      using qstep_scan_enabled [of "pl_q s" k] x by blast
    then show ?thesis using stuckD [OF assms(1) p_pop [OF Popping]] by fastforce
  next
    case Blocked
    then show ?thesis using x Popping by blast
  next
    case (Returned z)
    show ?thesis
    proof (cases z)
      case None
      then show ?thesis using stuckD [OF assms(1) p_exit [OF Popping]] x Returned by fastforce
    next
      case (Some r)
      then show ?thesis using stuckD [OF assms(1) p_take [OF Popping]] x Returned by fastforce
    qed
  qed
next
  case (Serving k r)
  have ok: "calls (pl_q s) k = Some (Returned (Some r))" "wr_sent (wires_of s r) = None"
    using pool_okD(1) [OF plane_invD(8) [OF inv], of j] Serving by simp_all
  have "wr_result (wires_of s r) = None" using wire_ok_unsent [OF plane_invD(6) [OF inv] ok(2)] by simp
  moreover obtain ms where "parse (rq_Body r) = Some (JObj ms)" using plane_returned(3) [OF inv ok(1)] by blast
  then obtain res chunks where "fst (dispatch parse render (\<lambda>_ _ _. Unreachable) d r) = Inr (res, chunks)"
    using dispatch_returns [where parse = parse and r = r] by fastforce
  ultimately show ?thesis using stuckD [OF assms(1) p_dispatch [OF Serving]] by fastforce
next
  case (Pumping k r rest)
  show ?thesis
  proof (cases rest)
    case Nil
    have "\<not> wr_closed (wires_of s r)" using pool_okD(1) [OF plane_invD(8) [OF inv], of j] Pumping by simp
    then show ?thesis using stuckD [OF assms(1) p_close] Pumping Nil by fastforce
  next
    case (Cons x xs)
    then have "\<not> length (wr_chunks (wires_of s r)) < chunksCap"
      using stuckD [OF assms(1) p_send] Pumping by fastforce
    then show ?thesis using Pumping Cons by auto
  qed
next
  case Exited
  then show ?thesis using pool_okD(4) [OF plane_invD(8) [OF inv] Exited] assms(3,4) by simp
next
  case (Panicked p)
  then show ?thesis using pool_okD(1) [OF plane_invD(8) [OF inv], of j] by simp
qed

section \<open>Where it stops\<close>

text \<open>A stream that was committed to, or may be, and that nobody reads to its end.\<close>

definition abandoned :: "answer \<Rightarrow> bool" where
  "abandoned a \<longleftrightarrow> (\<exists>r. an_req a = Some r \<and> rq_Stream r) \<and> (an_result a = None \<or> an_panic a \<noteq> None)"

lemma stuck_no_pump:
  assumes st: "stuck parse render err_text d s" and inv: "plane_inv parse render cap d s"
    and ctr: "unat (idCounter (pl_gateway s)) + 1 < 2 ^ 64"
    and live: "\<forall>i c a. pl_clients s i = Some c \<longrightarrow> cl_phase c = CDone a \<longrightarrow> \<not> abandoned a"
    and full: "chunksCap \<le> length (wr_chunks (wires_of s r))"
  shows "pl_pool s j \<noteq> Pumping k r (x # xs)"
proof
  assume j: "pl_pool s j = Pumping k r (x # xs)"
  obtain res where ok: "calls (pl_q s) k = Some (Returned (Some r))" "rq_Stream r" "\<not> wr_closed (wires_of s r)"
    "wr_sent (wires_of s r) = Some (res, wr_got (wires_of s r) @ wr_chunks (wires_of s r) @ x # xs)"
    using pool_okD(1) [OF plane_invD(8) [OF inv], of j] j by auto
  have acc: "r \<in> set (accepted (pl_q s))" by (rule plane_returned(1) [OF inv ok(1)])
  obtain net where "fst (dispatch parse render net d r) = Inr (res, wr_got (wires_of s r) @ wr_chunks (wires_of s r) @ x # xs)"
    using plane_sent [OF inv acc ok(4)] by blast
  from dispatch_shape(2) [OF this] have res: "Streaming res \<and> rs_Err res = None" by simp
  obtain i c where c: "pl_clients s i = Some c" "creq (cl_phase c) = Some r"
    "client_ok parse (accepted (pl_q s)) (pl_wires s) (cl_http c) (cl_phase c)"
    by (rule plane_owner [OF inv acc])
  have "\<not> abandoned a" if "cl_phase c = CDone a" for a using live c(1) that by blast
  then show False
    using stuck_client [OF st c(1) ctr] c(2,3) ok full res
    by (auto simp: chunksCap_def answer_ok_def abandoned_def split: option.splits)
qed

lemma stuck_blocked:
  assumes st: "stuck parse render err_text d s" and inv: "plane_inv parse render cap d s" and run: "\<not> pl_cancelled s"
    and ctr: "unat (idCounter (pl_gateway s)) + 1 < 2 ^ 64"
    and live: "\<forall>i c a. pl_clients s i = Some c \<longrightarrow> cl_phase c = CDone a \<longrightarrow> \<not> abandoned a"
    and "j < nat (concurrency d)"
  shows "\<exists>k. pl_pool s j = Popping k \<and> calls (pl_q s) k = Some Blocked"
  using stuck_goroutine [OF st inv run assms(6)] stuck_no_pump [OF st inv ctr live] by blast

lemma stuck_settled:
  assumes st: "stuck parse render err_text d s" and inv: "plane_inv parse render cap d s" and run: "\<not> pl_cancelled s"
    and pool: "0 < concurrency d" and ctr: "unat (idCounter (pl_gateway s)) + 1 < 2 ^ 64"
    and live: "\<forall>i c a. pl_clients s i = Some c \<longrightarrow> cl_phase c = CDone a \<longrightarrow> \<not> abandoned a"
    and c: "pl_clients s i = Some c"
  shows "\<exists>a. cl_phase c = CDone a"
proof -
  note I = plane_invD [OF inv]
  note blocked = stuck_blocked [OF st inv run ctr live]
  have idle: "pl_pool s j = Exited \<or> (\<exists>k. pl_pool s j = Popping k \<and> calls (pl_q s) k = Some Blocked)" for j
    using pool_okD(6) [OF I(8), of j] blocked by blast
  have "0 < nat (concurrency d)" using pool by simp
  then obtain k0 where "calls (pl_q s) k0 = Some Blocked" using blocked by blast
  then have empty: "waiting (queue (pl_q s)) = []" using I(1) by (auto simp: qinv_def no_lost_wakeup_def)
  have no_work: "\<not> (works_on (pl_wires s) k (Returned (Some r)) (pl_pool s j) \<and> calls (pl_q s) k = Some (Returned (Some r)) \<and>
      (wr_sent (wires_of s r) = None \<or> rq_Stream r \<and> \<not> wr_closed (wires_of s r)))" for k r j
    using idle [of j] by (auto split: if_splits)
  have served: "\<not> (wr_sent (wires_of s r) = None \<or> rq_Stream r \<and> \<not> wr_closed (wires_of s r))"
    if "calls (pl_q s) k = Some (Returned (Some r))" for k r
    using pool_okD(3) [OF I(8) that] no_work [of k r] that by blast
  show ?thesis
    using stuck_client [OF st c ctr]
  proof (elim disjE exE conjE)
    fix r w assume p: "cl_phase c = CWaiting r w" "wr_result (wires_of s r) = None"
    then have r: "r \<in> set (accepted (pl_q s))" "wr_sent (wires_of s r) = None"
      using I(5) [OF c] by (auto, cases "wr_sent (wires_of s r)") auto
    have "r \<in># mset (map snd (returned (pl_q s)))" using qinv_mset [OF I(1)] empty r(1) by (metis set_mset_mset add_0_right mset.simps(1))
    then obtain k where "(k, r) \<in> set (returned (pl_q s))" by auto
    then have "calls (pl_q s) k = Some (Returned (Some r))" using I(1) by (simp add: qinv_def delivered_def)
    then show ?thesis using served r(2) by blast
  next
    fix r res w assume p: "cl_phase c = CStreaming r res w" "\<not> wr_closed (wires_of s r)"
    then obtain chunks where r: "r \<in> set (accepted (pl_q s))" "wr_sent (wires_of s r) = Some (res, chunks)" "Streaming res"
      using I(5) [OF c] by auto
    from plane_sent [OF inv r(1,2)] obtain k net where k: "calls (pl_q s) k = Some (Returned (Some r))"
      "fst (dispatch parse render net d r) = Inr (res, chunks)" by blast
    then show ?thesis using served dispatch_shape(1) [OF k(2) r(3)] p(2) by blast
  qed blast
qed

section \<open>Why it stops\<close>

text \<open>
  The clients whose request has not been dispatched, and the work left apart from the
  dispatches: steps of clients, of goroutines, and chunks on their way.
\<close>

fun undispatched :: "(string \<Rightarrow> wires) \<Rightarrow> cphase \<Rightarrow> bool" where
  "undispatched W CArrived = True"
| "undispatched W (CParsed _ _ _ _) = True"
| "undispatched W (CEstimated _ _ _ _ _) = True"
| "undispatched W (CNumbered _ _) = True"
| "undispatched W ph = (case creq ph of None \<Rightarrow> False | Some r \<Rightarrow> wr_sent (W (rq_ID r)) = None)"

definition undispatched_clients :: "plane \<Rightarrow> nat set" where
  "undispatched_clients s = {i. \<exists>c. pl_clients s i = Some c \<and> undispatched (pl_wires s) (cl_phase c)}"

definition sent_chunks :: "wires \<Rightarrow> nat" where
  "sent_chunks v = (case wr_sent v of None \<Rightarrow> 0 | Some (_, chunks) \<Rightarrow> length chunks)"

fun client_work :: "(string \<Rightarrow> wires) \<Rightarrow> cphase \<Rightarrow> nat" where
  "client_work W CArrived = 7"
| "client_work W (CParsed _ _ _ _) = 6"
| "client_work W (CEstimated _ _ _ _ _) = 5"
| "client_work W (CNumbered _ _) = 4"
| "client_work W (CWaiting r _) = 3 + sent_chunks (W (rq_ID r))"
| "client_work W (CStreaming r _ _) = 2 + (sent_chunks (W (rq_ID r)) - length (wr_got (W (rq_ID r))))"
| "client_work W (CReporting _) = 1"
| "client_work W (CDone _) = 0"

fun call_work :: "pop_call option \<Rightarrow> nat" where
  "call_work (Some (Scan ps)) = 3 + length ps"
| "call_work (Some Blocked) = 2"
| "call_work (Some (Returned _)) = 1"
| "call_work None = 0"

fun goroutine_work :: "(nat \<rightharpoonup> pop_call) \<Rightarrow> goroutine \<Rightarrow> nat" where
  "goroutine_work cs Looping = 7"
| "goroutine_work cs (Popping k) = call_work (cs k)"
| "goroutine_work cs (Serving _ _) = 0"
| "goroutine_work cs (Pumping _ _ rest) = 8 + length rest"
| "goroutine_work cs _ = 0"

definition clients_work :: "plane \<Rightarrow> nat" where
  "clients_work s = (\<Sum>i \<in> dom (pl_clients s). client_work (pl_wires s) (cl_phase (the (pl_clients s i))))"

definition pool_work :: "nat \<Rightarrow> plane \<Rightarrow> nat" where
  "pool_work n s = (\<Sum>j < n. goroutine_work (calls (pl_q s)) (pl_pool s j))"

definition plane_measure :: "nat \<Rightarrow> plane \<Rightarrow> nat \<times> nat" where
  "plane_measure n s = (card (undispatched_clients s), clients_work s + pool_work n s)"

lemma finite_undispatched: "finite (dom (pl_clients s)) \<Longrightarrow> finite (undispatched_clients s)"
  by (rule finite_subset [of _ "dom (pl_clients s)"]) (auto simp: undispatched_clients_def)

text \<open>A step of one client: its work decreases, that of all others stays.\<close>

lemma client_step_decreases:
  assumes "finite (dom (pl_clients s))" and "pl_clients s i = Some c"
    and t: "pl_clients t = (pl_clients s)(i \<mapsto> c\<lparr>cl_phase := ph\<rparr>)"
    and others: "\<And>j c'. pl_clients s j = Some c' \<Longrightarrow> j \<noteq> i \<Longrightarrow>
      client_work (pl_wires t) (cl_phase c') = client_work (pl_wires s) (cl_phase c') \<and>
      (undispatched (pl_wires t) (cl_phase c') \<longrightarrow> undispatched (pl_wires s) (cl_phase c'))"
    and less: "client_work (pl_wires t) ph < client_work (pl_wires s) (cl_phase c)"
    and "undispatched (pl_wires t) ph \<Longrightarrow> undispatched (pl_wires s) (cl_phase c)"
    and pool: "pool_work n t \<le> pool_work n s"
  shows "(plane_measure n t, plane_measure n s) \<in> less_than <*lex*> less_than"
proof -
  have "undispatched_clients t \<subseteq> undispatched_clients s"
    using assms(2,6) others by (auto simp: undispatched_clients_def t split: if_splits)
  then have "card (undispatched_clients t) \<le> card (undispatched_clients s)"
    by (rule card_mono [OF finite_undispatched [OF assms(1)]])
  moreover have "clients_work t < clients_work s"
  proof -
    have dom: "dom (pl_clients t) = dom (pl_clients s)" using assms(2) by (auto simp: t)
    show ?thesis unfolding clients_work_def dom
      by (rule sum_decreases [OF assms(1), of i]) (use others less assms(2) in \<open>auto simp: t\<close>)
  qed
  ultimately show ?thesis using pool by (auto simp: plane_measure_def)
qed

text \<open>A step of one goroutine that is no dispatch.\<close>

lemma pool_step_decreases:
  assumes "pl_clients t = pl_clients s"
    and wires: "\<And>m. wr_sent (pl_wires t m) = wr_sent (pl_wires s m) \<and> wr_got (pl_wires t m) = wr_got (pl_wires s m)"
    and "j < n" and "goroutine_work (calls (pl_q t)) (pl_pool t j) < goroutine_work (calls (pl_q s)) (pl_pool s j)"
    and "\<And>i. i \<noteq> j \<Longrightarrow> goroutine_work (calls (pl_q t)) (pl_pool t i) = goroutine_work (calls (pl_q s)) (pl_pool s i)"
  shows "(plane_measure n t, plane_measure n s) \<in> less_than <*lex*> less_than"
proof -
  have "undispatched (pl_wires t) ph = undispatched (pl_wires s) ph" "client_work (pl_wires t) ph = client_work (pl_wires s) ph" for ph
    using wires by (cases ph; simp add: sent_chunks_def split: option.split)+
  then have "undispatched_clients t = undispatched_clients s" "clients_work t = clients_work s"
    using assms(1) by (simp_all add: undispatched_clients_def clients_work_def)
  moreover have "pool_work n t < pool_work n s"
    unfolding pool_work_def by (rule sum_decreases [of _ j]) (use assms(3-5) in auto)
  ultimately show ?thesis by (simp add: plane_measure_def)
qed

text \<open>A dispatch.\<close>

lemma dispatch_decreases:
  assumes "finite (dom (pl_clients s))" and "pl_clients t = pl_clients s"
    and "\<And>m. wr_sent (pl_wires t m) = None \<Longrightarrow> wr_sent (pl_wires s m) = None"
    and c: "pl_clients s i = Some c" "undispatched (pl_wires s) (cl_phase c)" "\<not> undispatched (pl_wires t) (cl_phase c)"
  shows "(plane_measure n t, plane_measure n s) \<in> less_than <*lex*> less_than"
proof -
  have "undispatched (pl_wires t) ph \<Longrightarrow> undispatched (pl_wires s) ph" for ph
    using assms(3) by (cases ph) (auto split: option.splits)
  then have "undispatched_clients t \<subseteq> undispatched_clients s"
    using assms(2) by (auto simp: undispatched_clients_def)
  moreover have "i \<in> undispatched_clients s" "i \<notin> undispatched_clients t"
    using assms(2) c by (auto simp: undispatched_clients_def)
  ultimately have "undispatched_clients t \<subset> undispatched_clients s" by blast
  then have "card (undispatched_clients t) < card (undispatched_clients s)"
    by (rule psubset_card_mono [OF finite_undispatched [OF assms(1)]])
  then show ?thesis by (simp add: plane_measure_def)
qed

text \<open>What the pieces of a handler leave to do.\<close>

lemma client_begin_work:
  assumes "client_begin parse now g h = (ph, g')"
  shows "client_work W ph < 7"
  using assms by (auto simp: client_begin_def Let_def split: if_splits sum.splits option.splits prod.splits)

lemma client_estimate_work: "client_work W (client_estimate g h b m st key) < 6"
  by (simp add: client_estimate_def Let_def)

lemma client_result_work:
  assumes "client_result err_text now g r w res = (ph, g')"
  shows "client_work W ph < 3 + sent_chunks (W (rq_ID r))"
  using assms by (auto simp: client_result_def Let_def split: option.splits if_splits sum.splits prod.splits)

text \<open>A step of a client that leaves the queue, the pool and the channels of others alone.\<close>

lemma client_only_decreases:
  assumes inv: "plane_inv parse render cap d s" and c: "pl_clients s i = Some c"
    and t: "pl_clients t = (pl_clients s)(i \<mapsto> c\<lparr>cl_phase := ph\<rparr>)" "pl_q t = pl_q s" "pl_pool t = pl_pool s"
    and others: "\<And>r m. creq (cl_phase c) = Some r \<Longrightarrow> m \<noteq> rq_ID r \<Longrightarrow> pl_wires t m = pl_wires s m"
      "creq (cl_phase c) = None \<Longrightarrow> pl_wires t = pl_wires s"
    and "client_work (pl_wires t) ph < client_work (pl_wires s) (cl_phase c)"
    and "undispatched (pl_wires t) ph \<Longrightarrow> undispatched (pl_wires s) (cl_phase c)"
  shows "(plane_measure n t, plane_measure n s) \<in> less_than <*lex*> less_than"
proof (rule client_step_decreases [OF plane_invD(3) [OF inv] c t(1)])
  fix j c' assume c': "pl_clients s j = Some c'" "j \<noteq> i"
  have "pl_wires t (rq_ID r') = pl_wires s (rq_ID r')" if "creq (cl_phase c') = Some r'" for r'
  proof (cases "creq (cl_phase c)")
    case None
    then show ?thesis using others(2) by simp
  next
    case (Some r)
    then have "requests (pl_clients s) i = Some r" "requests (pl_clients s) j = Some r'"
      using c c'(1) that by (simp_all add: requests_def)
    then have "rq_ID r' \<noteq> rq_ID r" using ids_ok_unique [OF plane_invD(4) [OF inv]] c'(2) by metis
    then show ?thesis using others(1) [OF Some] by simp
  qed
  then show "client_work (pl_wires t) (cl_phase c') = client_work (pl_wires s) (cl_phase c') \<and>
      (undispatched (pl_wires t) (cl_phase c') \<longrightarrow> undispatched (pl_wires s) (cl_phase c'))"
    by (cases "cl_phase c'") (auto split: option.splits)
next
  show "pool_work n t \<le> pool_work n s" using t by (simp add: pool_work_def)
qed (use assms in auto)

lemma push_decreases:
  assumes inv: "plane_inv parse render cap d s" and c: "pl_clients s i = Some c" "cl_phase c = CNumbered r est"
    and q: "qstep (pl_q s) (QPush r ok) q'"
  shows "(plane_measure n ((set_client s i c (client_pushed ok r est))\<lparr>pl_q := q'\<rparr>), plane_measure n s) \<in> less_than <*lex*> less_than"
proof (rule client_step_decreases [OF plane_invD(3) [OF inv] c(1)])
  let ?t = "(set_client s i c (client_pushed ok r est))\<lparr>pl_q := q'\<rparr>"
  show "pl_clients ?t = (pl_clients s)(i \<mapsto> c\<lparr>cl_phase := client_pushed ok r est\<rparr>)" by (simp add: set_client_def)
  have "rq_ID r \<notin> rq_ID ` set (accepted (pl_q s))" using plane_invD(5) [OF inv c(1)] c(2) by simp
  then have "wires_of s r = fresh_wires" by (rule plane_unaccepted [OF inv])
  then show "client_work (pl_wires ?t) (client_pushed ok r est) < client_work (pl_wires s) (cl_phase c)"
    by (simp add: c(2) client_pushed_def set_client_def sent_chunks_def)
  have "goroutine_work (calls q') g \<le> goroutine_work (calls (pl_q s)) g" for g
    using qstep_push(2) [OF q] by (cases g) auto
  then show "pool_work n ?t \<le> pool_work n s"
    unfolding pool_work_def by (intro sum_mono) (simp add: set_client_def)
qed (simp_all add: c(2) set_client_def)

lemma pop_decreases:
  assumes inv: "plane_inv parse render cap d s" and j: "pl_pool s j = Popping k"
    and e: "e = QMiss k \<or> e = QBlock k \<or> (\<exists>p. e = QRecv k p) \<or> e = QCancel k"
    and q: "qstep (pl_q s) e q'"
  shows "(plane_measure (nat (concurrency d)) (s\<lparr>pl_q := q'\<rparr>), plane_measure (nat (concurrency d)) s)
    \<in> less_than <*lex*> less_than"
proof (rule pool_step_decreases [of _ _ j])
  note pool = plane_invD(8) [OF inv]
  show "j < nat (concurrency d)" using pool_okD(6) [OF pool, of j] j by simp
  have "call_work (calls q' k) < call_work (calls (pl_q s) k)"
    using q e by (cases rule: qstep.cases) (auto simp: finish_pop_def)
  then show "goroutine_work (calls (pl_q (s\<lparr>pl_q := q'\<rparr>))) (pl_pool (s\<lparr>pl_q := q'\<rparr>) j) < goroutine_work (calls (pl_q s)) (pl_pool s j)"
    by (simp add: j)
  fix i assume "i \<noteq> j"
  then have "current (pl_pool s i) \<noteq> Some k" using pool_okD(2) [OF pool, of i k j] j by auto
  moreover obtain y where "calls q' = (calls (pl_q s))(k \<mapsto> y)" using qstep_pop(2) [OF q e] by blast
  ultimately show "goroutine_work (calls (pl_q (s\<lparr>pl_q := q'\<rparr>))) (pl_pool (s\<lparr>pl_q := q'\<rparr>) i) =
      goroutine_work (calls (pl_q s)) (pl_pool s i)"
    by (cases "pl_pool s i") auto
qed simp_all

lemma serving_decreases:
  assumes inv: "plane_inv parse render cap d s" and j: "pl_pool s j = Serving k r"
  shows "(plane_measure n (set_wires (set_pool s j g) r (\<lambda>v. v\<lparr>wr_result := Some res, wr_sent := Some x\<rparr>)), plane_measure n s)
    \<in> less_than <*lex*> less_than"
proof -
  have ok: "calls (pl_q s) k = Some (Returned (Some r))" "wr_sent (wires_of s r) = None"
    using pool_okD(1) [OF plane_invD(8) [OF inv], of j] j by simp_all
  have acc: "r \<in> set (accepted (pl_q s))" by (rule plane_returned(1) [OF inv ok(1)])
  obtain i c where c: "pl_clients s i = Some c" "creq (cl_phase c) = Some r"
    "client_ok parse (accepted (pl_q s)) (pl_wires s) (cl_http c) (cl_phase c)"
    by (rule plane_owner [OF inv acc])
  then have "\<not> (\<exists>r' est. cl_phase c = CNumbered r' est)" using acc by auto
  then have u: "undispatched W (cl_phase c) \<longleftrightarrow> wr_sent (W (rq_ID r)) = None" for W using c(2) by (cases "cl_phase c") auto
  show ?thesis
    by (rule dispatch_decreases [OF plane_invD(3) [OF inv] _ _ c(1)])
       (simp_all add: u ok(2) set_wires_def set_pool_def split: if_splits)
qed

lemma plane_step_decreases:
  assumes "plane_inv parse render cap d s" and "plane_step parse render err_text d s e t" and "internal e \<or> (\<exists>i. e = PTimeout i)"
  shows "(plane_measure (nat (concurrency d)) t, plane_measure (nat (concurrency d)) s) \<in> less_than <*lex*> less_than"
  using assms(2,1,3)
proof (induction rule: plane_step.induct)
  case (p_begin s i c now ph g')
  note b = client_begin_ok(2) [OF p_begin(3)] client_begin_work [OF p_begin(3), of "pl_wires s"]
  show ?case by (rule client_only_decreases [OF p_begin(4,1), where ph = ph]) (use b in \<open>simp_all add: set_client_def p_begin(2)\<close>)
next
  case (p_estimate s i c body model stream keyID)
  show ?case
    using client_estimate_work [of "pl_wires s" "gateway_now s" "cl_http c" body model stream keyID]
    by (intro client_only_decreases [OF p_estimate(3,1),
          where ph = "client_estimate (gateway_now s) (cl_http c) body model stream keyID"]) (simp_all add: set_client_def p_estimate(2))
next
  case (p_number s i c body model stream keyID est now ph g')
  then have ph: "\<exists>r. ph = CNumbered r est" by (auto simp: client_number_def)
  show ?case by (rule client_only_decreases [OF p_number(5,1), where ph = ph]) (use ph p_number(2) in \<open>auto simp: set_client_def\<close>)
next
  case (p_push s i c req est ok q')
  then show ?case by (intro push_decreases)
next
  case (p_result s i c req w result now ph g')
  have sent: "wr_sent (wires_of s req) \<noteq> None"
  proof
    assume "wr_sent (wires_of s req) = None"
    from wire_ok_unsent [OF plane_invD(6) [OF p_result(5)] this] show False using p_result(3) by simp
  qed
  note creq = client_result_creq [OF p_result(4)]
  let ?W = "(pl_wires s)(rq_ID req := wr_result_update (\<lambda>_. None) (wires_of s req))"
  have "client_work ?W ph < 3 + sent_chunks (?W (rq_ID req))" by (rule client_result_work [OF p_result(4)])
  moreover have "\<not> undispatched ?W ph"
    using sent creq p_result(4) by (auto simp: client_result_def Let_def split: option.splits if_splits sum.splits prod.splits)
  ultimately show ?case
    by (intro client_only_decreases [OF p_result(5,1), where ph = ph]) (auto simp: set_client_def set_wires_def p_result(2) sent_chunks_def)
next
  case (p_timeout s i c req w)
  show ?case
    by (rule client_only_decreases [OF p_timeout(3,1), where ph = "client_timeout req w"])
      (simp_all add: set_client_def client_timeout_def p_timeout(2))
next
  case (p_chunk s i c req result w x xs)
  have "client_ok parse (accepted (pl_q s)) (pl_wires s) (cl_http c) (CStreaming req result w)"
    using plane_invD(5) [OF p_chunk(4,1)] p_chunk(2) by simp
  then obtain ch where ch: "wr_sent (wires_of s req) = Some (result, ch)" by auto
  moreover have "wire_ok (wires_of s req)" by (rule plane_invD(6) [OF p_chunk(4)])
  ultimately have "length (wr_got (wires_of s req)) < length ch" using p_chunk(3) by (auto simp: wire_ok_def)
  then show ?case
    using ch by (intro client_only_decreases [OF p_chunk(4,1), where ph = "CStreaming req result (write_body x w)"])
      (simp_all add: set_client_def set_wires_def p_chunk(2) sent_chunks_def)
next
  case (p_streamed s i c req result w)
  have "client_ok parse (accepted (pl_q s)) (pl_wires s) (cl_http c) (CStreaming req result w)"
    using plane_invD(5) [OF p_streamed(5,1)] p_streamed(2) by simp
  then show ?case
    by (intro client_only_decreases [OF p_streamed(5,1), where ph = "client_streamed req result w"]) (auto simp: set_client_def client_streamed_def p_streamed(2))
next
  case (p_report s i c a)
  show ?case
    by (rule client_only_decreases [OF p_report(3,1), where ph = "CDone a"]) (simp_all add: set_client_def p_report(2))
next
  case (p_call s j k q')
  then have q': "q' = (pl_q s)\<lparr>calls := (calls (pl_q s))(k \<mapsto> Scan popOrder)\<rparr>" and k: "calls (pl_q s) k = None"
    by (simp_all add: qstep_call)
  note pool = plane_invD(8) [OF p_call(3)]
  have other: "current (pl_pool s i) \<noteq> Some k" for i
    using goroutine_current [OF pool_okD(1) [OF pool]] k by blast
  have same: "goroutine_work (calls q') (pl_pool s i) = goroutine_work (calls (pl_q s)) (pl_pool s i)" for i
    using q' other [of i] by (cases "pl_pool s i") auto
  have "j < nat (concurrency d)" using pool_okD(6) [OF pool, of j] p_call(1) by simp
  then show ?case
    by (rule pool_step_decreases [rotated 2]) (simp_all add: set_pool_def same p_call(1), simp add: q' popOrder_def)
next
  case (p_pop s j k e q')
  then show ?case by (intro pop_decreases) auto
next
  case (p_take s j k req)
  have "j < nat (concurrency d)" using pool_okD(6) [OF plane_invD(8) [OF p_take(3)], of j] p_take(1) by simp
  then show ?case by (rule pool_step_decreases [rotated 2]) (simp_all add: set_pool_def p_take)
next
  case (p_exit s j k)
  have "j < nat (concurrency d)" using pool_okD(6) [OF plane_invD(8) [OF p_exit(3)], of j] p_exit(1) by simp
  then show ?case by (rule pool_step_decreases [rotated 2]) (simp_all add: set_pool_def p_exit)
next
  case (p_dispatch s j k req net result chunks)
  then show ?case by (intro serving_decreases)
next
  case (p_panic s j k req net p)
  then show ?case using plane_no_panic by blast
next
  case (p_send s j k req x xs)
  have "j < nat (concurrency d)" using pool_okD(6) [OF plane_invD(8) [OF p_send(3)], of j] p_send(1) by simp
  then show ?case by (rule pool_step_decreases [rotated 2]) (simp_all add: set_pool_def set_wires_def p_send(1))
next
  case (p_close s j k req)
  have "j < nat (concurrency d)" using pool_okD(6) [OF plane_invD(8) [OF p_close(3)], of j] p_close(1) by simp
  then show ?case by (rule pool_step_decreases [rotated 2]) (simp_all add: set_pool_def set_wires_def p_close(1))
qed simp_all

section \<open>Properties\<close>

lemma cancel_measure: "plane_step parse render err_text d s PCancel t \<Longrightarrow> plane_measure n t = plane_measure n s"
  by (erule plane_step.cases)
    (simp_all add: plane_measure_def undispatched_clients_def clients_work_def pool_work_def)

definition internal_step ::
  "(bytes \<Rightarrow> json option) \<Rightarrow> (json \<Rightarrow> bytes) \<Rightarrow> (dispatch_error \<Rightarrow> string) \<Rightarrow> Dispatcher \<Rightarrow> plane \<Rightarrow> plane \<Rightarrow> bool" where
  "internal_step parse render err_text d s t \<longleftrightarrow> (\<exists>e. internal e \<and> plane_step parse render err_text d s e t)"

interpretation planerest: settling "plane_start cap d" "plane_step parse render err_text d" "plane_inv parse render cap d"
    internal "\<lambda>e. e = PCancel" "plane_measure (nat (concurrency d))" "less_than <*lex*> less_than"
  for cap d parse render err_text
proof unfold_locales
  show "wf (less_than <*lex*> less_than)" by (simp add: wf_lex_prod)
qed (simp_all add: plane_step_decreases cancel_measure)

text \<open>
  The request plane comes to rest. From every reachable state, with any number of clients in any
  phase of their handlers and any state of the pool, there is no infinite run of internal
  steps: however the goroutines are scheduled and whatever the upstream answers (streams of
  any finite length included), nobody spins and no request is dispatched again and again.
\<close>

theorem request_plane_rests:
  assumes "reach (plane_start cap d) (plane_step parse render err_text d) s"
  shows "\<nexists>f. f 0 = s \<and> (\<forall>n. internal_step parse render err_text d (f n) (f (Suc n)))"
  using planerest.rests [OF assms] by (simp add: internal_step_def)

text \<open>
  Where the request plane rests, everybody has been answered. In a reachable state with no internal
  step left, if the pool was not cancelled, has at least one goroutine and the id
  counter is not used up, every client has its answer and has been counted: nobody waits
  for a result, no accepted request is still queued, no goroutine is stuck. The one
  exception is in the hypothesis: a streaming client that timed out, or whose response
  could not be started, can leave a goroutine blocked on a stream that nobody reads.
\<close>

theorem request_plane_answers_everyone:
  assumes "reach (plane_start cap d) (plane_step parse render err_text d) s"
    and "\<nexists>t. internal_step parse render err_text d s t"
    and "\<not> pl_cancelled s" and "0 < concurrency d" and "unat (idCounter (pl_gateway s)) + 1 < 2 ^ 64"
    and "\<forall>i c a. pl_clients s i = Some c \<longrightarrow> cl_phase c = CDone a \<longrightarrow> \<not> abandoned a"
  shows "(\<forall>i c. pl_clients s i = Some c \<longrightarrow> (\<exists>a. cl_phase c = CDone a)) \<and> waiting (queue (pl_q s)) = [] \<and>
    (\<forall>j < nat (concurrency d). \<exists>k. pl_pool s j = Popping k \<and> calls (pl_q s) k = Some Blocked)"
proof -
  have inv: "plane_inv parse render cap d s" by (rule planesys.reach_inv [OF assms(1)])
  have st: "stuck parse render err_text d s" using assms(2) by (auto simp: stuck_def internal_step_def)
  have pool: "\<exists>k. pl_pool s j = Popping k \<and> calls (pl_q s) k = Some Blocked" if "j < nat (concurrency d)" for j
    by (rule stuck_blocked [OF st inv assms(3,5,6) that])
  moreover have "waiting (queue (pl_q s)) = []"
    using pool [of 0] assms(4) plane_invD(1) [OF inv] by (auto simp: qinv_def no_lost_wakeup_def)
  ultimately show ?thesis using stuck_settled [OF st inv assms(3-6)] by blast
qed

end
