(* ===== verification/Proto.thy ===== *)
theory Proto
  imports Go_Prelude Float64
begin

text \<open>
  The messages of the worker registry's gRPC service (\<^verbatim>\<open>proto/registry.pb.go\<close>, generated
  from \<^verbatim>\<open>registry.proto\<close>). The bookkeeping fields of the protobuf runtime are left
  out; every field the system reads or writes is kept. A proto3 enumeration is open: a
  message can carry any 32-bit number, so \<open>WorkerState\<close> has a constructor for the
  numbers without a name.
\<close>

type_synonym uint32 = "32 word"
type_synonym uint64 = "64 word"

datatype WorkerState = STARTING | READY | BUSY | DRAINING | DEAD | Unrecognized int

definition known_state :: "WorkerState \<Rightarrow> bool" where
  "known_state s \<longleftrightarrow> s \<in> {STARTING, READY, BUSY, DRAINING, DEAD}"

record WorkerInfo =
  WorkerId :: string
  Address :: string
  GpuType :: string
  VramBytes :: uint64
  ModelsLoaded :: "string list"
  Backend :: string
  Provider :: string
  Hardware :: string
  CostPerHour :: float64

record RegisterResponse =
  rr_Ok :: bool
  rr_Message :: string
  HeartbeatIntervalSecs :: uint32

record HeartbeatRequest =
  hb_WorkerId :: string
  hb_State :: WorkerState

record HeartbeatResponse =
  hr_Ok :: bool
  Drain :: bool

record LoadReport =
  lr_WorkerId :: string
  QueueDepth :: uint32
  RequestsPerSec :: float64
  AvgLatencyMs :: float64
  VramUsedBytes :: uint64

record DeregisterRequest =
  dr_WorkerId :: string

text \<open>The zero report that \<^verbatim>\<open>&pb.LoadReport{WorkerId: id}\<close> builds.\<close>

definition zero_load :: "string \<Rightarrow> LoadReport" where
  "zero_load wid = \<lparr>lr_WorkerId = wid, QueueDepth = 0, RequestsPerSec = Fin 0,
     AvgLatencyMs = Fin 0, VramUsedBytes = 0\<rparr>"

end
