(* ===== verification/Registry.thy ===== *)
theory Registry
  imports Proto
begin

text \<open>
  The worker registry (\<^verbatim>\<open>control-plane/registry/registry.go\<close>): fleet membership, the worker
  life-cycle, heartbeats and the detection of dead workers.

  Each method is a function of the registry that returns its result and the new registry;
  the instants it reads from the clock are arguments, in the order the code reads them.
  The deadline timers are modelled as the runtime keeps them: a store of timers, each
  with the worker its callback was created for, armed or not; an entry points to its
  timer. A timer that fires starts a goroutine that waits for the registry's lock, so
  firing (\<open>fire_timer\<close>) and running \<open>markDead\<close> (\<open>run_callback\<close>) are two steps, and a
  heartbeat can fall between them.
\<close>

section \<open>State\<close>

datatype grpc_code = InvalidArgument | NotFound | Unknown

datatype reg_error =
    WorkerIdRequired
  | AddressRequired
  | NotRegisteredReRegister string
  | InvalidStateTransition WorkerState WorkerState string
  | NotRegistered string
  | WorkerNotFound string

fun grpc_code_of :: "reg_error \<Rightarrow> grpc_code" where
  "grpc_code_of WorkerIdRequired = InvalidArgument"
| "grpc_code_of AddressRequired = InvalidArgument"
| "grpc_code_of (NotRegisteredReRegister _) = NotFound"
| "grpc_code_of (InvalidStateTransition _ _ _) = InvalidArgument"
| "grpc_code_of (NotRegistered _) = NotFound"
| "grpc_code_of (WorkerNotFound _) = Unknown"

record WorkerEntry =
  Info :: WorkerInfo
  State :: WorkerState
  LastHeartbeat :: time
  RegisteredAt :: time
  Load :: LoadReport
  DrainRequested :: bool
  MarkedDeadAt :: time
  deadlineTimer :: nat

record timer =
  tmFunc :: string
  tmWhen :: "time option"

record Registry =
  workers :: "string \<rightharpoonup> WorkerEntry"
  deadTimeout :: duration
  timers :: "nat \<rightharpoonup> timer"
  nextTimer :: nat
  callbacks :: "string list"
  registering :: "WorkerEntry list"

definition DefaultHeartbeatIntervalSecs :: uint32 where
  "DefaultHeartbeatIntervalSecs = 5"

definition DefaultDeadTimeout :: duration where
  "DefaultDeadTimeout = 15 * Second"

definition New :: "duration \<Rightarrow> Registry" where
  "New d = \<lparr>workers = Map.empty, deadTimeout = d, timers = Map.empty, nextTimer = 0,
     callbacks = [], registering = []\<rparr>"

section \<open>The runtime's timers\<close>

definition AfterFunc :: "Registry \<Rightarrow> duration \<Rightarrow> string \<Rightarrow> time \<Rightarrow> nat \<times> Registry" where
  "AfterFunc r d wid now =
     (nextTimer r,
      r\<lparr>timers := (timers r)(nextTimer r \<mapsto> \<lparr>tmFunc = wid, tmWhen = Some (timer_when now d)\<rparr>),
        nextTimer := Suc (nextTimer r)\<rparr>)"

definition set_when :: "Registry \<Rightarrow> nat \<Rightarrow> time option \<Rightarrow> Registry" where
  "set_when r tid w = r\<lparr>timers := (timers r)(tid := map_option (\<lambda>t. t\<lparr>tmWhen := w\<rparr>) (timers r tid))\<rparr>"

definition timer_Reset :: "Registry \<Rightarrow> nat \<Rightarrow> duration \<Rightarrow> time \<Rightarrow> Registry" where
  "timer_Reset r tid d now = set_when r tid (Some (timer_when now d))"

definition timer_Stop :: "Registry \<Rightarrow> nat \<Rightarrow> Registry" where
  "timer_Stop r tid = set_when r tid None"

definition fire_timer :: "Registry \<Rightarrow> nat \<Rightarrow> time \<Rightarrow> Registry" where
  "fire_timer r tid now =
     (case timers r tid of
        None \<Rightarrow> r
      | Some t \<Rightarrow>
          (case tmWhen t of
             None \<Rightarrow> r
           | Some w \<Rightarrow>
               if w \<le> now
               then (set_when r tid None)\<lparr>callbacks := callbacks r @ [tmFunc t]\<rparr>
               else r))"

section \<open>gRPC handlers\<close>

text \<open>
  Registration takes the lock only to store the entry. \<open>Register_begin\<close> is what runs before:
  \<open>t1\<close> is the \<^verbatim>\<open>time.Now()\<close> of the entry, \<open>t2\<close> the instant \<^verbatim>\<open>time.AfterFunc\<close> arms the timer.
  \<open>Register_store\<close> is what runs once the lock is there; registering an id again replaces
  the entry and leaves the old entry's timer armed, as the code does. \<open>Register\<close> is the
  whole handler when nothing runs in between.
\<close>

definition Register_begin ::
  "Registry \<Rightarrow> WorkerInfo \<Rightarrow> time \<Rightarrow> time \<Rightarrow> (reg_error + WorkerEntry) \<times> Registry" where
  "Register_begin r info t1 t2 =
     (if WorkerId info = '''' then (Inl WorkerIdRequired, r)
      else if Address info = '''' then (Inl AddressRequired, r)
      else
        let workerID = WorkerId info;
            (tid, r1) = AfterFunc r (deadTimeout r) workerID t2
        in (Inr \<lparr>Info = info, State = STARTING, LastHeartbeat = t1, RegisteredAt = t1,
                 Load = zero_load workerID, DrainRequested = False, MarkedDeadAt = 0,
                 deadlineTimer = tid\<rparr>, r1))"

definition Register_store :: "Registry \<Rightarrow> WorkerEntry \<Rightarrow> RegisterResponse \<times> Registry" where
  "Register_store r entry =
     (\<lparr>rr_Ok = True, rr_Message = ''registered'',
       HeartbeatIntervalSecs = DefaultHeartbeatIntervalSecs\<rparr>,
      r\<lparr>workers := (workers r)(WorkerId (Info entry) \<mapsto> entry)\<rparr>)"

definition Register ::
  "Registry \<Rightarrow> WorkerInfo \<Rightarrow> time \<Rightarrow> time \<Rightarrow> (reg_error + RegisterResponse) \<times> Registry" where
  "Register r info t1 t2 =
     (case Register_begin r info t1 t2 of
        (Inl err, r1) \<Rightarrow> (Inl err, r1)
      | (Inr entry, r1) \<Rightarrow> (let (resp, r2) = Register_store r1 entry in (Inr resp, r2)))"

text \<open>
  The goroutines of registrations between the two parts are kept in \<open>registering\<close>, each by
  its entry, as those of the timers' callbacks are kept in \<open>callbacks\<close>.
\<close>

definition begin_registration :: "Registry \<Rightarrow> WorkerInfo \<Rightarrow> time \<Rightarrow> time \<Rightarrow> Registry" where
  "begin_registration r info t1 t2 =
     (case Register_begin r info t1 t2 of
        (Inl _, r1) \<Rightarrow> r1
      | (Inr entry, r1) \<Rightarrow> r1\<lparr>registering := registering r1 @ [entry]\<rparr>)"

definition finish_registration :: "Registry \<Rightarrow> WorkerEntry \<Rightarrow> Registry" where
  "finish_registration r entry =
     (if entry \<in> set (registering r)
      then snd (Register_store (r\<lparr>registering := remove1 entry (registering r)\<rparr>) entry)
      else r)"

fun validTransition :: "WorkerState \<Rightarrow> WorkerState \<Rightarrow> bool" where
  "validTransition from to =
     (if from = to then True
      else case from of
             STARTING \<Rightarrow> to = READY
           | READY \<Rightarrow> to = BUSY \<or> to = DRAINING
           | BUSY \<Rightarrow> to = READY \<or> to = DRAINING
           | DRAINING \<Rightarrow> False
           | DEAD \<Rightarrow> False
           | Unrecognized _ \<Rightarrow> False)"

declare validTransition.simps [simp del]

text \<open>
  \<open>t1\<close> is the instant \<^verbatim>\<open>deadlineTimer.Reset\<close> counts from, \<open>t2\<close> the \<^verbatim>\<open>time.Now()\<close>
  stored as the last heartbeat, which the code reads after the reset.
\<close>

definition Heartbeat ::
  "Registry \<Rightarrow> HeartbeatRequest \<Rightarrow> time \<Rightarrow> time \<Rightarrow> (reg_error + HeartbeatResponse) \<times> Registry" where
  "Heartbeat r req t1 t2 =
     (case workers r (hb_WorkerId req) of
        None \<Rightarrow> (Inl (NotRegisteredReRegister (hb_WorkerId req)), r)
      | Some entry \<Rightarrow>
          if \<not> validTransition (State entry) (hb_State req)
          then (Inl (InvalidStateTransition (State entry) (hb_State req) (hb_WorkerId req)), r)
          else
            let r1 = timer_Reset r (deadlineTimer entry) (deadTimeout r) t1;
                entry1 = entry\<lparr>LastHeartbeat := t2\<rparr>;
                entry2 = (if State entry1 \<noteq> hb_State req
                          then entry1\<lparr>State := hb_State req\<rparr> else entry1)
            in (Inr \<lparr>hr_Ok = True, Drain = DrainRequested entry2\<rparr>,
                r1\<lparr>workers := (workers r1)(hb_WorkerId req \<mapsto> entry2)\<rparr>))"

definition Deregister :: "Registry \<Rightarrow> DeregisterRequest \<Rightarrow> (reg_error + unit) \<times> Registry" where
  "Deregister r req =
     (case workers r (dr_WorkerId req) of
        None \<Rightarrow> (Inl (NotRegistered (dr_WorkerId req)), r)
      | Some entry \<Rightarrow>
          let r1 = timer_Stop r (deadlineTimer entry)
          in (Inr (), r1\<lparr>workers := (workers r1)(dr_WorkerId req := None)\<rparr>))"

definition ReportLoad :: "Registry \<Rightarrow> LoadReport \<Rightarrow> (reg_error + unit) \<times> Registry" where
  "ReportLoad r report =
     (case workers r (lr_WorkerId report) of
        None \<Rightarrow> (Inl (NotRegistered (lr_WorkerId report)), r)
      | Some entry \<Rightarrow>
          (Inr (), r\<lparr>workers := (workers r)(lr_WorkerId report \<mapsto> entry\<lparr>Load := report\<rparr>)\<rparr>))"

section \<open>Dead-worker detection\<close>

text \<open>\<open>t1\<close> is the instant of \<^verbatim>\<open>time.Since\<close>, \<open>t2\<close> the later \<^verbatim>\<open>time.Now()\<close> of the stamp.\<close>

definition markDead :: "Registry \<Rightarrow> string \<Rightarrow> time \<Rightarrow> time \<Rightarrow> Registry" where
  "markDead r workerID t1 t2 =
     (case workers r workerID of
        None \<Rightarrow> r
      | Some entry \<Rightarrow>
          if State entry = DEAD then r
          else if time_sub t1 (LastHeartbeat entry) < deadTimeout r then r
          else r\<lparr>workers := (workers r)(workerID \<mapsto> entry\<lparr>State := DEAD, MarkedDeadAt := t2\<rparr>)\<rparr>)"

text \<open>The \<open>k\<close>-th waiting callback goroutine gets the lock.\<close>

definition run_callback :: "Registry \<Rightarrow> nat \<Rightarrow> time \<Rightarrow> time \<Rightarrow> Registry" where
  "run_callback r k t1 t2 =
     (if k < length (callbacks r)
      then markDead (r\<lparr>callbacks := take k (callbacks r) @ drop (Suc k) (callbacks r)\<rparr>)
             (callbacks r ! k) t1 t2
      else r)"

section \<open>Read methods\<close>

definition GetWorker :: "Registry \<Rightarrow> string \<Rightarrow> WorkerEntry option" where
  "GetWorker r workerID = workers r workerID"

definition ListWorkers :: "Registry \<Rightarrow> string list \<Rightarrow> WorkerEntry list" where
  "ListWorkers r ks = range_values (workers r) ks"

definition healthy_state :: "WorkerState \<Rightarrow> bool" where
  "healthy_state s \<longleftrightarrow> s = READY \<or> s = BUSY"

definition HealthyWorkersForModel :: "Registry \<Rightarrow> string list \<Rightarrow> string \<Rightarrow> WorkerEntry list" where
  "HealthyWorkersForModel r ks modelID =
     filter (\<lambda>e. healthy_state (State e) \<and> modelID \<in> set (ModelsLoaded (Info e)))
       (range_values (workers r) ks)"

definition WorkerCount :: "Registry \<Rightarrow> string list \<Rightarrow> nat \<times> nat" where
  "WorkerCount r ks =
     fold (\<lambda>e (total, healthy). (total + 1, if healthy_state (State e) then healthy + 1 else healthy))
       (range_values (workers r) ks) (0, 0)"

record ModelStat =
  ms_Model :: string
  TotalWorkers :: nat
  HealthyWorkers :: nat

definition count_model ::
  "bool \<Rightarrow> string \<Rightarrow> (string \<rightharpoonup> nat \<times> nat) \<Rightarrow> (string \<rightharpoonup> nat \<times> nat)" where
  "count_model healthy model m =
     (let (t, h) = (case m model of None \<Rightarrow> (0, 0) | Some c \<Rightarrow> c)
      in m(model \<mapsto> (t + 1, if healthy then h + 1 else h)))"

definition count_worker :: "WorkerEntry \<Rightarrow> (string \<rightharpoonup> nat \<times> nat) \<Rightarrow> (string \<rightharpoonup> nat \<times> nat)" where
  "count_worker e m = fold (count_model (healthy_state (State e))) (ModelsLoaded (Info e)) m"

definition model_counts :: "Registry \<Rightarrow> string list \<Rightarrow> (string \<rightharpoonup> nat \<times> nat)" where
  "model_counts r ks = fold count_worker (range_values (workers r) ks) Map.empty"

text \<open>\<open>ks\<close> is the order the workers are visited in, \<open>ms\<close> that of the counted models.\<close>

definition ModelsServed :: "Registry \<Rightarrow> string list \<Rightarrow> string list \<Rightarrow> ModelStat list" where
  "ModelsServed r ks ms =
     map (\<lambda>m. \<lparr>ms_Model = m, TotalWorkers = fst (the (model_counts r ks m)),
               HealthyWorkers = snd (the (model_counts r ks m))\<rparr>)
       (filter (\<lambda>m. model_counts r ks m \<noteq> None) ms)"

section \<open>Drain and eviction\<close>

definition RequestDrain :: "Registry \<Rightarrow> string \<Rightarrow> (reg_error + unit) \<times> Registry" where
  "RequestDrain r workerID =
     (case workers r workerID of
        None \<Rightarrow> (Inl (WorkerNotFound workerID), r)
      | Some entry \<Rightarrow>
          (Inr (), r\<lparr>workers := (workers r)(workerID \<mapsto> entry\<lparr>DrainRequested := True\<rparr>)\<rparr>))"

definition Evict :: "Registry \<Rightarrow> string \<Rightarrow> (reg_error + unit) \<times> Registry" where
  "Evict r workerID =
     (case workers r workerID of
        None \<Rightarrow> (Inl (WorkerNotFound workerID), r)
      | Some entry \<Rightarrow>
          let r1 = timer_Stop r (deadlineTimer entry)
          in (Inr (), r1\<lparr>workers := (workers r1)(workerID := None)\<rparr>))"

end
