(* ===== verification/Registry_Steps.thy ===== *)
theory Registry_Steps
  imports Registry
begin

text \<open>
  The registry as a transition system: the operations of its callers (workers over gRPC,
  the scaler, the admin API), the firing of timers and the callbacks, in any order, over
  a clock that never goes back. A registration is two steps, as it takes the lock only for
  the second. The invariant ties entries, states, stamps and timers together.
\<close>

section \<open>Steps\<close>

record fleet =
  reg :: Registry
  clock :: time

datatype reg_event =
    ERegister WorkerInfo time time
  | EStore WorkerEntry
  | EHeartbeat HeartbeatRequest time time
  | EDeregister DeregisterRequest
  | EReportLoad LoadReport
  | ERequestDrain string
  | EEvict string
  | EFire nat
  | ECallback nat time time
  | ETick time

inductive reg_step :: "fleet \<Rightarrow> reg_event \<Rightarrow> fleet \<Rightarrow> bool" where
  step_register: "clock s \<le> t1 \<Longrightarrow> t1 \<le> t2 \<Longrightarrow>
    reg_step s (ERegister info t1 t2) \<lparr>reg = begin_registration (reg s) info t1 t2, clock = t2\<rparr>"
| step_store: "reg_step s (EStore e) (s\<lparr>reg := finish_registration (reg s) e\<rparr>)"
| step_heartbeat: "clock s \<le> t1 \<Longrightarrow> t1 \<le> t2 \<Longrightarrow>
    reg_step s (EHeartbeat req t1 t2) \<lparr>reg = snd (Heartbeat (reg s) req t1 t2), clock = t2\<rparr>"
| step_deregister: "reg_step s (EDeregister req) (s\<lparr>reg := snd (Deregister (reg s) req)\<rparr>)"
| step_report: "reg_step s (EReportLoad rep) (s\<lparr>reg := snd (ReportLoad (reg s) rep)\<rparr>)"
| step_drain: "reg_step s (ERequestDrain wid) (s\<lparr>reg := snd (RequestDrain (reg s) wid)\<rparr>)"
| step_evict: "reg_step s (EEvict wid) (s\<lparr>reg := snd (Evict (reg s) wid)\<rparr>)"
| step_fire: "reg_step s (EFire tid) (s\<lparr>reg := fire_timer (reg s) tid (clock s)\<rparr>)"
| step_callback: "clock s \<le> t1 \<Longrightarrow> t1 \<le> t2 \<Longrightarrow>
    reg_step s (ECallback k t1 t2) \<lparr>reg = run_callback (reg s) k t1 t2, clock = t2\<rparr>"
| step_tick: "clock s \<le> t \<Longrightarrow> reg_step s (ETick t) (s\<lparr>clock := t\<rparr>)"

inductive_cases reg_stepE: "reg_step s e t"

definition fleet_start :: "fleet \<Rightarrow> bool" where
  "fleet_start s \<longleftrightarrow>
     0 < clock s \<and> (\<exists>d. 0 < d \<and> d \<le> max_int64 \<and> reg s = New d)"

section \<open>The invariant\<close>

definition entry_ok :: "Registry \<Rightarrow> time \<Rightarrow> string \<Rightarrow> WorkerEntry \<Rightarrow> bool" where
  "entry_ok r c wid e \<longleftrightarrow>
     WorkerId (Info e) = wid \<and> wid \<noteq> '''' \<and> Address (Info e) \<noteq> '''' \<and>
     lr_WorkerId (Load e) = wid \<and>
     known_state (State e) \<and>
     (State e = DEAD \<longleftrightarrow> MarkedDeadAt e \<noteq> 0) \<and>
     0 < RegisteredAt e \<and> RegisteredAt e \<le> LastHeartbeat e \<and> LastHeartbeat e \<le> c \<and>
     MarkedDeadAt e \<le> c \<and>
     (State e = DEAD \<longrightarrow> RegisteredAt e + deadTimeout r \<le> MarkedDeadAt e) \<and>
     (\<exists>tm. timers r (deadlineTimer e) = Some tm \<and> tmFunc tm = wid)"

definition timers_ok :: "Registry \<Rightarrow> bool" where
  "timers_ok r \<longleftrightarrow> (\<forall>tid. nextTimer r \<le> tid \<longrightarrow> timers r tid = None)"

text \<open>
  A registration that waits for the lock has a well-formed entry, which is its own: no stored
  entry and no other waiting one shares its timer.
\<close>

definition pending_ok :: "Registry \<Rightarrow> time \<Rightarrow> bool" where
  "pending_ok r c \<longleftrightarrow>
     (\<forall>e \<in> set (registering r). entry_ok r c (WorkerId (Info e)) e \<and> State e = STARTING) \<and>
     distinct (map deadlineTimer (registering r)) \<and>
     (\<forall>wid a. workers r wid = Some a \<longrightarrow> deadlineTimer a \<notin> deadlineTimer ` set (registering r))"

definition reg_inv :: "fleet \<Rightarrow> bool" where
  "reg_inv s \<longleftrightarrow>
     0 < clock s \<and> 0 < deadTimeout (reg s) \<and> deadTimeout (reg s) \<le> max_int64 \<and>
     finite (dom (workers (reg s))) \<and> timers_ok (reg s) \<and> pending_ok (reg s) (clock s) \<and>
     (\<forall>wid e. workers (reg s) wid = Some e \<longrightarrow> entry_ok (reg s) (clock s) wid e)"

subsection \<open>What each operation leaves alone\<close>

lemma set_when_simps [simp]:
  "workers (set_when r tid w) = workers r"
  "deadTimeout (set_when r tid w) = deadTimeout r"
  "nextTimer (set_when r tid w) = nextTimer r"
  "callbacks (set_when r tid w) = callbacks r"
  "registering (set_when r tid w) = registering r"
  by (simp_all add: set_when_def)

lemma timers_set_when:
  "timers (set_when r tid w) k =
     (if k = tid then map_option (\<lambda>t. t\<lparr>tmWhen := w\<rparr>) (timers r tid) else timers r k)"
  by (simp add: set_when_def)

lemma timers_ok_set_when [simp]: "timers_ok r \<Longrightarrow> timers_ok (set_when r tid w)"
  by (auto simp: timers_ok_def timers_set_when)

lemma entry_ok_set_when [simp]: "entry_ok (set_when r tid w) c wid e = entry_ok r c wid e"
  by (auto simp: entry_ok_def timers_set_when)

lemma entry_ok_workers [simp]:
  "entry_ok (r\<lparr>workers := ws\<rparr>) c wid e = entry_ok r c wid e"
  "entry_ok (r\<lparr>callbacks := cs\<rparr>) c wid e = entry_ok r c wid e"
  "entry_ok (r\<lparr>registering := ps\<rparr>) c wid e = entry_ok r c wid e"
  by (simp_all add: entry_ok_def)

lemma timers_ok_workers [simp]:
  "timers_ok (r\<lparr>workers := ws\<rparr>) = timers_ok r"
  "timers_ok (r\<lparr>callbacks := cs\<rparr>) = timers_ok r"
  "timers_ok (r\<lparr>registering := ps\<rparr>) = timers_ok r"
  by (simp_all add: timers_ok_def)

lemma entry_ok_later: "entry_ok r c wid e \<Longrightarrow> c \<le> c' \<Longrightarrow> entry_ok r c' wid e"
  by (auto simp: entry_ok_def)

lemma fire_timer_simps [simp]:
  "workers (fire_timer r tid now) = workers r"
  "deadTimeout (fire_timer r tid now) = deadTimeout r"
  "nextTimer (fire_timer r tid now) = nextTimer r"
  "registering (fire_timer r tid now) = registering r"
  by (auto simp: fire_timer_def split: option.splits)

lemma entry_ok_fire [simp]: "entry_ok (fire_timer r tid now) c wid e = entry_ok r c wid e"
  by (auto simp: fire_timer_def split: option.splits)

lemma timers_ok_fire [simp]: "timers_ok r \<Longrightarrow> timers_ok (fire_timer r tid now)"
  by (auto simp: fire_timer_def split: option.splits)

lemmas registry_defs =
  begin_registration_def Register_begin_def finish_registration_def Register_store_def Heartbeat_def Deregister_def ReportLoad_def RequestDrain_def Evict_def
  AfterFunc_def timer_Reset_def timer_Stop_def

subsection \<open>Every operation preserves it\<close>

text \<open>
  All operations but a registration leave the waiting registrations and the timers' owners
  alone.
\<close>

definition same_timers :: "Registry \<Rightarrow> Registry \<Rightarrow> bool" where
  "same_timers r r' \<longleftrightarrow> registering r' = registering r \<and>
     (\<forall>c wid e. entry_ok r' c wid e = entry_ok r c wid e) \<and>
     (\<forall>wid b. workers r' wid = Some b \<longrightarrow> (\<exists>a. workers r wid = Some a \<and> deadlineTimer b = deadlineTimer a))"

lemma same_timers_pending:
  assumes "same_timers r r'" and "pending_ok r c" and "c \<le> c'"
  shows "pending_ok r' c'"
  using assms entry_ok_later [of r c] unfolding same_timers_def pending_ok_def by metis

lemma same_timers_ops [simp]:
  "same_timers r r"
  "same_timers r (snd (Heartbeat r hb t1 t2))"
  "same_timers r (snd (Deregister r dr))"
  "same_timers r (snd (ReportLoad r rep))"
  "same_timers r (snd (RequestDrain r wid))"
  "same_timers r (snd (Evict r wid))"
  "same_timers r (fire_timer r tid now)"
  "same_timers r (markDead r wid t1 t2)"
  by (auto simp: same_timers_def Heartbeat_def Deregister_def ReportLoad_def RequestDrain_def Evict_def markDead_def
      timer_Reset_def timer_Stop_def Let_def split: option.splits if_splits)

lemma same_timers_callback [simp]: "same_timers r (run_callback r k t1 t2)"
  using same_timers_ops(8) [of "r\<lparr>callbacks := take k (callbacks r) @ drop (Suc k) (callbacks r)\<rparr>"]
  by (simp add: run_callback_def same_timers_def)

lemma reg_invI:
  assumes "reg_inv s" and "clock s \<le> clock t"
    and "deadTimeout (reg t) = deadTimeout (reg s)" and "same_timers (reg s) (reg t)"
    and "finite (dom (workers (reg t)))" and "timers_ok (reg t)"
    and "\<And>wid e. workers (reg t) wid = Some e \<Longrightarrow> entry_ok (reg t) (clock t) wid e"
  shows "reg_inv t"
  using assms same_timers_pending [OF assms(4) _ assms(2)] by (auto simp: reg_inv_def)

lemma reg_inv_later: "reg_inv s \<Longrightarrow> clock s \<le> c \<Longrightarrow> reg_inv \<lparr>reg = reg s, clock = c\<rparr>"
  by (rule reg_invI) (auto simp: reg_inv_def intro: entry_ok_later)

lemma reg_inv_entry:
  "reg_inv s \<Longrightarrow> workers (reg s) wid = Some e \<Longrightarrow> clock s \<le> c \<Longrightarrow> entry_ok (reg s) c wid e"
  by (auto simp: reg_inv_def intro: entry_ok_later)

lemma entry_ok_AfterFunc:
  "timers_ok r \<Longrightarrow> entry_ok r c wid e \<Longrightarrow> entry_ok (snd (AfterFunc r d w now)) c wid e"
  by (force simp: entry_ok_def AfterFunc_def timers_ok_def)

lemma entry_ok_old_timer: "timers_ok r \<Longrightarrow> entry_ok r c wid e \<Longrightarrow> deadlineTimer e \<noteq> nextTimer r"
  by (auto simp: entry_ok_def timers_ok_def)

text \<open>What a registration that is accepted leaves behind before it waits for the lock.\<close>

definition new_entry :: "Registry \<Rightarrow> WorkerInfo \<Rightarrow> time \<Rightarrow> WorkerEntry" where
  "new_entry r info t1 = \<lparr>Info = info, State = STARTING, LastHeartbeat = t1, RegisteredAt = t1,
     Load = zero_load (WorkerId info), DrainRequested = False, MarkedDeadAt = 0,
     deadlineTimer = nextTimer r\<rparr>"

lemma new_entry_simps [simp]:
  "Info (new_entry r info t1) = info" "State (new_entry r info t1) = STARTING"
  "LastHeartbeat (new_entry r info t1) = t1" "deadlineTimer (new_entry r info t1) = nextTimer r"
  by (simp_all add: new_entry_def)

lemma begin_registration_eq:
  "begin_registration r info t1 t2 =
     (if WorkerId info = '''' \<or> Address info = '''' then r
      else (snd (AfterFunc r (deadTimeout r) (WorkerId info) t2))
        \<lparr>registering := registering r @ [new_entry r info t1]\<rparr>)"
  by (simp add: begin_registration_def Register_begin_def AfterFunc_def Let_def new_entry_def)

lemma Register_eq:
  "Register r info t1 t2 =
     (if WorkerId info = '''' then (Inl WorkerIdRequired, r)
      else if Address info = '''' then (Inl AddressRequired, r)
      else (Inr \<lparr>rr_Ok = True, rr_Message = ''registered'',
                 HeartbeatIntervalSecs = DefaultHeartbeatIntervalSecs\<rparr>,
            (snd (AfterFunc r (deadTimeout r) (WorkerId info) t2))
              \<lparr>workers := (workers r)(WorkerId info \<mapsto> new_entry r info t1)\<rparr>))"
  by (simp add: Register_def Register_begin_def Register_store_def AfterFunc_def Let_def new_entry_def)

lemma AfterFunc_simps [simp]:
  "workers (snd (AfterFunc r d w now)) = workers r"
  "deadTimeout (snd (AfterFunc r d w now)) = deadTimeout r"
  "callbacks (snd (AfterFunc r d w now)) = callbacks r"
  "registering (snd (AfterFunc r d w now)) = registering r"
  by (simp_all add: AfterFunc_def)

lemma begin_registration_inv [inv_intro]:
  assumes "reg_inv s" and "clock s \<le> t1" and "t1 \<le> t2"
  shows "reg_inv \<lparr>reg = begin_registration (reg s) info t1 t2, clock = t2\<rparr>"
proof (cases "WorkerId info = '''' \<or> Address info = ''''")
  case True
  then show ?thesis using assms by (auto simp: begin_registration_eq intro!: reg_inv_later)
next
  case False
  let ?r = "snd (AfterFunc (reg s) (deadTimeout (reg s)) (WorkerId info) t2)" and ?e = "new_entry (reg s) info t1"
  have inv: "timers_ok (reg s)" "pending_ok (reg s) (clock s)" using assms(1) by (simp_all add: reg_inv_def)
  have later: "entry_ok ?r t2 wid e" if "entry_ok (reg s) (clock s) wid e" for wid e
    using that assms(2,3) inv(1) by (intro entry_ok_AfterFunc entry_ok_later [OF that]) auto
  have new: "entry_ok ?r t2 (WorkerId info) ?e"
    using assms False by (auto simp: reg_inv_def entry_ok_def AfterFunc_def known_state_def zero_load_def new_entry_def)
  have "timers_ok ?r" using inv(1) by (auto simp: AfterFunc_def timers_ok_def)
  moreover have "pending_ok (?r\<lparr>registering := registering (reg s) @ [?e]\<rparr>) t2"
    using inv(2) later new entry_ok_old_timer [OF inv(1)] reg_inv_entry [OF assms(1) _ order_refl]
    by (fastforce simp: pending_ok_def)
  ultimately show ?thesis
    using False assms later reg_inv_entry [OF assms(1) _ order_refl]
    by (auto simp: begin_registration_eq reg_inv_def)
qed

lemma finish_registration_inv [inv_intro]:
  assumes "reg_inv s"
  shows "reg_inv (s\<lparr>reg := finish_registration (reg s) e\<rparr>)"
proof (cases "e \<in> set (registering (reg s))")
  case True
  have inv: "pending_ok (reg s) (clock s)" using assms by (simp add: reg_inv_def)
  obtain xs ys where xs: "registering (reg s) = xs @ e # ys" "e \<notin> set xs"
    using split_list_first [OF True] by blast
  have e: "entry_ok (reg s) (clock s) (WorkerId (Info e)) e" using inv True by (auto simp: pending_ok_def)
  have "pending_ok (finish_registration (reg s) e) (clock s)"
    using inv xs by (auto simp: pending_ok_def finish_registration_def Register_store_def remove1_append split: if_splits)
  then show ?thesis
    using assms e True by (auto simp: reg_inv_def finish_registration_def Register_store_def split: if_splits)
qed (use assms in \<open>simp add: finish_registration_def\<close>)

lemma validTransition_known:
  "validTransition a b \<Longrightarrow> known_state a \<Longrightarrow> known_state b"
  by (cases a) (auto simp: known_state_def validTransition.simps split: if_splits)

lemma validTransition_DEAD: "validTransition a b \<Longrightarrow> a = DEAD \<longleftrightarrow> b = DEAD"
  by (cases a) (auto simp: validTransition.simps split: if_splits)

lemma Heartbeat_inv [inv_intro]:
  assumes "reg_inv s" and "clock s \<le> t1" and "t1 \<le> t2"
  shows "reg_inv \<lparr>reg = snd (Heartbeat (reg s) req t1 t2), clock = t2\<rparr>"
proof (cases "workers (reg s) (hb_WorkerId req)")
  case None
  then show ?thesis using assms by (auto simp: Heartbeat_def intro!: reg_inv_later)
next
  case (Some e)
  show ?thesis
  proof (cases "validTransition (State e) (hb_State req)")
    case False
    with Some show ?thesis using assms by (auto simp: Heartbeat_def intro!: reg_inv_later)
  next
    case True
    let ?e = "(if State e \<noteq> hb_State req then e\<lparr>LastHeartbeat := t2, State := hb_State req\<rparr>
      else e\<lparr>LastHeartbeat := t2\<rparr>)"
    have "entry_ok (reg s) t2 (hb_WorkerId req) ?e"
      using assms Some validTransition_known [OF True] validTransition_DEAD [OF True]
      by (fastforce simp: reg_inv_def entry_ok_def)
    with Some True show ?thesis
      using assms
      by (intro reg_invI [OF assms(1)]; (simp; fail)?)
         (auto simp: Heartbeat_def timer_Reset_def Let_def reg_inv_def
            intro: reg_inv_entry [OF assms(1)] split: if_splits)
  qed
qed

lemma Deregister_inv [inv_intro]: "reg_inv s \<Longrightarrow> reg_inv (s\<lparr>reg := snd (Deregister (reg s) req)\<rparr>)"
  by (rule reg_invI [of s]; (assumption | (simp; fail) | auto simp: Deregister_def timer_Stop_def reg_inv_def Let_def split: option.splits if_splits))

lemma Evict_inv [inv_intro]: "reg_inv s \<Longrightarrow> reg_inv (s\<lparr>reg := snd (Evict (reg s) wid)\<rparr>)"
  by (rule reg_invI [of s]; (assumption | (simp; fail) | auto simp: Evict_def timer_Stop_def reg_inv_def Let_def split: option.splits if_splits))

lemma ReportLoad_inv [inv_intro]: "reg_inv s \<Longrightarrow> reg_inv (s\<lparr>reg := snd (ReportLoad (reg s) rep)\<rparr>)"
  by (rule reg_invI [of s]; (assumption | (simp; fail) | auto simp: ReportLoad_def reg_inv_def entry_ok_def split: option.splits if_splits))

lemma RequestDrain_inv [inv_intro]:
  "reg_inv s \<Longrightarrow> reg_inv (s\<lparr>reg := snd (RequestDrain (reg s) wid)\<rparr>)"
  by (rule reg_invI [of s]; (assumption | (simp; fail) | auto simp: RequestDrain_def reg_inv_def entry_ok_def split: option.splits if_splits))

lemma fire_inv [inv_intro]: "reg_inv s \<Longrightarrow> reg_inv (s\<lparr>reg := fire_timer (reg s) tid (clock s)\<rparr>)"
  by (rule reg_invI [of s]; (assumption | (simp; fail) | auto simp: reg_inv_def))

lemma markDead_inv [inv_intro]:
  assumes "reg_inv s" and "clock s \<le> t1" and "t1 \<le> t2"
  shows "reg_inv \<lparr>reg = markDead (reg s) wid t1 t2, clock = t2\<rparr>"
proof (cases "workers (reg s) wid")
  case None
  then show ?thesis using assms by (auto simp: markDead_def intro!: reg_inv_later)
next
  case (Some e)
  have "entry_ok (reg s) t2 wid (e\<lparr>State := DEAD, MarkedDeadAt := t2\<rparr>)"
    if "\<not> time_sub t1 (LastHeartbeat e) < deadTimeout (reg s)"
    using that assms reg_inv_entry [OF assms(1) Some order_refl]
      time_sub_less_iff [of "deadTimeout (reg s)" t1 "LastHeartbeat e"]
    by (auto simp: reg_inv_def entry_ok_def known_state_def min_int64_def)
  with Some show ?thesis
    using assms by (intro reg_invI [OF assms(1)]; (simp; fail)?)
      (auto simp: markDead_def reg_inv_def intro: reg_inv_entry [OF assms(1)] split: if_splits)
qed

lemma run_callback_inv [inv_intro]:
  assumes "reg_inv s" and "clock s \<le> t1" and "t1 \<le> t2"
  shows "reg_inv \<lparr>reg = run_callback (reg s) k t1 t2, clock = t2\<rparr>"
proof (cases "k < length (callbacks (reg s))")
  case True
  let ?cs = "take k (callbacks (reg s)) @ drop (Suc k) (callbacks (reg s))"
  have "reg_inv (s\<lparr>reg := (reg s)\<lparr>callbacks := ?cs\<rparr>\<rparr>)"
    using assms(1) by (auto simp: reg_inv_def pending_ok_def)
  from markDead_inv [OF this] True show ?thesis
    using assms by (simp add: run_callback_def)
qed (use assms in \<open>auto simp: run_callback_def intro!: reg_inv_later\<close>)

lemma tick_inv [inv_intro]: "reg_inv s \<Longrightarrow> clock s \<le> t \<Longrightarrow> reg_inv (s\<lparr>clock := t\<rparr>)"
  by (rule reg_invI [of s]; (assumption | (simp; fail) | auto simp: reg_inv_def intro: entry_ok_later))

lemma reg_step_inv: "reg_inv s \<Longrightarrow> reg_step s e t \<Longrightarrow> reg_inv t"
  by (erule reg_stepE) (auto intro: inv_intro)

lemma fleet_start_inv: "fleet_start s \<Longrightarrow> reg_inv s"
  by (auto simp: fleet_start_def reg_inv_def New_def timers_ok_def pending_ok_def)

interpretation regsys: inductive_invariant fleet_start reg_step reg_inv
  by unfold_locales (auto intro: fleet_start_inv reg_step_inv)


section \<open>The life-cycle the registry promises\<close>

text \<open>
  The diagram in the comment of \<open>validTransition\<close>: a worker becomes ready once its model
  is loaded, alternates between ready and busy, drains from either, and any worker can
  be declared dead.
\<close>

inductive lifecycle :: "WorkerState \<Rightarrow> WorkerState \<Rightarrow> bool" where
  loaded: "lifecycle STARTING READY"
| request_in: "lifecycle READY BUSY"
| request_done: "lifecycle BUSY READY"
| drain_idle: "lifecycle READY DRAINING"
| drain_busy: "lifecycle BUSY DRAINING"
| timed_out: "lifecycle s DEAD"

inductive_simps lifecycle_from_DRAINING: "lifecycle DRAINING s"

lemma validTransition_lifecycle: "validTransition a b \<Longrightarrow> a = b \<or> lifecycle a b"
  by (cases a) (auto intro: lifecycle.intros simp: validTransition.simps split: if_splits)

definition registers :: "reg_event \<Rightarrow> string \<Rightarrow> bool" where
  "registers ev wid \<longleftrightarrow> (\<exists>e. ev = EStore e \<and> WorkerId (Info e) = wid)"

lemma markDead_other [simp]: "w \<noteq> wid \<Longrightarrow> workers (markDead r w t1 t2) wid = workers r wid"
  by (auto simp: markDead_def split: option.splits)

lemma run_callback_other:
  "k < length (callbacks r) \<Longrightarrow> callbacks r ! k \<noteq> wid \<Longrightarrow>
     workers (run_callback r k t1 t2) wid = workers r wid"
  by (simp add: run_callback_def)

lemma run_callback_entry:
  assumes "workers r wid = Some a" and "workers (run_callback r k t1 t2) wid = Some b"
  shows "b = a \<or> (State a \<noteq> DEAD \<and> \<not> time_sub t1 (LastHeartbeat a) < deadTimeout r \<and>
    b = a\<lparr>State := DEAD, MarkedDeadAt := t2\<rparr>)"
proof (cases "k < length (callbacks r) \<and> callbacks r ! k = wid")
  case True
  then show ?thesis
    using assms by (auto simp: run_callback_def markDead_def split: if_splits)
next
  case False
  then show ?thesis
    using assms run_callback_other [of k r wid t1 t2] by (auto simp: run_callback_def split: if_splits)
qed

text \<open>What one step can do to the entry of a worker that stays registered.\<close>

lemma reg_step_entry:
  assumes "reg_step s ev t" and "workers (reg s) wid = Some a" and "workers (reg t) wid = Some b"
    and "\<not> registers ev wid"
  obtains (same) "State b = State a" "MarkedDeadAt b = MarkedDeadAt a"
  | (heartbeat) "State a \<noteq> State b" "validTransition (State a) (State b)" "MarkedDeadAt b = MarkedDeadAt a"
  | (dead) k t1 where "ev = ECallback k t1 (clock t)" "clock s \<le> t1" "t1 \<le> clock t"
      "State a \<noteq> DEAD" "State b = DEAD" "MarkedDeadAt b = clock t"
      "\<not> time_sub t1 (LastHeartbeat a) < deadTimeout (reg s)"
  using assms(1)
proof cases
  case (step_register t1 t2 info)
  then have "b = a" using assms(2,3) by (auto simp: begin_registration_eq split: if_splits)
  then show ?thesis by (auto intro: same)
next
  case (step_store e)
  then have "b = a" using assms(2,3,4) by (auto simp: finish_registration_def Register_store_def registers_def split: if_splits)
  then show ?thesis by (auto intro: same)
next
  case (step_heartbeat t1 t2 req)
  then consider "State b = State a" "MarkedDeadAt b = MarkedDeadAt a"
    | "validTransition (State a) (State b)" "MarkedDeadAt b = MarkedDeadAt a"
    using assms(2,3)
    by (auto simp: Heartbeat_def timer_Reset_def Let_def split: option.splits if_splits)
  then show ?thesis by cases (use same heartbeat in metis)+
next
  case (step_callback t1 t2 k)
  then show ?thesis
    using run_callback_entry [OF assms(2), of k t1 t2 b] assms(3) same dead [of k t1] by auto
qed (use assms(2,3) same in
      \<open>auto simp: registry_defs Let_def split: option.splits if_splits\<close>)

section \<open>Properties\<close>

subsection \<open>Well-formedness of the registry\<close>

text \<open>
  C4: In every state the registry can reach, under any interleaving of RPCs, scaler calls,
  timers and callbacks, every entry is well formed: it is stored under its own non-empty
  worker id, has an address, is in one of the five named states, its stamps are ordered
  and not in the future, it carries a death stamp exactly when it is DEAD, no worker is
  DEAD before a full timeout has passed since it registered, and its timer's callback is
  for this worker.
\<close>

theorem registry_well_formed:
  assumes "reach fleet_start reg_step s" and "workers (reg s) wid = Some e"
  shows "WorkerId (Info e) = wid \<and> wid \<noteq> '''' \<and> Address (Info e) \<noteq> '''' \<and>
    known_state (State e) \<and> (State e = DEAD \<longleftrightarrow> MarkedDeadAt e \<noteq> 0) \<and>
    0 < RegisteredAt e \<and> RegisteredAt e \<le> LastHeartbeat e \<and> LastHeartbeat e \<le> clock s \<and>
    (State e = DEAD \<longrightarrow> RegisteredAt e + deadTimeout (reg s) \<le> MarkedDeadAt e) \<and>
    (\<exists>tm. timers (reg s) (deadlineTimer e) = Some tm \<and> tmFunc tm = wid)"
  using reg_inv_entry [OF regsys.reach_inv [OF assms(1)] assms(2) order_refl]
  by (simp add: entry_ok_def)

text \<open>A worker, and the states it goes through, for the witnesses.\<close>

definition demo_info :: "string \<Rightarrow> WorkerInfo" where
  "demo_info wid = \<lparr>WorkerId = wid, Address = ''host:1'', GpuType = '''', VramBytes = 0,
     ModelsLoaded = [''m''], Backend = ''mock'', Provider = ''local'', Hardware = ''cpu'',
     CostPerHour = Fin 0\<rparr>"

definition demo_start :: fleet where
  "demo_start = \<lparr>reg = New 10, clock = 1\<rparr>"

definition demo_registered :: fleet where
  "demo_registered = \<lparr>reg = snd (Register (New 10) (demo_info ''w'') 1 1), clock = 1\<rparr>"

lemma demo_start_ok: "fleet_start demo_start"
  by (auto simp: fleet_start_def demo_start_def max_int64_def intro: exI [of _ 10])

definition demo_entry :: WorkerEntry where
  "demo_entry = \<lparr>Info = demo_info ''w'', State = STARTING, LastHeartbeat = 1, RegisteredAt = 1,
     Load = zero_load ''w'', DrainRequested = False, MarkedDeadAt = 0, deadlineTimer = 0\<rparr>"

text \<open>An accepted registration whose two parts run without delay.\<close>

lemma register_run:
  assumes "clock s \<le> t" and "registering (reg s) = []" and "WorkerId info \<noteq> ''''" and "Address info \<noteq> ''''"
  shows "run reg_step s [ERegister info t t, EStore (new_entry (reg s) info t)]
    \<lparr>reg = snd (Register (reg s) info t t), clock = t\<rparr>"
proof -
  let ?s = "\<lparr>reg = begin_registration (reg s) info t t, clock = t\<rparr>" and ?e = "new_entry (reg s) info t"
  have "reg_step s (ERegister info t t) ?s" using assms(1) step_register [of s t t info] by simp
  moreover have "reg_step ?s (EStore ?e) (?s\<lparr>reg := finish_registration (reg ?s) ?e\<rparr>)" by (rule step_store)
  moreover have "?s\<lparr>reg := finish_registration (reg ?s) ?e\<rparr> = \<lparr>reg = snd (Register (reg s) info t t), clock = t\<rparr>"
    using assms(2-4)
    by (simp add: finish_registration_def begin_registration_eq Register_store_def Register_eq AfterFunc_def)
  ultimately show ?thesis by (auto intro: run.intros)
qed

lemma demo_registered_run: "run reg_step demo_start [ERegister (demo_info ''w'') 1 1, EStore demo_entry] demo_registered"
  using register_run [of demo_start 1 "demo_info ''w''"]
  by (simp add: demo_start_def demo_registered_def New_def demo_info_def new_entry_def demo_entry_def)

lemma demo_registered_reach: "reach fleet_start reg_step demo_registered"
  by (rule reach_run [OF demo_registered_run reach.reach_start [of fleet_start, OF demo_start_ok]])

lemma demo_registered_entry: "workers (reg demo_registered) ''w'' = Some demo_entry"
  by (simp add: demo_registered_def Register_eq new_entry_def AfterFunc_def demo_info_def New_def Let_def
      demo_entry_def)

theorem registry_well_formed_witness:
  "reach fleet_start reg_step demo_registered \<and>
   (\<exists>e. workers (reg demo_registered) ''w'' = Some e \<and> WorkerId (Info e) = ''w'' \<and> known_state (State e))"
  using registry_well_formed [OF demo_registered_reach demo_registered_entry]
    demo_registered_reach demo_registered_entry by blast

subsection \<open>Death is never declared early\<close>

text \<open>
  C5: The only step that turns a worker that is not DEAD into a DEAD one is the timer
  callback, and it does so only if no heartbeat arrived for a full \<open>deadTimeout\<close>: a
  heartbeat that arrives after the timer fired but before the callback gets the lock
  keeps the worker alive, a worker cannot report itself DEAD, and a left-over timer of an
  earlier registration cannot kill the new one.
\<close>

theorem dead_only_after_timeout:
  assumes "reach fleet_start reg_step s" and "reg_step s ev t"
    and "workers (reg s) wid = Some a" and "workers (reg t) wid = Some b"
    and "State a \<noteq> DEAD" and "State b = DEAD"
  shows "LastHeartbeat a + deadTimeout (reg s) \<le> clock t \<and> MarkedDeadAt b = clock t \<and>
    (\<exists>k t1. ev = ECallback k t1 (clock t))"
proof -
  have inv: "reg_inv s" by (rule regsys.reach_inv [OF assms(1)])
  then have d: "min_int64 < deadTimeout (reg s)" "deadTimeout (reg s) \<le> max_int64"
    by (simp_all add: reg_inv_def min_int64_def)
  have "\<not> registers ev wid"
    using assms(2,4,6) by (auto simp: registers_def elim!: reg_stepE)
      (use assms(3,5) inv in \<open>auto simp: finish_registration_def Register_store_def reg_inv_def pending_ok_def split: if_splits\<close>)
  with assms(2-4) show ?thesis
  proof (cases rule: reg_step_entry)
    case heartbeat
    then show ?thesis using validTransition_DEAD assms(5,6) by blast
  next
    case (dead k t1)
    then show ?thesis using time_sub_less_iff [OF d, of t1 "LastHeartbeat a"] by auto
  qed (use assms(5,6) in auto)
qed

definition demo_silent :: fleet where
  "demo_silent = \<lparr>reg = fire_timer (reg demo_registered) 0 11, clock = 11\<rparr>"

definition demo_dead :: fleet where
  "demo_dead = \<lparr>reg = run_callback (reg demo_silent) 0 11 12, clock = 12\<rparr>"

lemma demo_silent_reach: "reach fleet_start reg_step demo_silent"
proof -
  have "run reg_step demo_registered [ETick 11, EFire 0] demo_silent"
    using step_tick [of demo_registered 11] step_fire [of "demo_registered\<lparr>clock := 11\<rparr>" 0]
    by (auto simp: run_Cons_iff demo_silent_def demo_registered_def)
  then show ?thesis by (rule reach_run [OF _ demo_registered_reach])
qed

lemma demo_dead_step: "reg_step demo_silent (ECallback 0 11 12) demo_dead"
  using step_callback [of demo_silent 11 12 0] by (simp add: demo_dead_def demo_silent_def)

lemma demo_silent_reg:
  "workers (reg demo_silent) ''w'' = Some demo_entry"
  "callbacks (reg demo_silent) = [''w'']" "deadTimeout (reg demo_silent) = 10"
  by (simp_all add: demo_silent_def fire_timer_def demo_registered_def Register_eq new_entry_def AfterFunc_def
      demo_info_def New_def timer_when_def Let_def demo_entry_def)

lemma demo_dead_entry:
  "workers (reg demo_dead) ''w'' = Some (demo_entry\<lparr>State := DEAD, MarkedDeadAt := 12\<rparr>)"
  by (simp add: demo_dead_def run_callback_def markDead_def demo_silent_reg demo_entry_def
      time_sub_def sat64_def min_int64_def max_int64_def)

theorem dead_only_after_timeout_witness:
  "\<exists>a b. workers (reg demo_silent) ''w'' = Some a \<and> workers (reg demo_dead) ''w'' = Some b \<and>
     State a = STARTING \<and> State b = DEAD \<and> LastHeartbeat a + 10 \<le> 12 \<and> MarkedDeadAt b = 12"
  using dead_only_after_timeout [OF demo_silent_reach demo_dead_step demo_silent_reg(1) demo_dead_entry]
    demo_silent_reg demo_dead_entry
  by (simp add: demo_entry_def demo_dead_def)

subsection \<open>Refinement of the life-cycle\<close>

text \<open>
  C6: Apart from registering it anew, no operation moves a worker along anything but the
  documented life-cycle: the registry's steps, projected to one worker, refine the
  diagram STARTING to READY, READY to and from BUSY, READY or BUSY to DRAINING, any to
  DEAD. In particular DRAINING is left only for DEAD, and DEAD is never left.
\<close>

theorem registry_refines_lifecycle:
  assumes "reach fleet_start reg_step s" and "reg_step s ev t"
    and "workers (reg s) wid = Some a" and "workers (reg t) wid = Some b"
    and "\<not> registers ev wid"
  shows "(State b = State a \<or> lifecycle (State a) (State b)) \<and>
    (State a = DEAD \<longrightarrow> State b = DEAD) \<and>
    (State a = DRAINING \<longrightarrow> State b = DRAINING \<or> State b = DEAD)"
  using assms(2-5)
proof (cases rule: reg_step_entry)
  case heartbeat
  then show ?thesis
    using validTransition_lifecycle validTransition_DEAD lifecycle_from_DRAINING by metis
next
  case (dead k t1)
  then show ?thesis by (auto intro: lifecycle.intros)
qed auto

theorem registry_refines_lifecycle_witness:
  "\<exists>a b. workers (reg demo_silent) ''w'' = Some a \<and> workers (reg demo_dead) ''w'' = Some b \<and>
     lifecycle (State a) (State b) \<and> State b = DEAD"
proof -
  have "\<not> registers (ECallback 0 11 12) ''w''" by (simp add: registers_def)
  from registry_refines_lifecycle
    [OF demo_silent_reach demo_dead_step demo_silent_reg(1) demo_dead_entry this]
  show ?thesis using demo_silent_reg demo_dead_entry by (simp add: demo_entry_def)
qed

end
