(* ===== verification/Registry_Detection.thy ===== *)
theory Registry_Detection
  imports Registry_Steps
begin

text \<open>
  The detection of silent workers. The invariant says that no silent worker is overlooked, as
  long as a heartbeat resets the timer and reads the clock at one instant and a registration
  gets the lock before its own timer comes due. The properties: silent workers are found
  under that timing, and can be lost without it.
\<close>

section \<open>No silent worker is overlooked\<close>

text \<open>
  The timing the detection relies on: the two clock readings of a heartbeat, and of a
  registration, see the same instant, and a registration gets the lock before the timer it
  has armed comes due.
\<close>

definition sync_event :: "fleet \<Rightarrow> reg_event \<Rightarrow> bool" where
  "sync_event s ev = (case ev of
     ERegister _ t1 t2 \<Rightarrow> t1 = t2 | EHeartbeat _ t1 t2 \<Rightarrow> t1 = t2
   | EStore e \<Rightarrow> clock s < LastHeartbeat e + deadTimeout (reg s) | _ \<Rightarrow> True)"

definition sync_step :: "fleet \<Rightarrow> reg_event \<Rightarrow> fleet \<Rightarrow> bool" where
  "sync_step s ev t \<longleftrightarrow> reg_step s ev t \<and> sync_event s ev"

text \<open>
  A worker that is not dead is covered: its timer is armed for exactly the end of its
  silence, or that end has passed and a callback for it is waiting for the lock.
\<close>

definition armed_at :: "Registry \<Rightarrow> nat \<Rightarrow> time \<Rightarrow> bool" where
  "armed_at r tid w \<longleftrightarrow> (\<exists>tm. timers r tid = Some tm \<and> tmWhen tm = Some w)"

definition covered :: "fleet \<Rightarrow> string \<Rightarrow> WorkerEntry \<Rightarrow> bool" where
  "covered s wid e \<longleftrightarrow>
     armed_at (reg s) (deadlineTimer e) (LastHeartbeat e + deadTimeout (reg s)) \<or>
     (wid \<in> set (callbacks (reg s)) \<and> LastHeartbeat e + deadTimeout (reg s) \<le> clock s)"

text \<open>The timer of a waiting registration is still armed, unless its time has passed.\<close>

definition pending_covered :: "fleet \<Rightarrow> WorkerEntry \<Rightarrow> bool" where
  "pending_covered s e \<longleftrightarrow>
     armed_at (reg s) (deadlineTimer e) (LastHeartbeat e + deadTimeout (reg s)) \<or>
     LastHeartbeat e + deadTimeout (reg s) \<le> clock s"

definition cover_inv :: "fleet \<Rightarrow> bool" where
  "cover_inv s \<longleftrightarrow> reg_inv s \<and> (\<forall>e \<in> set (registering (reg s)). pending_covered s e) \<and>
     (\<forall>wid e. workers (reg s) wid = Some e \<longrightarrow> State e \<noteq> DEAD \<longrightarrow> covered s wid e)"

text \<open>Two entries never share a timer.\<close>

lemma timer_owner:
  assumes "reg_inv s" and "workers (reg s) wid = Some e" and "workers (reg s) wid' = Some e'"
    and "deadlineTimer e = deadlineTimer e'"
  shows "wid = wid'"
  using reg_inv_entry [OF assms(1,2) order_refl] reg_inv_entry [OF assms(1,3) order_refl] assms(4)
  by (auto simp: entry_ok_def)

lemma armed_at_set_when [simp]:
  "tid \<noteq> tid' \<Longrightarrow> armed_at (set_when r tid' w') tid w = armed_at r tid w"
  by (simp add: armed_at_def timers_set_when)

lemma armed_at_upd [simp]:
  "armed_at (r\<lparr>workers := ws\<rparr>) tid w = armed_at r tid w"
  "armed_at (r\<lparr>callbacks := cs\<rparr>) tid w = armed_at r tid w"
  "armed_at (r\<lparr>registering := ps\<rparr>) tid w = armed_at r tid w"
  by (simp_all add: armed_at_def)

lemma covered_later: "covered s wid e \<Longrightarrow> clock s \<le> c \<Longrightarrow> covered \<lparr>reg = reg s, clock = c\<rparr> wid e"
  by (auto simp: covered_def)

lemma armed_at_AfterFunc:
  "timers_ok r \<Longrightarrow> armed_at r tid w \<Longrightarrow> armed_at (snd (AfterFunc r d f now)) tid w"
  by (auto simp: armed_at_def AfterFunc_def timers_ok_def)

lemma begin_registration_cover:
  assumes "cover_inv s" and "clock s \<le> t1"
  shows "workers (begin_registration (reg s) info t1 t2) wid = Some e \<Longrightarrow> State e \<noteq> DEAD \<Longrightarrow>
      covered \<lparr>reg = begin_registration (reg s) info t1 t2, clock = t1\<rparr> wid e"
    and "e \<in> set (registering (begin_registration (reg s) info t1 t1)) \<Longrightarrow>
      pending_covered \<lparr>reg = begin_registration (reg s) info t1 t1, clock = t1\<rparr> e"
proof -
  have inv: "timers_ok (reg s)" "0 < deadTimeout (reg s)"
    "\<And>e. e \<in> set (registering (reg s)) \<Longrightarrow> pending_covered s e"
    "\<And>wid e. workers (reg s) wid = Some e \<Longrightarrow> State e \<noteq> DEAD \<Longrightarrow> covered s wid e"
    using assms(1) by (simp_all add: cover_inv_def reg_inv_def)
  show "workers (begin_registration (reg s) info t1 t2) wid = Some e \<Longrightarrow> State e \<noteq> DEAD \<Longrightarrow>
      covered \<lparr>reg = begin_registration (reg s) info t1 t2, clock = t1\<rparr> wid e"
    using inv(4) [of wid e] assms(2) armed_at_AfterFunc [OF inv(1)]
    by (auto simp: begin_registration_eq covered_def split: if_splits)
  have new: "armed_at (snd (AfterFunc (reg s) (deadTimeout (reg s)) f t1)) (nextTimer (reg s)) (t1 + deadTimeout (reg s))" for f
    using inv(2) by (simp add: armed_at_def AfterFunc_def timer_when_def)
  show "pending_covered \<lparr>reg = begin_registration (reg s) info t1 t1, clock = t1\<rparr> e"
    if "e \<in> set (registering (begin_registration (reg s) info t1 t1))"
    using that inv(3) [of e] assms(2) armed_at_AfterFunc [OF inv(1)] new
    by (auto simp: begin_registration_eq pending_covered_def split: if_splits)
qed

lemma finish_registration_cover:
  assumes "cover_inv s" and "clock s < LastHeartbeat a + deadTimeout (reg s)"
    and "workers (finish_registration (reg s) a) wid = Some e" and "State e \<noteq> DEAD"
  shows "covered (s\<lparr>reg := finish_registration (reg s) a\<rparr>) wid e"
proof -
  have cov: "workers (reg s) wid = Some e \<Longrightarrow> covered s wid e" and "a \<in> set (registering (reg s)) \<Longrightarrow> pending_covered s a"
    using assms(1,4) by (simp_all add: cover_inv_def)
  then show ?thesis using assms(2,3)
    by (auto simp: finish_registration_def Register_store_def covered_def pending_covered_def split: if_splits)
qed

text \<open>A waiting registration's timer is touched by nothing but its own firing.\<close>

lemma pending_timer:
  assumes "reg_inv s" and "e \<in> set (registering (reg s))" and "workers (reg s) wid = Some a"
  shows "deadlineTimer e \<noteq> deadlineTimer a"
proof -
  have "deadlineTimer a \<notin> deadlineTimer ` set (registering (reg s))"
    using assms(1,3) by (auto simp: reg_inv_def pending_ok_def)
  then show ?thesis using imageI [OF assms(2), of deadlineTimer] by auto
qed

lemma reg_step_pending_cover:
  assumes "cover_inv s" and "reg_step s ev t" and "sync_event s ev" and e: "e \<in> set (registering (reg t))"
  shows "pending_covered t e"
  using assms(2)
proof cases
  case (step_register t1 t2 info)
  then show ?thesis using begin_registration_cover(2) [OF assms(1)] assms(3) e by (auto simp: sync_event_def)
next
  case (step_store a)
  then show ?thesis using assms(1) e notin_set_remove1 [of e _ a]
    by (auto simp: cover_inv_def finish_registration_def Register_store_def pending_covered_def split: if_splits)
next
  case (step_fire tid)
  then have "pending_covered s e" using assms(1) e by (simp add: cover_inv_def)
  then show ?thesis using step_fire
    by (cases "deadlineTimer e = tid")
       (auto simp: pending_covered_def fire_timer_def armed_at_def timers_set_when split: option.splits)
next
  case (step_callback t1 t2 k)
  then have "e \<in> set (registering (reg s))" using e same_timers_callback [of "reg s" k t1 t2] by (auto simp: same_timers_def)
  then show ?thesis using assms(1) step_callback
    by (auto simp: cover_inv_def pending_covered_def armed_at_def run_callback_def markDead_def split: option.splits)
qed (use assms(1) e pending_timer [of s e] in
      \<open>auto simp: cover_inv_def pending_covered_def registry_defs Let_def split: option.splits if_splits\<close>)

lemma Heartbeat_cover:
  assumes "cover_inv s" and "clock s \<le> t1"
    and "workers (snd (Heartbeat (reg s) req t1 t1)) wid = Some e" and "State e \<noteq> DEAD"
  shows "covered \<lparr>reg = snd (Heartbeat (reg s) req t1 t1), clock = t1\<rparr> wid e"
proof -
  have inv: "reg_inv s" and d: "0 < deadTimeout (reg s)"
    using assms(1) by (simp_all add: cover_inv_def reg_inv_def)
  have plain: "covered \<lparr>reg = reg s, clock = t1\<rparr> wid' a"
    if "workers (reg s) wid' = Some a" "State a \<noteq> DEAD" for wid' a
    using assms(1,2) that by (auto simp: cover_inv_def intro: covered_later)
  show ?thesis
  proof (cases "workers (reg s) (hb_WorkerId req)")
    case None
    then show ?thesis using assms(3,4) plain by (auto simp: Heartbeat_def)
  next
    case (Some a)
    show ?thesis
    proof (cases "validTransition (State a) (hb_State req)")
      case False
      then show ?thesis using Some assms(3,4) plain by (auto simp: Heartbeat_def)
    next
      case True
      show ?thesis
      proof (cases "wid = hb_WorkerId req")
        case wid: True
        have "\<exists>tm. timers (reg s) (deadlineTimer a) = Some tm"
          using reg_inv_entry [OF inv Some order_refl] by (auto simp: entry_ok_def)
        then show ?thesis
          using Some True assms(3) wid d
          by (auto simp: Heartbeat_def timer_Reset_def Let_def covered_def armed_at_def
              timers_set_when timer_when_def split: if_splits)
      next
        case wid: False
        then have e: "workers (reg s) wid = Some e"
          using Some True assms(3) by (auto simp: Heartbeat_def timer_Reset_def Let_def split: if_splits)
        then have "deadlineTimer e \<noteq> deadlineTimer a"
          using timer_owner [OF inv e Some] wid by blast
        then show ?thesis
          using plain [OF e assms(4)] Some True
          by (auto simp: Heartbeat_def timer_Reset_def Let_def covered_def split: if_splits)
      qed
    qed
  qed
qed

lemma stop_cover:
  assumes "cover_inv s" and "workers (reg s) wid' = Some a" and "wid \<noteq> wid'"
    and "workers (reg s) wid = Some e" and "State e \<noteq> DEAD"
  shows "covered (s\<lparr>reg := (timer_Stop (reg s) (deadlineTimer a))\<lparr>workers := ws\<rparr>\<rparr>) wid e"
proof -
  have "deadlineTimer e \<noteq> deadlineTimer a"
    using timer_owner [OF _ assms(4,2)] assms(1,3) by (auto simp: cover_inv_def)
  then show ?thesis
    using assms by (auto simp: cover_inv_def covered_def timer_Stop_def)
qed

lemma fire_cover:
  assumes "cover_inv s" and "workers (reg s) wid = Some e" and "State e \<noteq> DEAD"
  shows "covered (s\<lparr>reg := fire_timer (reg s) tid (clock s)\<rparr>) wid e"
proof -
  have "covered s wid e" using assms by (auto simp: cover_inv_def)
  moreover have "\<exists>tm. timers (reg s) (deadlineTimer e) = Some tm \<and> tmFunc tm = wid"
    using reg_inv_entry [OF _ assms(2) order_refl] assms(1) by (auto simp: cover_inv_def entry_ok_def)
  ultimately show ?thesis
    by (cases "deadlineTimer e = tid")
       (auto simp: covered_def fire_timer_def armed_at_def timers_set_when split: option.splits)
qed

lemma callback_cover:
  assumes "cover_inv s" and "clock s \<le> t1" and "t1 \<le> t2"
    and "workers (run_callback (reg s) k t1 t2) wid = Some e" and "State e \<noteq> DEAD"
  shows "covered \<lparr>reg = run_callback (reg s) k t1 t2, clock = t2\<rparr> wid e"
proof -
  have e: "workers (reg s) wid = Some e"
    using assms(4,5) by (auto simp: run_callback_def markDead_def split: if_splits option.splits)
  have c: "covered s wid e" using assms(1,5) e by (auto simp: cover_inv_def)
  have d: "0 < deadTimeout (reg s)" "deadTimeout (reg s) \<le> max_int64"
    using assms(1) by (simp_all add: cover_inv_def reg_inv_def)
  have tm: "timers (run_callback (reg s) k t1 t2) = timers (reg s)"
    "deadTimeout (run_callback (reg s) k t1 t2) = deadTimeout (reg s)"
    by (auto simp: run_callback_def markDead_def split: option.splits)
  have cb: "wid \<in> set (callbacks (run_callback (reg s) k t1 t2))"
    if "wid \<in> set (callbacks (reg s))" "LastHeartbeat e + deadTimeout (reg s) \<le> clock s"
  proof (cases "k < length (callbacks (reg s))")
    case k: True
    have "callbacks (reg s) ! k \<noteq> wid"
    proof
      assume "callbacks (reg s) ! k = wid"
      then have "workers (run_callback (reg s) k t1 t2) wid = Some (e\<lparr>State := DEAD, MarkedDeadAt := t2\<rparr>)"
        using that(2) assms(2,5) e d k time_sub_less_iff [of "deadTimeout (reg s)" t1 "LastHeartbeat e"]
        by (auto simp: run_callback_def markDead_def min_int64_def)
      then have "State e = State (e\<lparr>State := DEAD, MarkedDeadAt := t2\<rparr>)" using assms(4) by simp
      then show False using assms(5) by simp
    qed
    moreover have "callbacks (reg s) =
      take k (callbacks (reg s)) @ callbacks (reg s) ! k # drop (Suc k) (callbacks (reg s))"
      using k by (simp add: id_take_nth_drop)
    ultimately have "wid \<in> set (take k (callbacks (reg s)) @ drop (Suc k) (callbacks (reg s)))"
      using that(1) by (metis Un_iff set_ConsD set_append)
    then show ?thesis using k by (auto simp: run_callback_def markDead_def split: option.splits)
  qed (use that(1) in \<open>simp add: run_callback_def\<close>)
  from c cb show ?thesis
    using assms(2,3) tm by (auto simp: covered_def armed_at_def)
qed

text \<open>An operation that changes neither timers nor heartbeats.\<close>

lemma unchanged_cover:
  assumes "cover_inv s" and "clock t = clock s" and "timers (reg t) = timers (reg s)"
    and "callbacks (reg t) = callbacks (reg s)" and "deadTimeout (reg t) = deadTimeout (reg s)"
    and "\<exists>a. workers (reg s) wid = Some a \<and> State a = State e \<and> deadlineTimer a = deadlineTimer e \<and> LastHeartbeat a = LastHeartbeat e"
    and "State e \<noteq> DEAD"
  shows "covered t wid e"
proof -
  obtain a where a: "workers (reg s) wid = Some a" "State a = State e" "deadlineTimer a = deadlineTimer e"
    "LastHeartbeat a = LastHeartbeat e"
    using assms(6) by blast
  then have "covered s wid a" using assms(1,7) by (simp add: cover_inv_def)
  then have "covered s wid e" using a(3,4) by (simp add: covered_def)
  then show ?thesis using assms(2-5) by (simp add: covered_def armed_at_def)
qed

lemma sync_step_cover:
  assumes "cover_inv s" and "sync_step s ev t"
  shows "cover_inv t"
proof -
  from assms have st: "reg_step s ev t" and sy: "sync_event s ev" and inv: "reg_inv s"
    by (simp_all add: sync_step_def cover_inv_def)
  have cov: "covered s wid e" if "workers (reg s) wid = Some e" "State e \<noteq> DEAD" for wid e
    using assms(1) that by (simp add: cover_inv_def)
  have "covered t wid e" if w: "workers (reg t) wid = Some e" "State e \<noteq> DEAD" for wid e
    using st
  proof cases
    case (step_register t1 t2 info)
    then show ?thesis using begin_registration_cover(1) [OF assms(1), of t1] sy w by (auto simp: sync_event_def)
  next
    case (step_store a)
    then show ?thesis using finish_registration_cover [OF assms(1), of a] sy w by (auto simp: sync_event_def)
  next
    case (step_heartbeat t1 t2 req)
    then show ?thesis using Heartbeat_cover [OF assms(1), of t1] sy w by (auto simp: sync_event_def)
  next
    case (step_deregister req)
    then show ?thesis using w cov stop_cover [OF assms(1)]
      by (fastforce simp: Deregister_def Let_def timer_Stop_def split: option.splits if_splits)
  next
    case (step_report rep)
    then show ?thesis using w
      by (intro unchanged_cover [OF assms(1)]) (auto simp: ReportLoad_def split: option.splits if_splits)
  next
    case (step_drain wid')
    then show ?thesis using w
      by (intro unchanged_cover [OF assms(1)]) (auto simp: RequestDrain_def split: option.splits if_splits)
  next
    case (step_evict wid')
    then show ?thesis using w cov stop_cover [OF assms(1)]
      by (fastforce simp: Evict_def Let_def timer_Stop_def split: option.splits if_splits)
  next
    case (step_fire tid)
    then show ?thesis using w fire_cover [OF assms(1)] by auto
  next
    case (step_callback t1 t2 k)
    then show ?thesis using w callback_cover [OF assms(1)] by auto
  next
    case (step_tick c)
    then show ?thesis using w cov [of wid e] by (auto simp: covered_def)
  qed
  then show ?thesis using reg_step_inv [OF inv st] reg_step_pending_cover [OF assms(1) st sy] by (simp add: cover_inv_def)
qed

interpretation syncsys: inductive_invariant fleet_start sync_step cover_inv
proof unfold_locales
  show "fleet_start s \<Longrightarrow> cover_inv s" for s
    using fleet_start_inv [of s] by (auto simp: cover_inv_def fleet_start_def New_def)
qed (rule sync_step_cover)


section \<open>Properties\<close>

subsection \<open>Silent workers are found\<close>

definition settled :: "fleet \<Rightarrow> bool" where
  "settled s \<longleftrightarrow> callbacks (reg s) = [] \<and> (\<forall>tid w. armed_at (reg s) tid w \<longrightarrow> clock s < w)"

text \<open>
  Once the runtime has caught up (no callback is waiting and no armed timer is due),
  every worker that is not DEAD has been heard of within the timeout: no silent worker is
  overlooked. The hypothesis \<open>sync_step\<close> is that a heartbeat's timer reset and its reading
  of the clock (and the two clock readings of a registration) see the same instant, and
  that a registration gets the registry's lock within the timeout.
\<close>

theorem settled_registry_has_no_silent_worker:
  assumes "reach fleet_start sync_step s" and "settled s"
    and "workers (reg s) wid = Some e" and "State e \<noteq> DEAD"
  shows "clock s < LastHeartbeat e + deadTimeout (reg s)"
proof -
  have "covered s wid e" using syncsys.reach_inv [OF assms(1)] assms(3,4) by (simp add: cover_inv_def)
  then show ?thesis using assms(2) by (auto simp: covered_def settled_def)
qed

lemma demo_registered_sync_reach: "reach fleet_start sync_step demo_registered"
proof -
  obtain m where m: "reg_step demo_start (ERegister (demo_info ''w'') 1 1) m" "reg_step m (EStore demo_entry) demo_registered"
    using demo_registered_run by (auto simp: run_Cons_iff)
  from m(1) have "clock m = 1" "deadTimeout (reg m) = 10"
    by (auto simp: demo_start_def New_def begin_registration_eq elim!: reg_stepE)
  then have "sync_step m (EStore demo_entry) demo_registered"
    using m(2) by (simp add: sync_step_def sync_event_def demo_entry_def)
  moreover have "sync_step demo_start (ERegister (demo_info ''w'') 1 1) m"
    using m(1) by (simp add: sync_step_def sync_event_def)
  ultimately show ?thesis using demo_start_ok by (blast intro: reach.intros)
qed

theorem settled_registry_has_no_silent_worker_witness:
  "settled demo_registered \<and>
   (\<exists>e. workers (reg demo_registered) ''w'' = Some e \<and> clock demo_registered < LastHeartbeat e + 10)"
proof -
  have set: "settled demo_registered" and d: "deadTimeout (reg demo_registered) = 10"
    by (auto simp: settled_def armed_at_def demo_registered_def Register_eq new_entry_def AfterFunc_def demo_info_def
        New_def timer_when_def Let_def)
  have "State demo_entry \<noteq> DEAD" by (simp add: demo_entry_def)
  from settled_registry_has_no_silent_worker
    [OF demo_registered_sync_reach set demo_registered_entry this] d set
  show ?thesis using demo_registered_entry by auto
qed

definition runtime_event :: "reg_event \<Rightarrow> bool" where
  "runtime_event ev = (case ev of EFire _ \<Rightarrow> True | ECallback _ _ _ \<Rightarrow> True | ETick _ \<Rightarrow> True | _ \<Rightarrow> False)"











subsection \<open>A lost detection\<close>

text \<open>
  When the clock advances between the reset of the timer and the reading that is stored
  as the last heartbeat, the timer comes due before the recorded silence is over, its
  callback finds the worker recently heard of and returns, and nothing arms the timer
  again.
\<close>

definition lost_registered :: Registry where
  "lost_registered = snd (Register (New 10) (demo_info ''w'') 1 1)"

definition lost_heartbeat :: Registry where
  "lost_heartbeat = snd (Heartbeat lost_registered \<lparr>hb_WorkerId = ''w'', hb_State = READY\<rparr> 2 5)"

definition lost_fired :: Registry where
  "lost_fired = fire_timer lost_heartbeat 0 12"

definition lost_final :: fleet where
  "lost_final = \<lparr>reg = run_callback lost_fired 0 12 12, clock = 12\<rparr>"

definition forgotten :: "fleet \<Rightarrow> bool" where
  "forgotten s \<longleftrightarrow> callbacks (reg s) = [] \<and> (\<forall>tid w. \<not> armed_at (reg s) tid w)"

lemma forgotten_step:
  assumes "forgotten s" and "reg_step s ev t" and "runtime_event ev"
  shows "forgotten t \<and> workers (reg t) = workers (reg s)"
proof -
  have "fire_timer (reg s) tid c = reg s" for tid c
    using assms(1) by (auto simp: forgotten_def fire_timer_def armed_at_def split: option.splits)
  then show ?thesis
    using assms by (auto elim!: reg_stepE simp: runtime_event_def run_callback_def forgotten_def)
qed

lemma forgotten_run:
  "run reg_step s es t \<Longrightarrow> forgotten s \<Longrightarrow> list_all runtime_event es \<Longrightarrow>
     forgotten t \<and> workers (reg t) = workers (reg s)"
  by (induction rule: run.induct) (auto dest: forgotten_step)

lemmas lost_defs = lost_final_def lost_fired_def lost_heartbeat_def lost_registered_def
  Heartbeat_def Register_eq new_entry_def AfterFunc_def demo_info_def New_def timer_when_def Let_def
  validTransition.simps timer_Reset_def set_when_def fire_timer_def run_callback_def markDead_def
  time_sub_def sat64_def min_int64_def max_int64_def

lemma lost_final_forgotten: "forgotten lost_final"
  by (auto simp: forgotten_def armed_at_def lost_defs)

lemma lost_final_reach: "reach fleet_start reg_step lost_final"
proof -
  have "run reg_step demo_registered
    [EHeartbeat \<lparr>hb_WorkerId = ''w'', hb_State = READY\<rparr> 2 5, ETick 12, EFire 0, ECallback 0 12 12] lost_final"
    using step_heartbeat [of demo_registered 2 5 "\<lparr>hb_WorkerId = ''w'', hb_State = READY\<rparr>"]
      step_tick [of "\<lparr>reg = lost_heartbeat, clock = 5\<rparr>" 12]
      step_fire [of "\<lparr>reg = lost_heartbeat, clock = 12\<rparr>" 0]
      step_callback [of "\<lparr>reg = lost_fired, clock = 12\<rparr>" 12 12 0]
    by (auto simp: run_Cons_iff demo_registered_def lost_registered_def [symmetric]
        lost_heartbeat_def [symmetric] lost_fired_def [symmetric] lost_final_def [symmetric] intro!: exI)
  then show ?thesis by (rule reach_run [OF _ demo_registered_reach])
qed

text \<open>
  C33: The detection can be lost. There is a reachable state in which a worker is READY
  (so the router sends requests to it), and from which it stays READY, with the same entry, through every
  continuation of the runtime's own steps (time passes, timers fire, callbacks run), however
  long: no timer is armed for it any more. The run takes a heartbeat that resets the timer at instant 2 and stores instant 5.
\<close>

theorem detection_can_be_lost:
  "\<exists>s e. reach fleet_start reg_step s \<and> workers (reg s) ''w'' = Some e \<and> State e = READY \<and>
     (\<forall>es t. run reg_step s es t \<and> list_all runtime_event es \<longrightarrow> workers (reg t) ''w'' = Some e)"
proof -
  have "\<exists>e. workers (reg lost_final) ''w'' = Some e \<and> State e = READY" by (auto simp: lost_defs)
  then show ?thesis
    using lost_final_reach forgotten_run lost_final_forgotten by metis
qed

theorem detection_can_be_lost_witness:
  "\<exists>s e. reach fleet_start reg_step s \<and> workers (reg s) ''w'' = Some e \<and> State e = READY"
  using detection_can_be_lost by blast

end
