(* ===== verification/Registry_Reads.thy ===== *)
theory Registry_Reads
  imports Registry_Detection
begin

text \<open>
  What the registry's read methods return: the workers a model can be routed to, the
  fleet counts and the per-model statistics, for any order in which the map of workers is
  visited. The locale \<open>worker_directory\<close> is the contract the router relies on.
\<close>

section \<open>The directory contract\<close>

locale worker_directory =
  fixes lookup :: "'r \<Rightarrow> string \<rightharpoonup> WorkerEntry"
    and healthyFor :: "'r \<Rightarrow> string list \<Rightarrow> string \<Rightarrow> WorkerEntry list"
    and wf :: "'r \<Rightarrow> bool"
  assumes keyed: "wf r \<Longrightarrow> lookup r wid = Some e \<Longrightarrow> WorkerId (Info e) = wid"
    and healthy_set: "range_order (lookup r) ks \<Longrightarrow>
      set (healthyFor r ks m) =
        {e. \<exists>wid. lookup r wid = Some e \<and> healthy_state (State e) \<and> m \<in> set (ModelsLoaded (Info e))}"
    and healthy_distinct: "wf r \<Longrightarrow> range_order (lookup r) ks \<Longrightarrow>
      distinct (map (\<lambda>e. WorkerId (Info e)) (healthyFor r ks m))"
begin

lemma healthy_registered:
  assumes "wf r" and "range_order (lookup r) ks" and "e \<in> set (healthyFor r ks m)"
  shows "lookup r (WorkerId (Info e)) = Some e \<and> healthy_state (State e) \<and> m \<in> set (ModelsLoaded (Info e))"
  using assms healthy_set [OF assms(2)] keyed [OF assms(1)] by fastforce

lemma healthy_order_irrelevant:
  assumes "wf r" and "range_order (lookup r) ks" and "range_order (lookup r) ks'"
  shows "mset (healthyFor r ks m) = mset (healthyFor r ks' m)"
proof -
  have "distinct (healthyFor r k m)" if "range_order (lookup r) k" for k
    using healthy_distinct [OF assms(1) that] by (simp add: distinct_map)
  moreover have "set (healthyFor r ks m) = set (healthyFor r ks' m)"
    by (simp add: healthy_set assms)
  ultimately show ?thesis using assms(2,3) by (metis set_eq_iff_mset_eq_distinct)
qed

lemma healthy_unavailable_iff:
  assumes "range_order (lookup r) ks"
  shows "healthyFor r ks m = [] \<longleftrightarrow>
    (\<forall>wid e. lookup r wid = Some e \<longrightarrow> healthy_state (State e) \<longrightarrow> m \<notin> set (ModelsLoaded (Info e)))"
proof -
  have "healthyFor r ks m = [] \<longleftrightarrow> set (healthyFor r ks m) = {}" by simp
  also have "\<dots> \<longleftrightarrow> (\<forall>wid e. lookup r wid = Some e \<longrightarrow> healthy_state (State e) \<longrightarrow>
    m \<notin> set (ModelsLoaded (Info e)))"
    unfolding healthy_set [OF assms] by blast
  finally show ?thesis .
qed

end

definition keyed_registry :: "Registry \<Rightarrow> bool" where
  "keyed_registry r \<longleftrightarrow> (\<forall>wid e. workers r wid = Some e \<longrightarrow> WorkerId (Info e) = wid)"

lemma reg_inv_keyed: "reg_inv s \<Longrightarrow> keyed_registry (reg s)"
  by (auto simp: reg_inv_def keyed_registry_def entry_ok_def)

lemma keyed_ids:
  assumes "keyed_registry r" and "range_order (workers r) ks"
  shows "map (\<lambda>e. WorkerId (Info e)) (range_values (workers r) ks) = ks"
proof -
  have "WorkerId (Info (the (workers r k))) = k" if "k \<in> set ks" for k
    using assms that by (fastforce simp: keyed_registry_def range_order_def)
  then show ?thesis using assms(2) by (simp add: range_order_values map_idI)
qed

lemma healthy_workers_set:
  assumes "range_order (workers r) ks"
  shows "set (HealthyWorkersForModel r ks m) =
    {e. \<exists>wid. workers r wid = Some e \<and> healthy_state (State e) \<and> m \<in> set (ModelsLoaded (Info e))}"
  using range_values_ran [OF assms] by (auto simp: HealthyWorkersForModel_def ran_def)

lemma healthy_workers_distinct:
  assumes "keyed_registry r" and "range_order (workers r) ks"
  shows "distinct (map (\<lambda>e. WorkerId (Info e)) (HealthyWorkersForModel r ks m))"
proof -
  have "distinct (map (\<lambda>e. WorkerId (Info e)) (range_values (workers r) ks))"
    using keyed_ids [OF assms] assms(2) by (simp add: range_order_def)
  then show ?thesis by (simp add: HealthyWorkersForModel_def distinct_map_filter)
qed

interpretation regdir: worker_directory workers HealthyWorkersForModel keyed_registry
proof unfold_locales
  show "keyed_registry r \<Longrightarrow> workers r wid = Some e \<Longrightarrow> WorkerId (Info e) = wid" for r wid e
    by (simp add: keyed_registry_def)
qed (rule healthy_workers_set healthy_workers_distinct; assumption)+

section \<open>Counts\<close>

lemma WorkerCount_fold:
  "fold (\<lambda>e (total, healthy). (total + 1, if healthy_state (State e) then healthy + 1 else healthy)) es (t, h) =
     (t + length es, h + length (filter (\<lambda>e. healthy_state (State e)) es))"
  by (induction es arbitrary: t h) auto

lemma WorkerCount_eq:
  "WorkerCount r ks =
     (length (range_values (workers r) ks),
      length (filter (\<lambda>e. healthy_state (State e)) (range_values (workers r) ks)))"
  unfolding WorkerCount_def WorkerCount_fold by simp

definition total_of :: "(string \<rightharpoonup> nat \<times> nat) \<Rightarrow> string \<Rightarrow> nat" where
  "total_of c m = (case c m of None \<Rightarrow> 0 | Some (t, h) \<Rightarrow> t)"

definition healthy_of :: "(string \<rightharpoonup> nat \<times> nat) \<Rightarrow> string \<Rightarrow> nat" where
  "healthy_of c m = (case c m of None \<Rightarrow> 0 | Some (t, h) \<Rightarrow> h)"

lemma counts_empty [simp]: "total_of Map.empty m = 0" "healthy_of Map.empty m = 0"
  by (simp_all add: total_of_def healthy_of_def)

lemma count_model_simps:
  "total_of (count_model h x c) m = total_of c m + (if x = m then 1 else 0)"
  "healthy_of (count_model h x c) m = healthy_of c m + (if x = m \<and> h then 1 else 0)"
  "dom (count_model h x c) = insert x (dom c)"
  by (auto simp: count_model_def total_of_def healthy_of_def Let_def case_prod_beta split: option.splits)

lemma count_models_fold:
  "total_of (fold (count_model h) ms c) m = total_of c m + count_list ms m"
  "healthy_of (fold (count_model h) ms c) m = healthy_of c m + (if h then count_list ms m else 0)"
  "dom (fold (count_model h) ms c) = dom c \<union> set ms"
  by (induction ms arbitrary: c) (auto simp: count_model_simps)

definition loads :: "string \<Rightarrow> WorkerEntry \<Rightarrow> nat" where
  "loads m e = count_list (ModelsLoaded (Info e)) m"

lemma count_workers_fold:
  "total_of (fold count_worker es c) m = total_of c m + sum_list (map (loads m) es)"
  "healthy_of (fold count_worker es c) m =
     healthy_of c m + sum_list (map (loads m) (filter (\<lambda>e. healthy_state (State e)) es))"
  "dom (fold count_worker es c) = dom c \<union> (\<Union>e \<in> set es. set (ModelsLoaded (Info e)))"
  by (induction es arbitrary: c) (auto simp: count_worker_def count_models_fold loads_def)

lemma model_counts_spec:
  "total_of (model_counts r ks) m = sum_list (map (loads m) (range_values (workers r) ks))"
  "healthy_of (model_counts r ks) m =
     sum_list (map (loads m) (filter (\<lambda>e. healthy_state (State e)) (range_values (workers r) ks)))"
  "dom (model_counts r ks) = (\<Union>e \<in> set (range_values (workers r) ks). set (ModelsLoaded (Info e)))"
  by (simp_all add: model_counts_def count_workers_fold)

lemma model_counts_the:
  "model_counts r ks m \<noteq> None \<Longrightarrow>
     the (model_counts r ks m) = (total_of (model_counts r ks) m, healthy_of (model_counts r ks) m)"
  by (auto simp: total_of_def healthy_of_def)

lemma ModelsServed_stat:
  assumes "st \<in> set (ModelsServed r ks ms)"
  shows "TotalWorkers st = sum_list (map (loads (ms_Model st)) (range_values (workers r) ks)) \<and>
    HealthyWorkers st = sum_list (map (loads (ms_Model st))
      (filter (\<lambda>e. healthy_state (State e)) (range_values (workers r) ks)))"
  using assms by (auto simp: ModelsServed_def model_counts_the model_counts_spec)

lemma sum_list_loads:
  assumes "\<forall>e \<in> set es. distinct (ModelsLoaded (Info e))"
  shows "sum_list (map (loads m) es) = length (filter (\<lambda>e. m \<in> set (ModelsLoaded (Info e))) es)"
  using assms by (induction es) (auto simp: loads_def count_list_distinct)


section \<open>Properties\<close>

text \<open>
  The workers the router is offered for a model are exactly the registered workers in
  state READY or BUSY that list the model, each once and under its own id; STARTING,
  DRAINING and DEAD workers are never offered; and the order in which the map of workers
  is visited can change the order of the list but not its contents.
\<close>

theorem healthy_workers_exact:
  assumes "reach fleet_start reg_step s" and "range_order (workers (reg s)) ks"
  shows "set (HealthyWorkersForModel (reg s) ks m) =
      {e. \<exists>wid. workers (reg s) wid = Some e \<and> State e \<in> {READY, BUSY} \<and> m \<in> set (ModelsLoaded (Info e))} \<and>
    distinct (map (\<lambda>e. WorkerId (Info e)) (HealthyWorkersForModel (reg s) ks m)) \<and>
    (\<forall>ks'. range_order (workers (reg s)) ks' \<longrightarrow>
      mset (HealthyWorkersForModel (reg s) ks' m) = mset (HealthyWorkersForModel (reg s) ks m))"
proof -
  have k: "keyed_registry (reg s)" by (rule reg_inv_keyed [OF regsys.reach_inv [OF assms(1)]])
  show ?thesis
    using healthy_workers_set [OF assms(2)] healthy_workers_distinct [OF k assms(2)]
      regdir.healthy_order_irrelevant [OF k _ assms(2)]
    by (simp add: healthy_state_def)
qed

lemma demo_registered_order: "range_order (workers (reg demo_registered)) [''w'']"
  by (simp add: range_order_def demo_registered_def Register_eq new_entry_def AfterFunc_def demo_info_def New_def
      Let_def)

theorem healthy_workers_exact_witness:
  "set (HealthyWorkersForModel (reg demo_registered) [''w''] ''m'') =
     {e. \<exists>wid. workers (reg demo_registered) wid = Some e \<and> State e \<in> {READY, BUSY} \<and>
       ''m'' \<in> set (ModelsLoaded (Info e))}"
  using healthy_workers_exact [OF demo_registered_reach demo_registered_order, of "''m''"] by blast

text \<open>
  The fleet counts are right: the total is the number of registered workers, the
  healthy count the number of those in READY or BUSY, and the statistics of a model count
  a worker once per occurrence of the model in its list, so that, when no worker lists a
  model twice, they are the numbers of workers and of healthy workers that serve it.
\<close>

theorem fleet_counts_exact:
  assumes "range_order (workers r) ks" and "st \<in> set (ModelsServed r ks ms)"
    and "\<forall>wid e. workers r wid = Some e \<longrightarrow> distinct (ModelsLoaded (Info e))"
  shows "WorkerCount r ks = (card (dom (workers r)),
      card {wid. \<exists>e. workers r wid = Some e \<and> healthy_state (State e)}) \<and>
    TotalWorkers st = card {wid. \<exists>e. workers r wid = Some e \<and> ms_Model st \<in> set (ModelsLoaded (Info e))} \<and>
    HealthyWorkers st = card {wid. \<exists>e. workers r wid = Some e \<and>
      ms_Model st \<in> set (ModelsLoaded (Info e)) \<and> healthy_state (State e)}"
proof -
  have d: "\<forall>e \<in> set (range_values (workers r) ks). distinct (ModelsLoaded (Info e))"
    using assms(3) range_values_ran [OF assms(1)] by (auto simp: ran_def)
  have "WorkerCount r ks = (card (dom (workers r)),
      card {wid. \<exists>e. workers r wid = Some e \<and> healthy_state (State e)})"
    by (simp add: WorkerCount_eq length_range_values length_filter_range_values assms(1))
  moreover have "TotalWorkers st =
      card {wid. \<exists>e. workers r wid = Some e \<and> ms_Model st \<in> set (ModelsLoaded (Info e))}"
    using ModelsServed_stat [OF assms(2)] d
    by (simp add: sum_list_loads length_filter_range_values assms(1))
  moreover have "HealthyWorkers st = card {wid. \<exists>e. workers r wid = Some e \<and>
      ms_Model st \<in> set (ModelsLoaded (Info e)) \<and> healthy_state (State e)}"
    using ModelsServed_stat [OF assms(2)] d
    by (simp add: sum_list_loads length_filter_range_values assms(1) conj_commute)
  ultimately show ?thesis by blast
qed

theorem fleet_counts_exact_witness:
  "\<exists>st. st \<in> set (ModelsServed (reg demo_registered) [''w''] [''m'']) \<and> TotalWorkers st =
     card {wid. \<exists>e. workers (reg demo_registered) wid = Some e \<and> ms_Model st \<in> set (ModelsLoaded (Info e))}"
proof -
  have "model_counts (reg demo_registered) [''w''] ''m'' = Some (1, 0)"
    by (simp add: model_counts_def demo_registered_entry demo_entry_def demo_info_def count_worker_def
        count_model_def healthy_state_def)
  then have st: "\<lparr>ms_Model = ''m'', TotalWorkers = 1, HealthyWorkers = 0\<rparr>
      \<in> set (ModelsServed (reg demo_registered) [''w''] [''m''])"
    by (simp add: ModelsServed_def)
  have "\<forall>wid e. workers (reg demo_registered) wid = Some e \<longrightarrow> distinct (ModelsLoaded (Info e))"
    by (simp add: demo_registered_def Register_eq new_entry_def AfterFunc_def demo_info_def New_def Let_def)
  from fleet_counts_exact [OF demo_registered_order st this] st show ?thesis by blast
qed

text \<open>
  A worker that lists a model twice is counted twice for it, although the field's comment
  says it counts workers.
\<close>

lemma repeated_model_counted_twice:
  "map TotalWorkers
     (ModelsServed (snd (Register (New 10) ((demo_info ''w'')\<lparr>ModelsLoaded := [''m'', ''m'']\<rparr>) 1 1))
        [''w''] [''m'']) = [2]"
  by (simp add: ModelsServed_def model_counts_def count_worker_def count_model_def Register_eq new_entry_def
      AfterFunc_def demo_info_def New_def Let_def healthy_state_def)

end
