(* ===== verification/Router.thy ===== *)
theory Router
  imports Registry_Reads Net_Http
begin

text \<open>
  The inference router (\<^verbatim>\<open>control-plane/router/router.go\<close>): choice of a worker, in-flight
  counters, proxying and failover.

  The counters are 64-bit words, so that they wrap as the atomics do. What a handler
  cannot control is an argument: the in-flight counts its two passes over the candidates
  read (other requests change them concurrently), and what the HTTP client call of each
  attempt gives. The handler returns the response it wrote, the requests it sent to
  workers, and a panic if it ran into one.
\<close>

section \<open>State\<close>

record Router =
  counter :: "64 word"
  inFlight :: "string \<rightharpoonup> 64 word"
  hasHook :: bool
  hookCalls :: "(string \<times> string) list"

definition Router_New :: "bool \<Rightarrow> Router" where
  "Router_New hook = \<lparr>counter = 0, inFlight = Map.empty, hasHook = hook, hookCalls = []\<rparr>"

definition SetRequestHook :: "Router \<Rightarrow> Router" where
  "SetRequestHook r = r\<lparr>hasHook := True\<rparr>"

definition call_hook :: "Router \<Rightarrow> string \<Rightarrow> string \<Rightarrow> Router" where
  "call_hook r model result =
     (if hasHook r then r\<lparr>hookCalls := hookCalls r @ [(model, result)]\<rparr> else r)"

section \<open>In-flight counters\<close>

definition counter64 :: "Router \<Rightarrow> string \<Rightarrow> 64 word \<times> Router" where
  "counter64 r workerID =
     (case inFlight r workerID of
        Some c \<Rightarrow> (c, r)
      | None \<Rightarrow> (0, r\<lparr>inFlight := (inFlight r)(workerID \<mapsto> 0)\<rparr>))"

definition inc :: "Router \<Rightarrow> string \<Rightarrow> Router" where
  "inc r workerID =
     (let (c, r1) = counter64 r workerID in r1\<lparr>inFlight := (inFlight r1)(workerID \<mapsto> c + 1)\<rparr>)"

definition dec :: "Router \<Rightarrow> string \<Rightarrow> Router" where
  "dec r workerID =
     (let (c, r1) = counter64 r workerID in r1\<lparr>inFlight := (inFlight r1)(workerID \<mapsto> c - 1)\<rparr>)"

definition getInFlight :: "Router \<Rightarrow> string \<Rightarrow> int" where
  "getInFlight r workerID = (case inFlight r workerID of None \<Rightarrow> 0 | Some c \<Rightarrow> sint c)"

definition InFlightSnapshot :: "Router \<Rightarrow> (string \<rightharpoonup> int)" where
  "InFlightSnapshot r = (\<lambda>wid. map_option sint (inFlight r wid))"

section \<open>Worker selection\<close>

abbreviation wid_of :: "WorkerEntry \<Rightarrow> string" where
  "wid_of e \<equiv> WorkerId (Info e)"

abbreviation cost_of :: "WorkerEntry \<Rightarrow> float64" where
  "cost_of e \<equiv> CostPerHour (Info e)"

text \<open>The two running minima: the first element, then every smaller one.\<close>

definition min_flight :: "(string \<Rightarrow> int) \<Rightarrow> WorkerEntry \<Rightarrow> WorkerEntry list \<Rightarrow> int" where
  "min_flight gf w ws = fold (\<lambda>e m. if gf (wid_of e) < m then gf (wid_of e) else m) ws (gf (wid_of w))"

definition min_cost :: "WorkerEntry \<Rightarrow> WorkerEntry list \<Rightarrow> float64" where
  "min_cost w ws = fold (\<lambda>e m. if f64_less (cost_of e) m then cost_of e else m) ws (cost_of w)"

text \<open>
  \<open>gf1\<close> is what the pass that computes the minimum reads, \<open>gf2\<close> what the pass that
  collects the workers at the minimum reads. The length of a slice always fits in 64
  bits, so the remainder is taken on natural numbers.
\<close>

definition pickWorker ::
  "WorkerEntry list \<Rightarrow> 64 word \<Rightarrow> (string \<Rightarrow> int) \<Rightarrow> (string \<Rightarrow> int) \<Rightarrow>
     (panic + WorkerEntry) \<times> 64 word" where
  "pickWorker ws c gf1 gf2 =
     (case ws of
        [] \<Rightarrow> (Inl IndexOutOfRange, c)
      | [w] \<Rightarrow> (Inr w, c)
      | w # rest \<Rightarrow>
          (let m = min_flight gf1 w rest;
               flight = filter (\<lambda>e. gf2 (wid_of e) = m) ws
           in case flight of
                [] \<Rightarrow> (Inl IndexOutOfRange, c)
              | [f] \<Rightarrow> (Inr f, c)
              | f # fs \<Rightarrow>
                  (let mc = min_cost f fs;
                       cheapest = filter (\<lambda>e. f64_eq (cost_of e) mc) flight;
                       c' = c + 1
                   in if cheapest = [] then (Inl IntegerDivideByZero, c')
                      else (Inr (cheapest ! (unat c' mod length cheapest)), c'))))"

section \<open>Proxy\<close>

record outgoing =
  og_target :: string
  og_method :: string
  og_header :: "string \<rightharpoonup> string"
  og_body :: bytes

definition proxy_headers :: "http_request \<Rightarrow> (string \<rightharpoonup> string)" where
  "proxy_headers orig =
     (fold (\<lambda>h m. if header_get (Header orig) h \<noteq> '''' then m(h \<mapsto> header_get (Header orig) h) else m)
        [''Content-Type'', ''Accept'', ''Authorization''] Map.empty)
     (''Content-Type'' \<mapsto> ''application/json'')"

definition proxy_request :: "http_request \<Rightarrow> string \<Rightarrow> bytes \<Rightarrow> outgoing" where
  "proxy_request orig target body =
     \<lparr>og_target = target, og_method = Method orig, og_header = proxy_headers orig, og_body = body\<rparr>"

text \<open>Returns whether the caller may retry, whether there was an error, and the response.\<close>

definition proxy :: "response \<Rightarrow> do_result \<Rightarrow> panic + (bool \<times> bool \<times> response)" where
  "proxy w res =
     (case res of
        BuildError \<Rightarrow> Inr (True, True, w)
      | Unreachable \<Rightarrow> Inr (True, True, w)
      | Got up \<Rightarrow>
          (case WriteHeader (us_status up) (set_header ''Content-Type'' (us_ctype up) w) of
             Inl p \<Rightarrow> Inl p
           | Inr w1 \<Rightarrow> Inr (False, us_broken up, fold write_body (us_chunks up) w1)))"

section \<open>The handler\<close>

record route_result =
  rr_panic :: "panic option"
  rr_router :: Router
  rr_response :: response
  rr_sent :: "outgoing list"
  rr_tried :: "string list"

text \<open>
  The retry loop: \<open>n\<close> attempts are left, \<open>attempt\<close> counts from 1, \<open>tried\<close> holds the
  ids already tried. A panic of the proxy leaves the chosen worker's counter raised, as
  the decrement is not deferred.
\<close>

fun route_attempts ::
  "(nat \<Rightarrow> (string \<Rightarrow> int) \<times> (string \<Rightarrow> int)) \<Rightarrow> (nat \<Rightarrow> string \<Rightarrow> do_result) \<Rightarrow>
     http_request \<Rightarrow> bytes \<Rightarrow> string \<Rightarrow> WorkerEntry list \<Rightarrow>
     nat \<Rightarrow> nat \<Rightarrow> string list \<Rightarrow> outgoing list \<Rightarrow> Router \<Rightarrow> response \<Rightarrow> route_result" where
  "route_attempts reads net req body model ws 0 attempt tried sent r w =
     \<lparr>rr_panic = None, rr_router = call_hook r model ''error'',
      rr_response = http_Error ''all workers failed or unavailable'' 502 w,
      rr_sent = sent, rr_tried = tried\<rparr>"
| "route_attempts reads net req body model ws (Suc n) attempt tried sent r w =
     (let candidates = filter (\<lambda>e. wid_of e \<notin> set tried) ws
      in if candidates = []
         then \<lparr>rr_panic = None, rr_router = call_hook r model ''error'',
               rr_response = http_Error ''all workers failed or unavailable'' 502 w,
               rr_sent = sent, rr_tried = tried\<rparr>
         else
           case pickWorker candidates (counter r) (fst (reads attempt)) (snd (reads attempt)) of
             (Inl p, c) \<Rightarrow>
               \<lparr>rr_panic = Some p, rr_router = r\<lparr>counter := c\<rparr>, rr_response = w,
                rr_sent = sent, rr_tried = tried\<rparr>
           | (Inr chosen, c) \<Rightarrow>
               (let wid = wid_of chosen;
                    target = ''http://'' @ Address (Info chosen) @ Path req;
                    r1 = inc (r\<lparr>counter := c\<rparr>) wid;
                    res = net attempt target;
                    sent' = (if res = BuildError then sent else sent @ [proxy_request req target body])
                in case proxy w res of
                     Inl p \<Rightarrow>
                       \<lparr>rr_panic = Some p, rr_router = r1, rr_response = w,
                        rr_sent = sent', rr_tried = tried @ [wid]\<rparr>
                   | Inr (retryable, err, w') \<Rightarrow>
                       (let r2 = dec r1 wid
                        in if \<not> err
                           then \<lparr>rr_panic = None, rr_router = call_hook r2 model ''success'',
                                 rr_response = w', rr_sent = sent', rr_tried = tried @ [wid]\<rparr>
                           else if \<not> retryable
                           then \<lparr>rr_panic = None, rr_router = call_hook r2 model ''error'',
                                 rr_response = w', rr_sent = sent', rr_tried = tried @ [wid]\<rparr>
                           else route_attempts reads net req body model ws n (Suc attempt)
                                  (tried @ [wid]) sent' r2 w')))"

definition reject :: "Router \<Rightarrow> response \<Rightarrow> string \<Rightarrow> int \<Rightarrow> route_result" where
  "reject r w msg code =
     \<lparr>rr_panic = None, rr_router = r, rr_response = http_Error msg code w, rr_sent = [], rr_tried = []\<rparr>"

text \<open>
  The verb \<^verbatim>\<open>%q\<close>: quotes and backslashes are escaped, control characters are written as
  Go escapes. Bytes from 0x80 on are kept, as they are in printable UTF-8.
\<close>

definition hex_digit :: "nat \<Rightarrow> char" where
  "hex_digit n = ''0123456789abcdef'' ! (n mod 16)"

definition quote_char :: "char \<Rightarrow> string" where
  "quote_char c =
     (let n = (of_char c :: nat)
      in if n = 0x22 \<or> n = 0x5C then [CHR 0x5C, c]
         else if 7 \<le> n \<and> n \<le> 13 then [CHR 0x5C, ''abtnvfr'' ! (n - 7)]
         else if n < 32 \<or> n = 127 then [CHR 0x5C, CHR ''x'', hex_digit (n div 16), hex_digit n]
         else [c])"

definition quoted :: "string \<Rightarrow> string" where
  "quoted s = [CHR 0x22] @ concat (map quote_char s) @ [CHR 0x22]"

text \<open>\<open>ks\<close> is the order in which the registry's map is visited.\<close>

definition handleInference ::
  "(bytes \<Rightarrow> json option) \<Rightarrow> (nat \<Rightarrow> (string \<Rightarrow> int) \<times> (string \<Rightarrow> int)) \<Rightarrow>
     (nat \<Rightarrow> string \<Rightarrow> do_result) \<Rightarrow> Registry \<Rightarrow> string list \<Rightarrow> Router \<Rightarrow> http_request \<Rightarrow> route_result" where
  "handleInference parse reads net rg ks r req =
     (let w = new_response
      in if Method req \<noteq> ''POST'' then reject r w ''method not allowed'' 405
         else case Body req of
           None \<Rightarrow> reject r w ''failed to read request body'' 400
         | Some body \<Rightarrow>
             (case Option.bind (parse body) (unmarshal_string_field ''model'') of
                None \<Rightarrow> reject r w ''request body must contain a valid 'model' field'' 400
              | Some model \<Rightarrow>
                  if model = '''' then reject r w ''request body must contain a valid 'model' field'' 400
                  else
                    let ws = HealthyWorkersForModel rg ks model
                    in if ws = [] then reject r w (''no healthy workers available for model '' @ quoted model) 503
                       else route_attempts reads net req body model ws (min (length ws) 3) 1 [] [] r w))"

definition ServeHTTP ::
  "(bytes \<Rightarrow> json option) \<Rightarrow> (nat \<Rightarrow> (string \<Rightarrow> int) \<times> (string \<Rightarrow> int)) \<Rightarrow>
     (nat \<Rightarrow> string \<Rightarrow> do_result) \<Rightarrow> Registry \<Rightarrow> string list \<Rightarrow> Router \<Rightarrow> http_request \<Rightarrow> route_result" where
  "ServeHTTP parse reads net rg ks r req =
     (if Path req = ''/v1/chat/completions'' \<or> Path req = ''/v1/completions''
      then handleInference parse reads net rg ks r req
      else if Path req = ''/healthz''
      then \<lparr>rr_panic = None, rr_router = r, rr_response = write_body ''ok'' (commit_status 200 new_response),
            rr_sent = [], rr_tried = []\<rparr>
      else reject r new_response ''not found'' 404)"


section \<open>Choosing a worker\<close>

lemma running_min: "(if x < m then x else m) = min x (m :: int)"
  by (simp add: min_def)

lemma min_flight_Min: "min_flight gf w ws = Min (set (map (\<lambda>e. gf (wid_of e)) (w # ws)))"
proof -
  have "min_flight gf w ws = fold min (map (\<lambda>e. gf (wid_of e)) ws) (gf (wid_of w))"
    by (simp add: min_flight_def running_min fold_map comp_def)
  then show ?thesis by (simp only: Min.set_eq_fold list.map)
qed

lemma min_cost_attained: "\<exists>e \<in> set (w # ws). cost_of e = min_cost w ws"
proof -
  have "fold (\<lambda>e m. if f64_less (cost_of e) m then cost_of e else m) ws m0 = m0 \<or>
    (\<exists>e \<in> set ws. cost_of e = fold (\<lambda>e m. if f64_less (cost_of e) m then cost_of e else m) ws m0)" for m0
    by (induction ws arbitrary: m0) force+
  from this [of "cost_of w"] show ?thesis by (auto simp: min_cost_def)
qed

lemma min_cost_least:
  assumes "e \<in> set (w # ws)"
  shows "\<not> f64_less (cost_of e) (min_cost w ws)"
proof -
  let ?f = "\<lambda>e m. if f64_less (cost_of e) m then cost_of e else m"
  have below: "f64_less x (fold ?f us m0) \<Longrightarrow> f64_less x m0" for x us m0
    by (induction us arbitrary: m0) (auto split: if_splits dest: f64_less_trans)
  have "e \<in> set us \<Longrightarrow> \<not> f64_less (cost_of e) (fold ?f us m0)" for us m0
  proof (induction us arbitrary: m0)
    case (Cons u us)
    show ?case
    proof
      assume less: "f64_less (cost_of e) (fold ?f (u # us) m0)"
      then have "e \<notin> set us" using Cons.IH by auto
      then have "e = u" using Cons.prems by simp
      then have "f64_less (cost_of u) (?f u m0)" using below [of "cost_of u" us "?f u m0"] less by simp
      then show False by (simp split: if_splits)
    qed
  qed simp
  moreover have "\<not> f64_less (cost_of w) (fold ?f ws (cost_of w))" using below f64_less_irrefl by blast
  ultimately show ?thesis using assms by (auto simp: min_cost_def)
qed

end
