(* ===== verification/Router_Select.thy ===== *)
theory Router_Select
  imports Router
begin

text \<open>
  What \<^verbatim>\<open>pickWorker\<close> chooses. The specification is \<open>best_workers\<close>: the candidates that no
  other candidate beats on (in-flight count, cost per hour). The code reaches it by two
  passes over the counts and one over the costs; it refines the specification when
  both passes read the same counts and no cost is NaN, and it can panic otherwise.
\<close>

definition least_loaded :: "(string \<Rightarrow> int) \<Rightarrow> WorkerEntry list \<Rightarrow> WorkerEntry list" where
  "least_loaded gf ws = filter (\<lambda>e. \<forall>e' \<in> set ws. gf (wid_of e) \<le> gf (wid_of e')) ws"

definition best_workers :: "(string \<Rightarrow> int) \<Rightarrow> WorkerEntry list \<Rightarrow> WorkerEntry list" where
  "best_workers gf ws =
     filter (\<lambda>e. \<forall>e' \<in> set (least_loaded gf ws). \<not> f64_less (cost_of e') (cost_of e)) (least_loaded gf ws)"

definition costs_ordered :: "WorkerEntry list \<Rightarrow> bool" where
  "costs_ordered ws \<longleftrightarrow> (\<forall>e \<in> set ws. cost_of e \<noteq> NaN)"

text \<open>Picking again and again while the counts stay the same.\<close>

fun picks :: "nat \<Rightarrow> WorkerEntry list \<Rightarrow> 64 word \<Rightarrow> (string \<Rightarrow> int) \<Rightarrow> (panic + WorkerEntry) list" where
  "picks 0 ws c gf = []"
| "picks (Suc n) ws c gf =
     (let (e, c') = pickWorker ws c gf gf in e # picks n ws c' gf)"

section \<open>The passes compute the specification\<close>

lemma least_loaded_filter:
  assumes "ws = w # rest"
  shows "filter (\<lambda>e. gf (wid_of e) = min_flight gf w rest) ws = least_loaded gf ws"
proof -
  have fin: "finite (set (map (\<lambda>e. gf (wid_of e)) ws))" by simp
  have "gf (wid_of e) = Min (set (map (\<lambda>e. gf (wid_of e)) ws)) \<longleftrightarrow>
      (\<forall>e' \<in> set ws. gf (wid_of e) \<le> gf (wid_of e'))" if "e \<in> set ws" for e
  proof -
    from that have "set (map (\<lambda>e. gf (wid_of e)) ws) \<noteq> {}" by auto
    from eq_Min_iff [OF fin this] show ?thesis using that by auto
  qed
  then show ?thesis
    unfolding least_loaded_def min_flight_Min assms [symmetric] by (intro filter_cong) auto
qed

lemma least_loaded_nonempty: "ws \<noteq> [] \<Longrightarrow> least_loaded gf ws \<noteq> []"
proof -
  assume "ws \<noteq> []"
  then obtain e where "e \<in> set ws" "\<And>e'. e' \<in> set ws \<Longrightarrow> gf (wid_of e) \<le> gf (wid_of e')"
    using arg_min_list_in [of ws "\<lambda>e. gf (wid_of e)"] f_arg_min_list_f [of ws "\<lambda>e. gf (wid_of e)"]
    by (metis (no_types, lifting) Min_le finite_imageI finite_set imageI)
  then have "e \<in> set (least_loaded gf ws)" by (simp add: least_loaded_def)
  then show ?thesis by auto
qed

lemma cheapest_filter:
  assumes "costs_ordered (f # fs)"
  shows "filter (\<lambda>e. f64_eq (cost_of e) (min_cost f fs)) (f # fs) =
    filter (\<lambda>e. \<forall>e' \<in> set (f # fs). \<not> f64_less (cost_of e') (cost_of e)) (f # fs)"
proof (rule filter_cong [OF refl])
  fix e assume e: "e \<in> set (f # fs)"
  obtain a where a: "a \<in> set (f # fs)" "cost_of a = min_cost f fs" using min_cost_attained by blast
  have nn: "cost_of e \<noteq> NaN" "cost_of a \<noteq> NaN" using assms e a by (auto simp: costs_ordered_def)
  show "f64_eq (cost_of e) (min_cost f fs) \<longleftrightarrow> (\<forall>e' \<in> set (f # fs). \<not> f64_less (cost_of e') (cost_of e))"
  proof
    assume "f64_eq (cost_of e) (min_cost f fs)"
    then have "cost_of e = min_cost f fs" by (simp add: f64_eq_def)
    then show "\<forall>e' \<in> set (f # fs). \<not> f64_less (cost_of e') (cost_of e)"
      using min_cost_least by simp
  next
    assume "\<forall>e' \<in> set (f # fs). \<not> f64_less (cost_of e') (cost_of e)"
    then have "\<not> f64_less (min_cost f fs) (cost_of e)" using a by metis
    moreover have "\<not> f64_less (cost_of e) (min_cost f fs)" using min_cost_least e by blast
    ultimately have "cost_of e = min_cost f fs" using f64_less_total nn a(2) by metis
    then show "f64_eq (cost_of e) (min_cost f fs)" using nn by (simp add: f64_eq_def)
  qed
qed

lemma cheapest_nonempty:
  assumes "costs_ordered (f # fs)"
  shows "filter (\<lambda>e. f64_eq (cost_of e) (min_cost f fs)) (f # fs) \<noteq> []"
proof -
  obtain a where a: "a \<in> set (f # fs)" "cost_of a = min_cost f fs" using min_cost_attained by blast
  then have "f64_eq (cost_of a) (min_cost f fs)"
    using assms by (auto simp: costs_ordered_def f64_eq_def)
  then show ?thesis using a(1) by (auto simp: filter_empty_conv)
qed

lemma costs_ordered_least_loaded: "costs_ordered ws \<Longrightarrow> costs_ordered (least_loaded gf ws)"
  by (auto simp: costs_ordered_def least_loaded_def)

lemma best_workers_nonempty:
  assumes "ws \<noteq> []" and "costs_ordered ws"
  shows "best_workers gf ws \<noteq> []"
proof -
  obtain f fs where "least_loaded gf ws = f # fs"
    using least_loaded_nonempty [OF assms(1)] by (metis neq_Nil_conv)
  moreover from this have "costs_ordered (f # fs)"
    using costs_ordered_least_loaded [OF assms(2), of gf] by simp
  ultimately show ?thesis
    unfolding best_workers_def using cheapest_nonempty cheapest_filter by simp
qed

lemma pickWorker_best:
  assumes "ws \<noteq> []" and "costs_ordered ws"
  shows "pickWorker ws c gf gf =
    (if length (least_loaded gf ws) = 1 then (Inr (hd (best_workers gf ws)), c)
     else (Inr (best_workers gf ws ! (unat (c + 1) mod length (best_workers gf ws))), c + 1))"
proof (cases "\<exists>w. ws = [w]")
  case True
  then obtain w where w: "ws = [w]" by blast
  then have "least_loaded gf ws = [w]" by (simp add: least_loaded_def)
  then show ?thesis by (simp add: w pickWorker_def best_workers_def)
next
  case False
  then obtain w u rest where ws: "ws = w # u # rest"
    using assms(1) by (metis neq_Nil_conv)
  have flight: "filter (\<lambda>e. gf (wid_of e) = min_flight gf w (u # rest)) ws = least_loaded gf ws"
    using least_loaded_filter ws by blast
  obtain f fs where ll: "least_loaded gf ws = f # fs"
    using least_loaded_nonempty [OF assms(1)] by (metis neq_Nil_conv)
  have ord: "costs_ordered (f # fs)" using costs_ordered_least_loaded [OF assms(2), of gf] ll by simp
  have best: "filter (\<lambda>e. f64_eq (cost_of e) (min_cost f fs)) (f # fs) = best_workers gf ws"
    using cheapest_filter [OF ord] ll by (simp add: best_workers_def)
  have ne: "best_workers gf ws \<noteq> []" using best_workers_nonempty assms by blast
  show ?thesis
  proof (cases fs)
    case Nil
    then have "hd (best_workers gf ws) = f" using ll by (simp add: best_workers_def)
    then show ?thesis using Nil ll flight by (simp add: ws pickWorker_def Let_def)
  next
    case (Cons g gs)
    have "pickWorker ws c gf gf =
       (Inr (best_workers gf ws ! (unat (c + 1) mod length (best_workers gf ws))), c + 1)"
      using flight ll best ne Cons ws unfolding pickWorker_def by (simp only: Let_def list.case if_False)
    then show ?thesis using ll Cons by simp
  qed
qed

section \<open>Round robin\<close>

lemma picks_unique_loaded:
  assumes "ws \<noteq> []" and "costs_ordered ws" and "length (least_loaded gf ws) = 1"
  shows "picks n ws c gf = replicate n (Inr (hd (best_workers gf ws)))"
  by (induction n arbitrary: c) (simp_all add: pickWorker_best [OF assms(1-2)] assms(3))

lemma picks_rotate:
  assumes "ws \<noteq> []" and "costs_ordered ws" and "length (least_loaded gf ws) \<noteq> 1"
    and "unat c + n < 2 ^ 64"
  shows "picks n ws c gf =
    map (\<lambda>i. Inr (best_workers gf ws ! (Suc (unat c + i) mod length (best_workers gf ws)))) [0..<n]"
  using assms(4)
proof (induction n arbitrary: c)
  case (Suc n)
  have c1: "unat (c + 1) = Suc (unat c)"
    using Suc.prems by (simp add: unat_word_ariths)
  have "picks n ws (c + 1) gf =
    map (\<lambda>i. Inr (best_workers gf ws ! (Suc (unat (c + 1) + i) mod length (best_workers gf ws)))) [0..<n]"
    using Suc.prems c1 by (intro Suc.IH) simp
  then show ?case
    using assms(3) by (simp add: pickWorker_best [OF assms(1-2)] c1 upt_conv_Cons map_Suc_upt [symmetric]
      comp_def del: upt_Suc)
qed simp

lemma mset_rotate: "mset (rotate n xs) = mset xs"
proof (induction n)
  case (Suc n)
  then show ?case by (cases "rotate n xs") auto
qed simp

lemma rotate_mset:
  assumes "xs \<noteq> []"
  shows "mset (map (\<lambda>i. xs ! (Suc (k + i) mod length xs)) [0..<length xs]) = mset xs"
proof -
  have "map (\<lambda>i. xs ! (Suc (k + i) mod length xs)) [0..<length xs] = rotate (Suc k) xs"
    using assms by (intro nth_equalityI) (simp_all add: nth_rotate ac_simps del: rotate_Suc)
  then show ?thesis by (metis mset_rotate)
qed

section \<open>Properties\<close>

text \<open>
  C10: The worker choice is correct. When both passes over the in-flight counters see the
  same counts and no candidate has a NaN cost, picking from a non-empty candidate list
  never panics; the chosen worker is a candidate with the fewest in-flight requests
  and, among those, the lowest cost per hour; and if several are equally good the
  shared counter decides among them in turn. The counter moves exactly when the
  load alone did not decide.
\<close>

theorem pickWorker_refines_best:
  assumes "ws \<noteq> []" and "costs_ordered ws"
  shows "pickWorker ws c gf gf =
      (if length (least_loaded gf ws) = 1 then (Inr (hd (best_workers gf ws)), c)
       else (Inr (best_workers gf ws ! (unat (c + 1) mod length (best_workers gf ws))), c + 1)) \<and>
    (\<exists>e \<in> set (best_workers gf ws). fst (pickWorker ws c gf gf) = Inr e \<and> e \<in> set ws \<and>
      (\<forall>e' \<in> set ws. gf (wid_of e) < gf (wid_of e') \<or>
         gf (wid_of e) = gf (wid_of e') \<and> \<not> f64_less (cost_of e') (cost_of e)))"
proof -
  have best: "e \<in> set ws \<and> (\<forall>e' \<in> set ws. gf (wid_of e) < gf (wid_of e') \<or>
      gf (wid_of e) = gf (wid_of e') \<and> \<not> f64_less (cost_of e') (cost_of e))"
    if "e \<in> set (best_workers gf ws)" for e
    using that by (fastforce simp: best_workers_def least_loaded_def)
  have "best_workers gf ws \<noteq> []" using best_workers_nonempty assms by blast
  then have "\<exists>e \<in> set (best_workers gf ws). fst (pickWorker ws c gf gf) = Inr e"
    by (auto simp: pickWorker_best [OF assms])
  then show ?thesis using best pickWorker_best [OF assms] by blast
qed

definition demo_candidate :: "string \<Rightarrow> rat \<Rightarrow> WorkerEntry" where
  "demo_candidate wid cost =
     \<lparr>Info = \<lparr>WorkerId = wid, Address = wid @ ''.local:9000'', GpuType = '''', VramBytes = 0,
              ModelsLoaded = [''m''], Backend = '''', Provider = '''', Hardware = '''',
              CostPerHour = Fin cost\<rparr>,
      State = READY, LastHeartbeat = 1, RegisteredAt = 1, Load = zero_load wid,
      DrainRequested = False, MarkedDeadAt = 0, deadlineTimer = 0\<rparr>"

theorem pickWorker_refines_best_witness:
  "pickWorker [demo_candidate ''a'' 2, demo_candidate ''b'' 1, demo_candidate ''c'' 1] 4 (\<lambda>_. 0) (\<lambda>_. 0) =
     (Inr (demo_candidate ''c'' 1), 5)"
proof -
  let ?ws = "[demo_candidate ''a'' 2, demo_candidate ''b'' 1, demo_candidate ''c'' 1]"
  have ne: "?ws \<noteq> []" by simp
  have ord: "costs_ordered ?ws" by (simp add: costs_ordered_def demo_candidate_def)
  have ll: "least_loaded (\<lambda>_. 0) ?ws = ?ws" by (simp add: least_loaded_def)
  have best: "best_workers (\<lambda>_. 0) ?ws = [demo_candidate ''b'' 1, demo_candidate ''c'' 1]"
    unfolding best_workers_def ll by (simp add: demo_candidate_def)
  have "unat (4 + 1 :: 64 word) mod length [demo_candidate ''b'' 1, demo_candidate ''c'' 1] = 1"
    by (simp flip: numeral_2_eq_2)
  then show ?thesis
    using pickWorker_refines_best [OF ne ord, of 4 "\<lambda>_. 0"] unfolding ll best
    by (simp only: nth_Cons_Suc nth_Cons_0 One_nat_def) simp
qed

text \<open>
  Ties are shared fairly. While the in-flight counts stay the same and the 64-bit
  counter does not wrap, as many consecutive picks as there are equally good workers
  choose each of them exactly once.
\<close>

theorem round_robin_fair:
  assumes "ws \<noteq> []" and "costs_ordered ws"
    and "unat c + length (best_workers gf ws) < 2 ^ 64"
  shows "mset (picks (length (best_workers gf ws)) ws c gf) = mset (map Inr (best_workers gf ws))"
proof (cases "length (least_loaded gf ws) = 1")
  case True
  moreover have "best_workers gf ws \<noteq> []" using best_workers_nonempty assms by blast
  moreover have "length (best_workers gf ws) \<le> length (least_loaded gf ws)"
    unfolding best_workers_def by (rule length_filter_le)
  ultimately have "best_workers gf ws = [hd (best_workers gf ws)]"
    by (cases "best_workers gf ws") auto
  then show ?thesis
    using picks_unique_loaded [OF assms(1-2) True] by (metis length_Cons list.map list.size(3) replicate_0 replicate_Suc)
next
  case False
  have ne: "best_workers gf ws \<noteq> []" using best_workers_nonempty assms by blast
  have "mset (picks (length (best_workers gf ws)) ws c gf) =
    image_mset Inr (mset (map (\<lambda>i. best_workers gf ws ! (Suc (unat c + i) mod length (best_workers gf ws)))
      [0..<length (best_workers gf ws)]))"
    using picks_rotate [OF assms(1-2) False assms(3)] by (simp add: image_mset.compositionality comp_def)
  then show ?thesis unfolding rotate_mset [OF ne] by simp
qed

theorem round_robin_fair_witness:
  "mset (picks 2 [demo_candidate ''a'' 1, demo_candidate ''b'' 1] 7 (\<lambda>_. 0)) =
     {#Inr (demo_candidate ''a'' 1), Inr (demo_candidate ''b'' 1)#}"
proof -
  let ?ws = "[demo_candidate ''a'' 1, demo_candidate ''b'' 1]"
  have ne: "?ws \<noteq> []" by simp
  have ord: "costs_ordered ?ws" by (simp add: costs_ordered_def demo_candidate_def)
  have ll: "least_loaded (\<lambda>_. 0) ?ws = ?ws" by (simp add: least_loaded_def)
  have best: "best_workers (\<lambda>_. 0) ?ws = ?ws"
    unfolding best_workers_def ll by (simp add: demo_candidate_def)
  have n: "length ?ws = 2" by simp
  have "unat (7 :: 64 word) + length (best_workers (\<lambda>_. 0) ?ws) < 2 ^ 64" by (simp add: best)
  from round_robin_fair [OF ne ord this] show ?thesis unfolding best n by simp
qed

text \<open>The running minimum of the costs is NaN exactly if the first is: nothing is less than NaN, nor NaN less than anything.\<close>

lemma min_cost_NaN: "min_cost f fs = NaN \<longleftrightarrow> cost_of f = NaN"
proof -
  let ?g = "\<lambda>e m. if f64_less (cost_of e) m then cost_of e else m"
  have nan: "\<not> f64_less x NaN" "\<not> f64_less NaN x" for x by (cases x; simp)+
  have "fold ?g fs m = NaN \<longleftrightarrow> m = NaN" for m
  proof (induction fs arbitrary: m)
    case (Cons e es)
    have "?g e m = NaN \<longleftrightarrow> m = NaN" using nan by (cases "cost_of e = NaN"; cases "m = NaN") auto
    then show ?case by (simp add: Cons)
  qed simp
  then show ?thesis by (simp add: min_cost_def)
qed

lemma no_cheapest: "filter (\<lambda>e. f64_eq (cost_of e) (min_cost f fs)) (f # fs) = [] \<longleftrightarrow> cost_of f = NaN"
proof
  assume "cost_of f = NaN"
  then show "filter (\<lambda>e. f64_eq (cost_of e) (min_cost f fs)) (f # fs) = []"
    using min_cost_NaN by (auto simp: f64_eq_def filter_empty_conv)
next
  assume none: "filter (\<lambda>e. f64_eq (cost_of e) (min_cost f fs)) (f # fs) = []"
  obtain a where a: "a \<in> set (f # fs)" "cost_of a = min_cost f fs" using min_cost_attained by blast
  with none have "\<not> f64_eq (cost_of a) (min_cost f fs)" by (metis filter_empty_conv)
  then show "cost_of f = NaN" using a(2) min_cost_NaN by (simp add: f64_eq_def)
qed

text \<open>
  C34: Where the worker choice panics, exactly. With two or more candidates let \<open>fl\<close> be those whose count in the second
  pass is the minimum of the counts of the first. The choice panics with an index out of
  range if and only if \<open>fl\<close> is empty; with a division by zero if and only if \<open>fl\<close> has two workers or more and the
  cost of the first of them is NaN (a NaN further on does no harm); and in no other
  way. Both happen: two idle workers that each receive a request between the two passes, and two idle
  workers of which the first registered with a NaN cost.
\<close>

theorem pickWorker_panics:
  "(fst (pickWorker (w # u # rest) c gf1 gf2) = Inl p \<longleftrightarrow>
      (let ws = w # u # rest;
           fl = filter (\<lambda>e. gf2 (wid_of e) = Min (set (map (\<lambda>e. gf1 (wid_of e)) ws))) ws
       in (p = IndexOutOfRange \<and> fl = []) \<or>
          (p = IntegerDivideByZero \<and> 2 \<le> length fl \<and> cost_of (hd fl) = NaN))) \<and>
   fst (pickWorker [demo_candidate ''a'' 1, demo_candidate ''b'' 1] 0 (\<lambda>_. 0) (\<lambda>_. 1)) = Inl IndexOutOfRange \<and>
   (let a = (demo_candidate ''a'' 1)\<lparr>Info := (Info (demo_candidate ''a'' 1))\<lparr>CostPerHour := NaN\<rparr>\<rparr>
    in fst (pickWorker [a, demo_candidate ''b'' 1] 0 (\<lambda>_. 0) (\<lambda>_. 0)) = Inl IntegerDivideByZero)"
proof (intro conjI)
  let ?ws = "w # u # rest"
  let ?fl = "filter (\<lambda>e. gf2 (wid_of e) = min_flight gf1 w (u # rest)) ?ws"
  have "fst (pickWorker ?ws c gf1 gf2) = Inl p \<longleftrightarrow>
    (p = IndexOutOfRange \<and> ?fl = []) \<or> (p = IntegerDivideByZero \<and> 2 \<le> length ?fl \<and> cost_of (hd ?fl) = NaN)"
  proof (cases ?fl rule: remdups_adj.cases)
    case (3 f g gs)
    show ?thesis using no_cheapest [of f "g # gs"] unfolding pickWorker_def 3 Let_def list.case by auto
  qed (unfold pickWorker_def Let_def list.case, auto)
  then show "fst (pickWorker ?ws c gf1 gf2) = Inl p \<longleftrightarrow>
      (let ws = ?ws; fl = filter (\<lambda>e. gf2 (wid_of e) = Min (set (map (\<lambda>e. gf1 (wid_of e)) ws))) ws
       in (p = IndexOutOfRange \<and> fl = []) \<or> (p = IntegerDivideByZero \<and> 2 \<le> length fl \<and> cost_of (hd fl) = NaN))"
    unfolding min_flight_Min Let_def .
qed (simp_all add: pickWorker_def demo_candidate_def min_flight_def min_cost_def f64_eq_def Let_def)

end
