(* ===== verification/Router_Failover.thy ===== *)
theory Router_Failover
  imports Router_Select
begin

text \<open>
  What one inference request does: the retry loop, the in-flight counters, the metrics
  hook and the response. The lemmas follow the loop attempt by attempt; the properties
  are about the whole handler, over any registry whose entries are stored under their id.
\<close>

section \<open>Counters\<close>

lemma counter64_simps:
  "snd (counter64 r wid) = r\<lparr>inFlight := (inFlight r)(wid \<mapsto> fst (counter64 r wid))\<rparr>"
  by (cases "inFlight r wid") (auto simp: counter64_def fun_upd_idem intro!: Router.equality)

lemma inc_eq: "inc r wid = r\<lparr>inFlight := (inFlight r)(wid \<mapsto> fst (counter64 r wid) + 1)\<rparr>"
  by (simp add: inc_def Let_def case_prod_beta counter64_simps)

lemma dec_eq: "dec r wid = r\<lparr>inFlight := (inFlight r)(wid \<mapsto> fst (counter64 r wid) - 1)\<rparr>"
  by (simp add: dec_def Let_def case_prod_beta counter64_simps)

lemma counters_frame [simp]:
  "counter (inc r wid) = counter r" "hasHook (inc r wid) = hasHook r" "hookCalls (inc r wid) = hookCalls r"
  "counter (dec r wid) = counter r" "hasHook (dec r wid) = hasHook r" "hookCalls (dec r wid) = hookCalls r"
  by (simp_all add: inc_eq dec_eq)

text \<open>Raising and lowering a counter leaves every count as it was, even across a wrap.\<close>

lemma getInFlight_dec_inc [simp]: "getInFlight (dec (inc r wid) wid) = getInFlight r"
  by (rule ext) (auto simp: getInFlight_def inc_eq dec_eq counter64_def split: option.splits)

lemma getInFlight_frame [simp]:
  "getInFlight (r\<lparr>counter := c\<rparr>) = getInFlight r"
  "getInFlight (call_hook r m x) = getInFlight r"
  by (rule ext, simp add: getInFlight_def call_hook_def)+

lemma call_hook_simps [simp]:
  "hasHook (call_hook r m x) = hasHook r"
  "hookCalls (call_hook r m x) = hookCalls r @ (if hasHook r then [(m, x)] else [])"
  by (simp_all add: call_hook_def)

section \<open>One attempt\<close>

lemma pickWorker_member:
  assumes "pickWorker ws c gf1 gf2 = (Inr e, c')"
  shows "e \<in> set ws"
proof (cases ws rule: remdups_adj.cases)
  case (3 w u rest)
  let ?fl = "filter (\<lambda>e. gf2 (wid_of e) = min_flight gf1 w (u # rest)) ws"
  have sub: "set ?fl \<subseteq> set ws" by (rule filter_is_subset)
  show ?thesis
  proof (cases ?fl rule: remdups_adj.cases)
    case 1
    then show ?thesis using assms 3 by (simp add: pickWorker_def)
  next
    case (2 f)
    then have "e = f" using assms 3 by (simp add: pickWorker_def Let_def)
    then show ?thesis using 2 sub by simp
  next
    case (3 f g gs)
    let ?ch = "filter (\<lambda>e. f64_eq (cost_of e) (min_cost f (g # gs))) ?fl"
    have "?ch \<noteq> [] \<and> e = ?ch ! (unat (c + 1) mod length ?ch)"
      using assms 3 \<open>ws = w # u # rest\<close> by (simp add: pickWorker_def Let_def split: if_splits)
    then have "e \<in> set ?ch" by (metis length_greater_0_conv mod_less_divisor nth_mem)
    then show ?thesis using sub by simp
  qed
qed (use assms in \<open>simp_all add: pickWorker_def\<close>)

text \<open>What the HTTP call of an attempt must give for the attempt to be retried.\<close>

definition failed :: "do_result \<Rightarrow> bool" where
  "failed res \<longleftrightarrow> res = BuildError \<or> res = Unreachable"

definition relay :: "upstream_response \<Rightarrow> response \<Rightarrow> response" where
  "relay up w = fold write_body (us_chunks up) (commit_status (us_status up) (set_header ''Content-Type'' (us_ctype up) w))"

lemma proxy_failed: "failed res \<Longrightarrow> proxy w res = Inr (True, True, w)"
  by (auto simp: failed_def proxy_def)

lemma proxy_got:
  "proxy w (Got up) =
     (if us_status up < 100 \<or> 999 < us_status up then Inl InvalidWriteHeaderCode
      else Inr (False, us_broken up, relay up w))"
  by (simp add: proxy_def WriteHeader_def relay_def)

lemma not_failed: "\<not> failed res \<Longrightarrow> \<exists>up. res = Got up"
  by (cases res) (auto simp: failed_def)

abbreviation target_of :: "http_request \<Rightarrow> WorkerEntry \<Rightarrow> string" where
  "target_of req e \<equiv> ''http://'' @ Address (Info e) @ Path req"

abbreviation sent_by :: "http_request \<Rightarrow> bytes \<Rightarrow> WorkerEntry \<Rightarrow> do_result \<Rightarrow> outgoing list" where
  "sent_by req body e res \<equiv> (if res = BuildError then [] else [proxy_request req (target_of req e) body])"

text \<open>
  The loop after one attempt: it gives up, panics in the choice or while writing the
  status, relays what the worker answered, or goes on without the worker it tried.
\<close>

lemma route_attempts_Suc:
  obtains (none) "filter (\<lambda>e. wid_of e \<notin> set tried) ws = []"
      "route_attempts reads net req body model ws (Suc n) a tried sent r w =
        route_attempts reads net req body model ws 0 a tried sent r w"
  | (panic) p where "rr_panic (route_attempts reads net req body model ws (Suc n) a tried sent r w) = Some p"
  | (answer) e c up where "e \<in> set ws" "wid_of e \<notin> set tried" "net a (target_of req e) = Got up"
      "us_status up \<ge> 100" "us_status up \<le> 999"
      "route_attempts reads net req body model ws (Suc n) a tried sent r w =
        \<lparr>rr_panic = None,
         rr_router = call_hook (dec (inc (r\<lparr>counter := c\<rparr>) (wid_of e)) (wid_of e)) model
           (if us_broken up then ''error'' else ''success''),
         rr_response = relay up w,
         rr_sent = sent @ sent_by req body e (Got up), rr_tried = tried @ [wid_of e]\<rparr>"
  | (retry) e c where "e \<in> set ws" "wid_of e \<notin> set tried" "failed (net a (target_of req e))"
      "route_attempts reads net req body model ws (Suc n) a tried sent r w =
        route_attempts reads net req body model ws n (Suc a) (tried @ [wid_of e])
          (sent @ sent_by req body e (net a (target_of req e)))
          (dec (inc (r\<lparr>counter := c\<rparr>) (wid_of e)) (wid_of e)) w"
proof -
  let ?cs = "filter (\<lambda>e. wid_of e \<notin> set tried) ws"
  let ?R = "route_attempts reads net req body model ws (Suc n) a tried sent r w"
  let ?pick = "pickWorker ?cs (counter r) (fst (reads a)) (snd (reads a))"
  note thesis_rules = that
  show thesis
  proof (cases "?cs = []")
    case True
    then show thesis by (intro thesis_rules(1)) simp_all
  next
    case False
    obtain q c where pick: "?pick = (q, c)" by fastforce
    show thesis
    proof (cases q)
      case (Inl p)
      then show thesis using False pick by (intro thesis_rules(2) [of p]) simp
    next
      case (Inr e)
      have "e \<in> set ?cs" using pickWorker_member pick Inr by blast
      then have e: "e \<in> set ws" "wid_of e \<notin> set tried" by simp_all
      show thesis
      proof (cases "failed (net a (target_of req e))")
        case fail: True
        show thesis
          by (rule thesis_rules(4) [OF e fail, of c])
            (use False pick Inr proxy_failed [OF fail] in \<open>simp add: Let_def\<close>)
      next
        case nfail: False
        then obtain up where up: "net a (target_of req e) = Got up" using not_failed by blast
        show thesis
        proof (cases "us_status up < 100 \<or> 999 < us_status up")
          case True
          then show thesis using False pick Inr up
            by (intro thesis_rules(2) [of InvalidWriteHeaderCode]) (simp add: Let_def proxy_got)
        next
          case ok: False
          show thesis
            by (rule thesis_rules(3) [OF e up, where c = c])
              (use False pick Inr up ok in \<open>auto simp: Let_def proxy_got\<close>)
        qed
      qed
    qed
  qed
qed

declare route_attempts.simps(2) [simp del]

section \<open>The loop\<close>

text \<open>
  The specification of failover, over the ids tried in order: every attempt failed before
  a response came, or all but the last did and the last one was answered.
\<close>

fun all_failed :: "(nat \<Rightarrow> string \<Rightarrow> do_result) \<Rightarrow> (string \<Rightarrow> string) \<Rightarrow> nat \<Rightarrow> string list \<Rightarrow> bool" where
  "all_failed net tgt a [] \<longleftrightarrow> True"
| "all_failed net tgt a (wid # ids) \<longleftrightarrow> failed (net a (tgt wid)) \<and> all_failed net tgt (Suc a) ids"

fun answered ::
  "(nat \<Rightarrow> string \<Rightarrow> do_result) \<Rightarrow> (string \<Rightarrow> string) \<Rightarrow> nat \<Rightarrow> string list \<Rightarrow> upstream_response \<Rightarrow> bool" where
  "answered net tgt a [] up \<longleftrightarrow> False"
| "answered net tgt a (wid # ids) up \<longleftrightarrow>
     (if ids = [] then net a (tgt wid) = Got up
      else failed (net a (tgt wid)) \<and> answered net tgt (Suc a) ids up)"

definition gave_up :: "response \<Rightarrow> response" where
  "gave_up w = http_Error ''all workers failed or unavailable'' 502 w"

text \<open>
  What a finished loop guarantees, relative to the state it started in: \<open>ids\<close> are the
  workers it tried, none of them tried before.
\<close>

definition loop_outcome ::
  "(nat \<Rightarrow> string \<Rightarrow> do_result) \<Rightarrow> (string \<Rightarrow> string) \<Rightarrow> string \<Rightarrow> string set \<Rightarrow> nat \<Rightarrow> nat \<Rightarrow>
     string list \<Rightarrow> string list \<Rightarrow> Router \<Rightarrow> response \<Rightarrow> route_result \<Rightarrow> bool" where
  "loop_outcome net tgt model known n a tried ids r w R \<longleftrightarrow>
     rr_tried R = tried @ ids \<and> distinct ids \<and> set ids \<subseteq> known - set tried \<and> length ids \<le> n \<and>
     getInFlight (rr_router R) = getInFlight r \<and>
     (all_failed net tgt a ids \<and> (length ids = n \<or> known \<subseteq> set tried \<union> set ids) \<and>
        rr_response R = gave_up w \<and>
        hookCalls (rr_router R) = hookCalls r @ (if hasHook r then [(model, ''error'')] else []) \<or>
      (\<exists>up. answered net tgt a ids up \<and> 100 \<le> us_status up \<and> us_status up \<le> 999 \<and>
        rr_response R = relay up w \<and>
        hookCalls (rr_router R) =
          hookCalls r @ (if hasHook r then [(model, if us_broken up then ''error'' else ''success'')] else [])))"

lemma loop_outcomeD:
  assumes "loop_outcome net tgt model known n a tried ids r w R"
  shows "rr_tried R = tried @ ids" "distinct ids" "set ids \<subseteq> known - set tried" "length ids \<le> n"
    "getInFlight (rr_router R) = getInFlight r"
  using assms by (simp_all add: loop_outcome_def)

lemma loop_outcomeE:
  assumes "loop_outcome net tgt model known n a tried ids r w R"
  obtains (exhausted) "all_failed net tgt a ids" "length ids = n \<or> known \<subseteq> set tried \<union> set ids"
      "rr_response R = gave_up w"
      "hookCalls (rr_router R) = hookCalls r @ (if hasHook r then [(model, ''error'')] else [])"
  | (relayed) up where "answered net tgt a ids up" "100 \<le> us_status up" "us_status up \<le> 999"
      "rr_response R = relay up w"
      "hookCalls (rr_router R) =
        hookCalls r @ (if hasHook r then [(model, if us_broken up then ''error'' else ''success'')] else [])"
  using assms unfolding loop_outcome_def by blast

lemma loop_outcome_stop:
  assumes "n = 0 \<or> known \<subseteq> set tried"
  shows "loop_outcome net tgt model known n a tried [] r w
    (route_attempts reads net req body model ws 0 a tried sent r w)"
  using assms by (auto simp: loop_outcome_def gave_up_def)

lemma loop_outcome_retry:
  assumes "loop_outcome net tgt model known n (Suc a) (tried @ [wid]) ids r2 w R"
    and "wid \<in> known" and "wid \<notin> set tried" and "failed (net a (tgt wid))"
    and "getInFlight r2 = getInFlight r" and "hasHook r2 = hasHook r" and "hookCalls r2 = hookCalls r"
  shows "loop_outcome net tgt model known (Suc n) a tried (wid # ids) r w R"
proof -
  have "answered net tgt a (wid # ids) up" if "answered net tgt (Suc a) ids up" for up
    using that assms(4) by (cases ids) auto
  then show ?thesis using assms unfolding loop_outcome_def by auto
qed

lemma loop_outcome_answer:
  assumes "wid \<in> known" and "wid \<notin> set tried" and "net a (tgt wid) = Got up"
    and "100 \<le> us_status up" and "us_status up \<le> 999"
    and "getInFlight r2 = getInFlight r" and "hasHook r2 = hasHook r" and "hookCalls r2 = hookCalls r"
  shows "loop_outcome net tgt model known (Suc n) a tried [wid] r w
    \<lparr>rr_panic = None, rr_router = call_hook r2 model (if us_broken up then ''error'' else ''success''),
     rr_response = relay up w, rr_sent = sent, rr_tried = tried @ [wid]\<rparr>"
  using assms by (auto simp: loop_outcome_def)

lemma route_attempts_outcome:
  assumes "rr_panic (route_attempts reads net req body model ws n a tried sent r w) = None"
    and "\<And>e. e \<in> set ws \<Longrightarrow> tgt (wid_of e) = target_of req e"
  shows "\<exists>ids. loop_outcome net tgt model (wid_of ` set ws) n a tried ids r w
    (route_attempts reads net req body model ws n a tried sent r w)"
  using assms(1)
proof (induction n arbitrary: a tried sent r)
  case 0
  then show ?case using loop_outcome_stop by blast
next
  case (Suc n)
  let ?R = "route_attempts reads net req body model ws (Suc n) a tried sent r w"
  let ?r2 = "\<lambda>c e. dec (inc (r\<lparr>counter := c\<rparr>) (wid_of e)) (wid_of e)"
  show ?case
  proof (cases rule: route_attempts_Suc [of tried ws reads net req body model n a sent r w])
    case none
    have "wid_of ` set ws \<subseteq> set tried" using none(1) by (auto simp: filter_empty_conv)
    then have "loop_outcome net tgt model (wid_of ` set ws) (Suc n) a tried [] r w ?R"
      unfolding none(2) by (intro loop_outcome_stop disjI2)
    then show ?thesis by (rule exI)
  next
    case (panic p)
    then show ?thesis using Suc.prems by simp
  next
    case (answer e c up)
    have net: "net a (tgt (wid_of e)) = Got up" using answer(1,3) assms(2) by simp
    show ?thesis unfolding answer(6)
      by (rule exI [of _ "[wid_of e]"], rule loop_outcome_answer) (simp_all add: answer(1-5) net)
  next
    case (retry e c)
    obtain ids where "loop_outcome net tgt model (wid_of ` set ws) n (Suc a) (tried @ [wid_of e]) ids (?r2 c e) w ?R"
      using Suc.IH Suc.prems unfolding retry(4) by blast
    moreover have "failed (net a (tgt (wid_of e)))" using retry assms(2) by simp
    ultimately have "loop_outcome net tgt model (wid_of ` set ws) (Suc n) a tried (wid_of e # ids) r w ?R"
      using retry(1,2) by (intro loop_outcome_retry [where ?r2.0 = "?r2 c e"]) simp_all
    then show ?thesis by blast
  qed
qed

text \<open>What is sent to the workers is the client's request with its body unchanged.\<close>

lemma route_attempts_sent:
  assumes "rr_panic (route_attempts reads net req body model ws n a tried sent r w) = None"
    and "\<forall>og \<in> set sent. \<exists>e \<in> set ws. og = proxy_request req (target_of req e) body"
  shows "\<forall>og \<in> set (rr_sent (route_attempts reads net req body model ws n a tried sent r w)).
    \<exists>e \<in> set ws. og = proxy_request req (target_of req e) body"
  using assms
proof (induction n arbitrary: a tried sent r)
  case (Suc n)
  show ?case
  proof (cases rule: route_attempts_Suc [of tried ws reads net req body model n a sent r w])
    case none
    then show ?thesis using Suc.prems(2) by simp
  next
    case (panic p)
    then show ?thesis using Suc.prems by simp
  next
    case (answer e c up)
    then show ?thesis using Suc.prems(2) by auto
  next
    case (retry e c)
    show ?thesis unfolding retry(4)
      by (rule Suc.IH) (use retry Suc.prems in auto)
  qed
qed simp

section \<open>The handler\<close>

definition worker_target :: "Registry \<Rightarrow> http_request \<Rightarrow> string \<Rightarrow> string" where
  "worker_target rg req wid = (case workers rg wid of None \<Rightarrow> '''' | Some e \<Rightarrow> target_of req e)"

definition routable :: "(bytes \<Rightarrow> json option) \<Rightarrow> http_request \<Rightarrow> string \<Rightarrow> bool" where
  "routable parse req model \<longleftrightarrow>
     Method req = ''POST'' \<and> model \<noteq> '''' \<and>
     (\<exists>body. Body req = Some body \<and> Option.bind (parse body) (unmarshal_string_field ''model'') = Some model)"

lemma handleInference_routable:
  assumes "routable parse req model"
  shows "handleInference parse reads net rg ks r req =
    (let ws = HealthyWorkersForModel rg ks model
     in if ws = [] then reject r new_response (''no healthy workers available for model '' @ quoted model) 503
        else route_attempts reads net req (the (Body req)) model ws (min (length ws) 3) 1 [] [] r new_response)"
  using assms unfolding routable_def handleInference_def by (auto simp: Let_def)

lemma handleInference_rejects:
  assumes "\<nexists>model. routable parse req model"
  shows "rr_panic (handleInference parse reads net rg ks r req) = None \<and>
    rr_router (handleInference parse reads net rg ks r req) = r \<and>
    rr_sent (handleInference parse reads net rg ks r req) = [] \<and>
    rstatus (rr_response (handleInference parse reads net rg ks r req)) \<in> {Some 400, Some 405}"
  using assms unfolding routable_def handleInference_def
  by (auto simp: Let_def reject_def split: option.splits)

lemma healthy_target:
  assumes "keyed_registry rg" and "range_order (workers rg) ks" and "e \<in> set (HealthyWorkersForModel rg ks model)"
  shows "worker_target rg req (wid_of e) = target_of req e"
  using regdir.healthy_registered [OF assms] by (simp add: worker_target_def)

lemma relay_status:
  assumes "200 \<le> us_status up \<or> us_status up = 101" and "rstatus w = None"
  shows "rstatus (relay up w) = Some (us_status up)"
proof -
  have "rstatus (fold write_body bs v) = Some c" if "rstatus v = Some c" for bs v c
    using that by (induction bs arbitrary: v) simp_all
  then show ?thesis using assms by (auto simp: relay_def commit_status_def)
qed

lemma relay_body: "rbody (relay up w) = rbody w @ us_chunks up"
proof -
  have "rbody (fold write_body bs v) = rbody v @ bs" for bs v
    by (induction bs arbitrary: v) simp_all
  then show ?thesis by (simp add: relay_def)
qed

lemma loop_outcome_all_tried:
  assumes "loop_outcome net tgt model (wid_of ` set ws) (min (length ws) 3) a [] ids r w R"
    and "distinct (map wid_of ws)" and "length ids \<noteq> min (length ws) 3"
  shows "\<not> (wid_of ` set ws \<subseteq> set ids)"
proof
  assume "wid_of ` set ws \<subseteq> set ids"
  then have "card (wid_of ` set ws) \<le> card (set ids)" by (simp add: card_mono)
  moreover have "card (wid_of ` set ws) = length ws"
    using distinct_card [OF assms(2)] by simp
  moreover have "card (set ids) \<le> length ids" by (rule card_length)
  moreover have "length ids \<le> min (length ws) 3" using assms(1) by (simp add: loop_outcome_def)
  ultimately show False using assms(3) by simp
qed

text \<open>
  When the choice cannot panic: the two passes read the same counts at every attempt and
  no healthy worker has a NaN cost. When the proxy cannot: every response has a final
  status, which \<^verbatim>\<open>WriteHeader\<close> accepts and commits.
\<close>

definition stable_reads :: "(nat \<Rightarrow> (string \<Rightarrow> int) \<times> (string \<Rightarrow> int)) \<Rightarrow> bool" where
  "stable_reads reads \<longleftrightarrow> (\<forall>a. fst (reads a) = snd (reads a))"

definition final_statuses :: "(nat \<Rightarrow> string \<Rightarrow> do_result) \<Rightarrow> bool" where
  "final_statuses net \<longleftrightarrow>
     (\<forall>a target. case net a target of Got up \<Rightarrow> 200 \<le> us_status up \<and> us_status up \<le> 999 | _ \<Rightarrow> True)"

lemma proxy_no_panic: "final_statuses net \<Longrightarrow> \<exists>v. proxy w (net a target) = Inr v"
  unfolding final_statuses_def
  by (drule spec [of _ a], drule spec [of _ target], cases "net a target") (auto simp: proxy_got proxy_failed failed_def)

lemma pickWorker_no_panic:
  assumes "ws \<noteq> []" and "costs_ordered ws"
  shows "\<exists>e c'. pickWorker ws c gf gf = (Inr e, c')"
  by (simp add: pickWorker_best [OF assms])

lemma route_attempts_no_panic:
  assumes "stable_reads reads" and "final_statuses net" and "costs_ordered ws"
  shows "rr_panic (route_attempts reads net req body model ws n a tried sent r w) = None"
proof (induction n arbitrary: a tried sent r w)
  case (Suc n)
  let ?cs = "filter (\<lambda>e. wid_of e \<notin> set tried) ws"
  have eq: "snd (reads a) = fst (reads a)" using assms(1) by (simp add: stable_reads_def)
  have ord: "costs_ordered ?cs" using assms(3) by (auto simp: costs_ordered_def)
  show ?case
  proof (cases "?cs = []")
    case False
    obtain e c' where pick: "pickWorker ?cs (counter r) (fst (reads a)) (fst (reads a)) = (Inr e, c')"
      using pickWorker_no_panic [OF False ord] by blast
    obtain retryable err w' where "proxy w (net a (target_of req e)) = Inr (retryable, err, w')"
      using proxy_no_panic [OF assms(2)] by (metis prod_cases3)
    then show ?thesis using False pick eq Suc.IH by (simp add: route_attempts.simps(2) Let_def)
  qed (simp add: route_attempts.simps(2))
qed simp

lemma relay_ctype: "rhdr (relay up w) ''Content-Type'' = Some (us_ctype up)"
proof -
  have "rhdr (fold write_body bs v) = rhdr v" for bs v by (induction bs arbitrary: v) simp_all
  then show ?thesis by (simp add: relay_def)
qed

lemma all_failed_not_answered: "all_failed net tgt a ids \<Longrightarrow> \<not> answered net tgt a ids up"
  by (induction net tgt a ids rule: all_failed.induct) (auto simp: failed_def)

lemma answered_unique: "answered net tgt a ids up \<Longrightarrow> answered net tgt a ids up' \<Longrightarrow> up' = up"
  by (induction net tgt a ids rule: all_failed.induct) (auto split: if_splits)

lemma loop_outcome_hook:
  assumes "loop_outcome net tgt model known n a tried ids r w R"
  shows "\<exists>result. hookCalls (rr_router R) = hookCalls r @ (if hasHook r then [(model, result)] else []) \<and>
    (result = ''success'' \<longleftrightarrow> (\<exists>up. answered net tgt a ids up \<and> \<not> us_broken up))"
  using assms
proof (cases rule: loop_outcomeE)
  case exhausted
  then show ?thesis using all_failed_not_answered [OF exhausted(1)] by (intro exI [of _ "''error''"]) simp
next
  case (relayed up)
  have "(\<exists>up. answered net tgt a ids up \<and> \<not> us_broken up) \<longleftrightarrow> \<not> us_broken up"
    using relayed(1) answered_unique by blast
  then show ?thesis using relayed(5)
    by (intro exI [of _ "if us_broken up then ''error'' else ''success''"]) simp
qed

text \<open>The whole handler, for a request it routes.\<close>

lemma handleInference_outcome:
  assumes "keyed_registry rg" and "range_order (workers rg) ks" and "routable parse req model"
    and "HealthyWorkersForModel rg ks model \<noteq> []"
    and "R = handleInference parse reads net rg ks r req" and "rr_panic R = None"
  shows "loop_outcome net (worker_target rg req) model (wid_of ` set (HealthyWorkersForModel rg ks model))
      (min (length (HealthyWorkersForModel rg ks model)) 3) 1 [] (rr_tried R) r new_response R"
    and "\<forall>og \<in> set (rr_sent R). og_method og = Method req \<and> Some (og_body og) = Body req"
proof -
  let ?ws = "HealthyWorkersForModel rg ks model"
  have R: "R = route_attempts reads net req (the (Body req)) model ?ws (min (length ?ws) 3) 1 [] [] r new_response"
    using assms(4,5) handleInference_routable [OF assms(3)] by (simp add: Let_def)
  have tgt: "worker_target rg req (wid_of e) = target_of req e" if "e \<in> set ?ws" for e
    using healthy_target [OF assms(1,2) that] .
  from route_attempts_outcome [OF assms(6) [unfolded R], of "worker_target rg req"] tgt
  obtain ids where "loop_outcome net (worker_target rg req) model (wid_of ` set ?ws) (min (length ?ws) 3) 1 [] ids r new_response R"
    unfolding R by blast
  moreover from this have "rr_tried R = ids" by (simp add: loop_outcome_def)
  ultimately show "loop_outcome net (worker_target rg req) model (wid_of ` set ?ws)
      (min (length ?ws) 3) 1 [] (rr_tried R) r new_response R" by simp
  have body: "Body req = Some (the (Body req))" using assms(3) by (auto simp: routable_def)
  have "\<forall>og \<in> set (rr_sent R). \<exists>e \<in> set ?ws. og = proxy_request req (target_of req e) (the (Body req))"
    unfolding R by (rule route_attempts_sent [OF assms(6) [unfolded R]]) simp
  then show "\<forall>og \<in> set (rr_sent R). og_method og = Method req \<and> Some (og_body og) = Body req"
    using body by (auto simp: proxy_request_def)
qed

lemma route_attempts_status:
  assumes "final_statuses net"
    and "rr_panic (route_attempts reads net req body model ws n a tried sent r w) = None" and "rstatus w = None"
  shows "rstatus (rr_response (route_attempts reads net req body model ws n a tried sent r w)) \<noteq> None"
  using assms(2,3)
proof (induction n arbitrary: a tried sent r)
  case (Suc n)
  show ?case
  proof (cases rule: route_attempts_Suc [of tried ws reads net req body model n a sent r w])
    case none
    then show ?thesis using Suc.prems(2) by simp
  next
    case (panic p)
    then show ?thesis using Suc.prems by simp
  next
    case (answer e c up)
    have "200 \<le> us_status up"
      using assms(1) answer(3) unfolding final_statuses_def by (metis do_result.simps(10))
    then show ?thesis unfolding answer(6) using Suc.prems(2) by (simp add: relay_status)
  next
    case (retry e c)
    then show ?thesis using Suc by simp
  qed
qed simp

section \<open>Properties\<close>

text \<open>
  C7: Failover. A valid request for a model that has healthy workers is sent to distinct
  workers only, at most three, each of them registered, healthy and serving the model,
  and always with the client's method and body unchanged. The next worker is tried exactly
  when no response came from the one before. Either the last one tried answered and
  its status and body are what the client gets, or every worker tried was unreachable;
  then the handler had tried three workers, or all of them if there are fewer,
  and the client gets a 502.
\<close>

theorem failover_correct:
  assumes "keyed_registry rg" and "range_order (workers rg) ks" and "routable parse req model"
    and "HealthyWorkersForModel rg ks model \<noteq> []"
    and "R = handleInference parse reads net rg ks r req" and "rr_panic R = None"
  shows "distinct (rr_tried R) \<and> length (rr_tried R) \<le> 3 \<and>
    (\<forall>wid \<in> set (rr_tried R). \<exists>e. workers rg wid = Some e \<and> healthy_state (State e) \<and> model \<in> set (ModelsLoaded (Info e))) \<and>
    (\<forall>og \<in> set (rr_sent R). og_method og = Method req \<and> Some (og_body og) = Body req) \<and>
    (all_failed net (worker_target rg req) 1 (rr_tried R) \<and>
       length (rr_tried R) = min (length (HealthyWorkersForModel rg ks model)) 3 \<and>
       rstatus (rr_response R) = Some 502 \<or>
     (\<exists>up. answered net (worker_target rg req) 1 (rr_tried R) up \<and>
       (200 \<le> us_status up \<longrightarrow> rstatus (rr_response R) = Some (us_status up)) \<and>
       rhdr (rr_response R) ''Content-Type'' = Some (us_ctype up) \<and>
       rbody (rr_response R) = us_chunks up))"
proof -
  let ?ws = "HealthyWorkersForModel rg ks model"
  note out = handleInference_outcome(1) [OF assms]
  have known: "\<exists>e. workers rg wid = Some e \<and> healthy_state (State e) \<and> model \<in> set (ModelsLoaded (Info e))"
    if tried: "wid \<in> set (rr_tried R)" for wid
  proof -
    obtain e where "e \<in> set ?ws" "wid = wid_of e" using tried loop_outcomeD(3) [OF out] by auto
    then show ?thesis using regdir.healthy_registered [OF assms(1,2)] by blast
  qed
  have three: "length (rr_tried R) \<le> 3" using loop_outcomeD(4) [OF out] by simp
  have "all_failed net (worker_target rg req) 1 (rr_tried R) \<and>
       length (rr_tried R) = min (length ?ws) 3 \<and> rstatus (rr_response R) = Some 502 \<or>
     (\<exists>up. answered net (worker_target rg req) 1 (rr_tried R) up \<and>
       (200 \<le> us_status up \<longrightarrow> rstatus (rr_response R) = Some (us_status up)) \<and>
       rhdr (rr_response R) ''Content-Type'' = Some (us_ctype up) \<and> rbody (rr_response R) = us_chunks up)"
    using out
  proof (cases rule: loop_outcomeE)
    case exhausted
    then have "length (rr_tried R) = min (length ?ws) 3"
      using loop_outcome_all_tried [OF out regdir.healthy_distinct [OF assms(1,2)]] by auto
    then show ?thesis using exhausted(1,3) by (simp add: gave_up_def)
  next
    case (relayed up)
    then show ?thesis using relay_ctype [of up new_response]
      by (intro disjI2 exI [of _ up]) (simp add: relay_status relay_body)
  qed
  then show ?thesis
    using known three loop_outcomeD(2) [OF out] handleInference_outcome(2) [OF assms] by blast
qed

text \<open>
  Accounting. Whatever the request and whatever the workers answer, a request that
  ends without a panic leaves every in-flight count as it found it, and the metrics
  hook is called exactly once if the request reached the routing loop, with
  \<open>success\<close> only if a worker's response was relayed in full, and not at all
  if it was rejected before.
\<close>

theorem request_accounting:
  assumes "keyed_registry rg" and "range_order (workers rg) ks"
    and "R = handleInference parse reads net rg ks r req" and "rr_panic R = None"
  shows "getInFlight (rr_router R) = getInFlight r \<and>
    (\<exists>calls. hookCalls (rr_router R) = hookCalls r @ calls \<and>
      (if \<exists>model. routable parse req model \<and> HealthyWorkersForModel rg ks model \<noteq> []
       then hasHook r \<longrightarrow> (\<exists>model result. calls = [(model, result)] \<and> routable parse req model \<and>
              (result = ''success'' \<longleftrightarrow>
                 (\<exists>up. answered net (worker_target rg req) 1 (rr_tried R) up \<and> \<not> us_broken up)))
       else calls = [] \<and> rr_sent R = []))"
proof (cases "\<exists>model. routable parse req model")
  case False
  then show ?thesis using handleInference_rejects [OF False, of reads net rg ks r] assms(3) by auto
next
  case True
  then obtain model where model: "routable parse req model" by blast
  have uniq: "routable parse req m \<Longrightarrow> m = model" for m using model by (auto simp: routable_def)
  let ?ws = "HealthyWorkersForModel rg ks model"
  have R: "R = (if ?ws = [] then reject r new_response (''no healthy workers available for model '' @ quoted model) 503
        else route_attempts reads net req (the (Body req)) model ?ws (min (length ?ws) 3) 1 [] [] r new_response)"
    using handleInference_routable [OF model] assms(3) by (simp add: Let_def)
  show ?thesis
  proof (cases "?ws = []")
    case True
    then show ?thesis using R uniq by (auto simp: reject_def)
  next
    case False
    have out: "loop_outcome net (worker_target rg req) model (wid_of ` set ?ws)
      (min (length ?ws) 3) 1 [] (rr_tried R) r new_response R"
      using handleInference_outcome(1) [OF assms(1,2) model False assms(3,4)] .
    from loop_outcome_hook [OF out] obtain result where
      "hookCalls (rr_router R) = hookCalls r @ (if hasHook r then [(model, result)] else [])"
      "result = ''success'' \<longleftrightarrow> (\<exists>up. answered net (worker_target rg req) 1 (rr_tried R) up \<and> \<not> us_broken up)"
      by blast
    moreover have "\<exists>model. routable parse req model \<and> HealthyWorkersForModel rg ks model \<noteq> []"
      using model False by blast
    ultimately show ?thesis using loop_outcomeD(5) [OF out] model
      by (intro conjI exI [of _ "if hasHook r then [(model, result)] else []"]) (assumption, assumption, simp)
  qed
qed

definition demo_pair :: Registry where
  "demo_pair = (New 10)\<lparr>workers := [''a'' \<mapsto> demo_candidate ''a'' 1, ''b'' \<mapsto> demo_candidate ''b'' 2]\<rparr>"

definition demo_request :: http_request where
  "demo_request = \<lparr>Method = ''POST'', Path = ''/v1/chat/completions'', Header = Map.empty, Body = Some ''body''\<rparr>"

definition demo_parse :: "bytes \<Rightarrow> json option" where
  "demo_parse b = Some (JObj [(''model'', JStr ''m'')])"

definition demo_answer :: "int \<Rightarrow> upstream_response" where
  "demo_answer code = \<lparr>us_status = code, us_ctype = ''application/json'', us_chunks = [''hi''], us_broken = False\<rparr>"

definition demo_net :: "nat \<Rightarrow> string \<Rightarrow> do_result" where
  "demo_net a target = (if a = 1 then Unreachable else Got (demo_answer 200))"

abbreviation demo_reads :: "nat \<Rightarrow> (string \<Rightarrow> int) \<times> (string \<Rightarrow> int)" where
  "demo_reads \<equiv> \<lambda>_. (\<lambda>_. 0, \<lambda>_. 0)"

lemma demo_pair_ok:
  "keyed_registry demo_pair" "range_order (workers demo_pair) [''a'', ''b'']"
  "routable demo_parse demo_request ''m''" "stable_reads demo_reads" "final_statuses demo_net"
  "HealthyWorkersForModel demo_pair [''a'', ''b''] ''m'' = [demo_candidate ''a'' 1, demo_candidate ''b'' 2]"
  "costs_ordered [demo_candidate ''a'' 1, demo_candidate ''b'' 2]"
  by (auto simp: keyed_registry_def range_order_def demo_pair_def New_def demo_candidate_def routable_def
      demo_request_def demo_parse_def unmarshal_string_field_def final_statuses_def demo_net_def demo_answer_def
      HealthyWorkersForModel_def healthy_state_def stable_reads_def costs_ordered_def split: if_splits)

lemma demo_route_no_panic:
  "rr_panic (handleInference demo_parse demo_reads demo_net demo_pair [''a'', ''b''] (Router_New True) demo_request) = None"
  unfolding handleInference_routable [OF demo_pair_ok(3)] demo_pair_ok(6)
  using route_attempts_no_panic [OF demo_pair_ok(4,5,7)] by (simp add: Let_def)

theorem failover_correct_witness:
  "length (rr_tried (handleInference demo_parse demo_reads demo_net demo_pair [''a'', ''b''] (Router_New True) demo_request)) \<le> 3"
  using failover_correct [OF demo_pair_ok(1,2,3) _ refl demo_route_no_panic] by (simp add: demo_pair_ok(6))

theorem request_accounting_witness:
  "getInFlight (rr_router (handleInference demo_parse demo_reads demo_net demo_pair [''a'', ''b''] (Router_New True) demo_request)) =
     getInFlight (Router_New True)"
  using request_accounting [OF demo_pair_ok(1,2) refl demo_route_no_panic] by blast

text \<open>
  C23: The router always answers. If the counts do not change between the two passes of a
  choice, no worker of the registry has a NaN cost and workers answer with final
  statuses, no request makes the router panic, and every response has a status.
\<close>

theorem router_always_answers:
  assumes "stable_reads reads" and "final_statuses net" and "costs_ordered (ListWorkers rg ks)"
    and "R = ServeHTTP parse reads net rg ks r req"
  shows "rr_panic R = None \<and> rstatus (rr_response R) \<noteq> None"
proof -
  have ord: "costs_ordered (HealthyWorkersForModel rg ks model)" for model
    using assms(3) by (auto simp: costs_ordered_def HealthyWorkersForModel_def ListWorkers_def)
  let ?H = "handleInference parse reads net rg ks r req"
  have "rr_panic ?H = None \<and> rstatus (rr_response ?H) \<noteq> None"
  proof (cases "\<exists>model. routable parse req model")
    case False
    then show ?thesis using handleInference_rejects [OF False, of reads net rg ks r] by auto
  next
    case True
    then obtain model where model: "routable parse req model" by blast
    let ?ws = "HealthyWorkersForModel rg ks model"
    let ?L = "route_attempts reads net req (the (Body req)) model ?ws (min (length ?ws) 3) 1 [] [] r new_response"
    have no_panic: "rr_panic ?L = None" using route_attempts_no_panic [OF assms(1,2) ord] .
    have "rstatus (rr_response ?L) \<noteq> None"
      using route_attempts_status [OF assms(2) no_panic] by simp
    then show ?thesis using no_panic handleInference_routable [OF model] by (simp add: Let_def reject_def)
  qed
  then show ?thesis using assms(4) by (auto simp: ServeHTTP_def reject_def write_body_def)
qed

theorem router_always_answers_witness:
  "rstatus (rr_response (ServeHTTP demo_parse demo_reads demo_net demo_pair [''a'', ''b''] (Router_New False) demo_request)) \<noteq> None"
proof -
  have "costs_ordered (ListWorkers demo_pair [''a'', ''b''])"
    by (simp add: costs_ordered_def ListWorkers_def demo_pair_def demo_candidate_def)
  from router_always_answers [OF demo_pair_ok(4,5) this refl] show ?thesis by blast
qed

text \<open>
  C36: A panic leaks an in-flight slot. If the only healthy worker answers with a status
  outside 100..999, writing it panics; the counter of that worker is not lowered again,
  the client gets no status and the metrics hook is not called.
\<close>

theorem status_panic_leaks_slot:
  assumes "routable parse req model" and "HealthyWorkersForModel rg ks model = [e]"
    and "net 1 (target_of req e) = Got up" and "us_status up < 100"
    and "R = handleInference parse reads net rg ks r req"
  shows "rr_panic R = Some InvalidWriteHeaderCode \<and>
    inFlight (rr_router R) (wid_of e) = Some (fst (counter64 r (wid_of e)) + 1) \<and>
    rstatus (rr_response R) = None \<and> hookCalls (rr_router R) = hookCalls r"
  using assms(2-5) unfolding handleInference_routable [OF assms(1)]
  by (simp add: Let_def route_attempts.simps(2) pickWorker_def proxy_got inc_eq counter64_def split: option.splits)

theorem status_panic_leaks_slot_witness:
  "(let R = handleInference demo_parse demo_reads (\<lambda>_ _. Got (demo_answer 42)) demo_pair [''a''] (Router_New True) demo_request
    in rr_panic R = Some InvalidWriteHeaderCode \<and> getInFlight (rr_router R) ''a'' = 1)"
proof -
  have ws: "HealthyWorkersForModel demo_pair [''a''] ''m'' = [demo_candidate ''a'' 1]"
    by (simp add: HealthyWorkersForModel_def demo_pair_def demo_candidate_def healthy_state_def)
  have up: "us_status (demo_answer 42) < 100" by (simp add: demo_answer_def)
  show ?thesis
    using status_panic_leaks_slot [OF demo_pair_ok(3) ws _ up refl, of "\<lambda>_ _. Got (demo_answer 42)" demo_reads "Router_New True"]
    by (simp add: Let_def getInFlight_def demo_candidate_def counter64_def Router_New_def)
qed

end
