(* ===== verification/Router_Concurrency.thy ===== *)
theory Router_Concurrency
  imports Router_Failover
begin

text \<open>
  Many requests in the router at once. A request is a goroutine that goes through the loop of
  \<^verbatim>\<open>handleInference\<close>; what it shares with the others are the in-flight counters, the rotation
  counter and the metrics hook. Every access to them is a step of its own: each counter
  that \<^verbatim>\<open>pickWorker\<close> reads, in either pass, the rotation counter's \<^verbatim>\<open>Add\<close>, \<^verbatim>\<open>inc\<close>, \<^verbatim>\<open>dec\<close>, and
  the call of the hook. The call of a worker takes as long as it takes, so it is a
  step too.

  The handler of \<open>Router\<close> is the run of one request that nobody disturbs.
\<close>

section \<open>Requests as goroutines\<close>

datatype phase =
    Trying
  | Scanning "string \<Rightarrow> int" "string list"
  | Collecting "string \<Rightarrow> int" "string \<Rightarrow> int" "string list"
  | Choosing "string \<Rightarrow> int" "string \<Rightarrow> int"
  | Chosen WorkerEntry
  | Proxying WorkerEntry
  | Relayed WorkerEntry bool bool
  | Reporting string
  | Exhausted
  | Done string
  | Crashed panic "string option"

record task =
  tk_req :: http_request
  tk_body :: bytes
  tk_model :: string
  tk_workers :: "WorkerEntry list"
  tk_left :: nat
  tk_tried :: "string list"
  tk_sent :: "outgoing list"
  tk_response :: response
  tk_phase :: phase

text \<open>A request that passes the checks, with the workers the registry gave it.\<close>

definition start_task :: "http_request \<Rightarrow> bytes \<Rightarrow> string \<Rightarrow> WorkerEntry list \<Rightarrow> task" where
  "start_task req body model ws =
     \<lparr>tk_req = req, tk_body = body, tk_model = model, tk_workers = ws, tk_left = min (length ws) 3,
      tk_tried = [], tk_sent = [], tk_response = new_response, tk_phase = Trying\<rparr>"

definition candidates :: "task \<Rightarrow> WorkerEntry list" where
  "candidates t = filter (\<lambda>e. wid_of e \<notin> set (tk_tried t)) (tk_workers t)"

definition pick_now :: "(string \<Rightarrow> int) \<Rightarrow> (string \<Rightarrow> int) \<Rightarrow> Router \<Rightarrow> task \<Rightarrow> Router \<times> task" where
  "pick_now gf1 gf2 r t =
     (case pickWorker (candidates t) (counter r) gf1 gf2 of
        (Inl p, c) \<Rightarrow> (r\<lparr>counter := c\<rparr>, t\<lparr>tk_phase := Crashed p None\<rparr>)
      | (Inr e, c) \<Rightarrow>
          (r\<lparr>counter := c\<rparr>,
           t\<lparr>tk_phase := Chosen e, tk_left := tk_left t - 1, tk_tried := tk_tried t @ [wid_of e]\<rparr>))"

definition relay_answer :: "do_result \<Rightarrow> WorkerEntry \<Rightarrow> task \<Rightarrow> task" where
  "relay_answer res e t =
     (let target = ''http://'' @ Address (Info e) @ Path (tk_req t);
          sent' = (if res = BuildError then tk_sent t
                   else tk_sent t @ [proxy_request (tk_req t) target (tk_body t)])
      in case proxy (tk_response t) res of
           Inl p \<Rightarrow> t\<lparr>tk_sent := sent', tk_phase := Crashed p (Some (wid_of e))\<rparr>
         | Inr (retryable, err, w') \<Rightarrow>
             t\<lparr>tk_sent := sent', tk_response := w', tk_phase := Relayed e retryable err\<rparr>)"

text \<open>
  The next access of a request to what it shares; \<open>res\<close> is what the HTTP client call gives, if
  that is what comes next.
\<close>

definition advance :: "do_result \<Rightarrow> Router \<Rightarrow> task \<Rightarrow> (Router \<times> task) option" where
  "advance res r t =
     (case tk_phase t of
        Trying \<Rightarrow>
          Some (r, t\<lparr>tk_phase :=
            (if tk_left t = 0 \<or> candidates t = [] then Exhausted
             else if length (candidates t) = 1 then Choosing (\<lambda>_. 0) (\<lambda>_. 0)
             else Scanning (\<lambda>_. 0) (map wid_of (candidates t)))\<rparr>)
      | Scanning gf (x # xs) \<Rightarrow> Some (r, t\<lparr>tk_phase := Scanning (gf(x := getInFlight r x)) xs\<rparr>)
      | Scanning gf [] \<Rightarrow> Some (r, t\<lparr>tk_phase := Collecting gf (\<lambda>_. 0) (map wid_of (candidates t))\<rparr>)
      | Collecting gf gf' (x # xs) \<Rightarrow> Some (r, t\<lparr>tk_phase := Collecting gf (gf'(x := getInFlight r x)) xs\<rparr>)
      | Collecting gf gf' [] \<Rightarrow> Some (r, t\<lparr>tk_phase := Choosing gf gf'\<rparr>)
      | Choosing gf gf' \<Rightarrow> Some (pick_now gf gf' r t)
      | Chosen e \<Rightarrow> Some (inc r (wid_of e), t\<lparr>tk_phase := Proxying e\<rparr>)
      | Proxying e \<Rightarrow> Some (r, relay_answer res e t)
      | Relayed e retryable err \<Rightarrow>
          Some (dec r (wid_of e), t\<lparr>tk_phase :=
            (if \<not> err then Reporting ''success'' else if \<not> retryable then Reporting ''error'' else Trying)\<rparr>)
      | Reporting result \<Rightarrow> Some (call_hook r (tk_model t) result, t\<lparr>tk_phase := Done result\<rparr>)
      | Exhausted \<Rightarrow>
          Some (call_hook r (tk_model t) ''error'',
            t\<lparr>tk_response := http_Error ''all workers failed or unavailable'' 502 (tk_response t),
              tk_phase := Done ''error''\<rparr>)
      | Done _ \<Rightarrow> None
      | Crashed _ _ \<Rightarrow> None)"

record rsys =
  rs_router :: Router
  rs_tasks :: "nat \<rightharpoonup> task"

datatype revent = RArrive nat | RAdvance nat do_result

inductive route_step :: "rsys \<Rightarrow> revent \<Rightarrow> rsys \<Rightarrow> bool" where
  route_arrive: "\<lbrakk>rs_tasks s i = None; routable parse req model; Body req = Some body;
      keyed_registry rg; range_order (workers rg) ks; ws = HealthyWorkersForModel rg ks model; ws \<noteq> []\<rbrakk> \<Longrightarrow>
    route_step s (RArrive i) (s\<lparr>rs_tasks := (rs_tasks s)(i \<mapsto> start_task req body model ws)\<rparr>)"
| route_advance: "\<lbrakk>rs_tasks s i = Some t; advance res (rs_router s) t = Some (r', t')\<rbrakk> \<Longrightarrow>
    route_step s (RAdvance i res) \<lparr>rs_router = r', rs_tasks = (rs_tasks s)(i \<mapsto> t')\<rparr>"

inductive_cases route_stepE: "route_step s ev s'"

definition router_start :: "rsys \<Rightarrow> bool" where
  "router_start s \<longleftrightarrow> (\<exists>hook. rs_router s = Router_New hook) \<and> rs_tasks s = Map.empty"

section \<open>What is counted\<close>

text \<open>The worker whose in-flight counter a request has raised and not lowered yet.\<close>

fun slot :: "phase \<Rightarrow> string option" where
  "slot (Proxying e) = Some (wid_of e)"
| "slot (Relayed e _ _) = Some (wid_of e)"
| "slot (Crashed _ w) = w"
| "slot _ = None"

fun reported :: "task \<Rightarrow> (string \<times> string) multiset" where
  "reported t = (case tk_phase t of Done result \<Rightarrow> {#(tk_model t, result)#} | _ \<Rightarrow> {#})"

definition occupying :: "rsys \<Rightarrow> string \<Rightarrow> nat set" where
  "occupying s wid = {i. \<exists>t. rs_tasks s i = Some t \<and> slot (tk_phase t) = Some wid}"

definition reports :: "rsys \<Rightarrow> (string \<times> string) multiset" where
  "reports s = (\<Sum>i \<in> dom (rs_tasks s). reported (the (rs_tasks s i)))"

definition flight_word :: "Router \<Rightarrow> string \<Rightarrow> 64 word" where
  "flight_word r wid = (case inFlight r wid of None \<Rightarrow> 0 | Some c \<Rightarrow> c)"

lemma flight_word_simps [simp]:
  "flight_word (inc r w) wid = flight_word r wid + of_bool (w = wid)"
  "flight_word (dec r w) wid = flight_word r wid - of_bool (w = wid)"
  "flight_word (call_hook r m res) wid = flight_word r wid"
  "flight_word (r\<lparr>counter := c\<rparr>) wid = flight_word r wid"
  by (simp_all add: flight_word_def inc_def dec_def counter64_def call_hook_def split: option.split)

lemma pick_now_cases:
  assumes "pick_now gf1 gf2 r t = (r', t')"
  obtains (panic) p c where "r' = r\<lparr>counter := c\<rparr>" "t' = t\<lparr>tk_phase := Crashed p None\<rparr>"
  | (picked) e c where "r' = r\<lparr>counter := c\<rparr>" "e \<in> set (candidates t)"
      "t' = t\<lparr>tk_phase := Chosen e, tk_left := tk_left t - 1, tk_tried := tk_tried t @ [wid_of e]\<rparr>"
  using assms pickWorker_member [of "candidates t" "counter r" gf1 gf2]
  by (auto simp: pick_now_def split: prod.splits sum.splits)

lemma relay_answer_cases:
  obtains (panic) p sent' where "relay_answer res e t = t\<lparr>tk_sent := sent', tk_phase := Crashed p (Some (wid_of e))\<rparr>"
      "sent' = tk_sent t \<or> (\<exists>u. sent' = tk_sent t @ [proxy_request (tk_req t) u (tk_body t)])"
  | (answer) retryable err w' sent' where "proxy (tk_response t) res = Inr (retryable, err, w')"
      "relay_answer res e t = t\<lparr>tk_sent := sent', tk_response := w', tk_phase := Relayed e retryable err\<rparr>"
      "sent' = tk_sent t \<or> (\<exists>u. sent' = tk_sent t @ [proxy_request (tk_req t) u (tk_body t)])"
proof -
  let ?sent = "if res = BuildError then tk_sent t
    else tk_sent t @ [proxy_request (tk_req t) (''http://'' @ Address (Info e) @ Path (tk_req t)) (tk_body t)]"
  have sent: "?sent = tk_sent t \<or> (\<exists>u. ?sent = tk_sent t @ [proxy_request (tk_req t) u (tk_body t)])" by auto
  show thesis
  proof (cases "proxy (tk_response t) res")
    case (Inl p)
    then have "relay_answer res e t = t\<lparr>tk_sent := ?sent, tk_phase := Crashed p (Some (wid_of e))\<rparr>"
      by (simp add: relay_answer_def)
    then show thesis using sent by (rule panic)
  next
    case (Inr x)
    obtain retryable err w' where x: "x = (retryable, err, w')" by (cases x)
    then have "relay_answer res e t = t\<lparr>tk_sent := ?sent, tk_response := w', tk_phase := Relayed e retryable err\<rparr>"
      using Inr by (simp add: relay_answer_def)
    with Inr x show thesis using sent by (intro answer) auto
  qed
qed

lemma advance_flight:
  assumes "advance res r t = Some (r', t')"
  shows "flight_word r' wid + of_bool (slot (tk_phase t) = Some wid) =
    flight_word r wid + of_bool (slot (tk_phase t') = Some wid)"
proof (cases "tk_phase t")
  case (Choosing gf1 gf2)
  then have "pick_now gf1 gf2 r t = (r', t')" using assms by (simp add: advance_def)
  then show ?thesis by (cases rule: pick_now_cases) (use Choosing in auto)
next
  case (Proxying e)
  then have "r' = r" "t' = relay_answer res e t" using assms by (auto simp: advance_def)
  then show ?thesis using Proxying by (cases rule: relay_answer_cases [of res e t]) simp_all
qed (use assms in \<open>auto simp: advance_def split: list.splits if_splits\<close>)

lemma advance_hook:
  assumes "advance res r t = Some (r', t')"
  shows "hasHook r' = hasHook r" and "tk_model t' = tk_model t"
    and "hasHook r \<Longrightarrow> mset (hookCalls r') + reported t = mset (hookCalls r) + reported t'"
    and "\<not> hasHook r \<Longrightarrow> hookCalls r' = hookCalls r"
proof -
  have "hasHook r' = hasHook r \<and> tk_model t' = tk_model t \<and>
    (hasHook r \<longrightarrow> mset (hookCalls r') + reported t = mset (hookCalls r) + reported t') \<and>
    (\<not> hasHook r \<longrightarrow> hookCalls r' = hookCalls r)"
  proof (cases "tk_phase t")
    case (Choosing gf1 gf2)
    then have "pick_now gf1 gf2 r t = (r', t')" using assms by (simp add: advance_def)
    then show ?thesis by (cases rule: pick_now_cases) (use Choosing in auto)
  next
    case (Proxying e)
    then have "r' = r" "t' = relay_answer res e t" using assms by (auto simp: advance_def)
    then show ?thesis using Proxying by (cases rule: relay_answer_cases [of res e t]) simp_all
  qed (use assms in \<open>auto simp: advance_def call_hook_def inc_def dec_def counter64_def split: list.splits option.splits if_splits\<close>)
  then show "hasHook r' = hasHook r" "tk_model t' = tk_model t"
    "hasHook r \<Longrightarrow> mset (hookCalls r') + reported t = mset (hookCalls r) + reported t'"
    "\<not> hasHook r \<Longrightarrow> hookCalls r' = hookCalls r" by blast+
qed

section \<open>The invariant\<close>

text \<open>
  A request tries distinct workers out of those the registry gave it, at most three, and
  sends each of them its own method and body. Until an answer is relayed it has written nothing,
  so that trying again is safe.
\<close>

fun silent :: "phase \<Rightarrow> bool" where
  "silent (Relayed _ retryable _) = retryable"
| "silent (Reporting _) = False"
| "silent (Done _) = False"
| "silent (Crashed _ _) = False"
| "silent _ = True"

fun unsent :: "phase \<Rightarrow> nat" where
  "unsent (Chosen _) = 1"
| "unsent (Proxying _) = 1"
| "unsent _ = 0"

fun picking :: "phase \<Rightarrow> bool" where
  "picking (Scanning _ _) = True"
| "picking (Collecting _ _ _) = True"
| "picking (Choosing _ _) = True"
| "picking _ = False"

definition task_ok :: "task \<Rightarrow> bool" where
  "task_ok t \<longleftrightarrow>
     distinct (tk_tried t) \<and> set (tk_tried t) \<subseteq> wid_of ` set (tk_workers t) \<and>
     length (tk_tried t) + tk_left t \<le> 3 \<and> (picking (tk_phase t) \<longrightarrow> 0 < tk_left t) \<and>
     length (tk_sent t) + unsent (tk_phase t) \<le> length (tk_tried t) \<and>
     (\<forall>out \<in> set (tk_sent t). og_method out = Method (tk_req t) \<and> og_body out = tk_body t) \<and>
     (silent (tk_phase t) \<longrightarrow> tk_response t = new_response)"

lemma start_task_ok: "task_ok (start_task req body model ws)"
  by (simp add: task_ok_def start_task_def)

lemma proxy_retryable: "proxy w res = Inr (True, err, w') \<Longrightarrow> err \<and> w' = w"
  by (auto simp: proxy_def split: do_result.splits sum.splits)

lemma advance_task_ok:
  assumes "task_ok t" and "advance res r t = Some (r', t')"
  shows "task_ok t'"
proof (cases "tk_phase t")
  case (Choosing gf1 gf2)
  then have "pick_now gf1 gf2 r t = (r', t')" using assms(2) by (simp add: advance_def)
  then show ?thesis
  proof (cases rule: pick_now_cases)
    case (picked e c)
    then have "wid_of e \<notin> set (tk_tried t)" "e \<in> set (tk_workers t)" by (auto simp: candidates_def)
    then show ?thesis using assms(1) Choosing picked(3) by (auto simp: task_ok_def)
  qed (use assms(1) Choosing in \<open>auto simp: task_ok_def\<close>)
next
  case (Proxying e)
  then have t': "t' = relay_answer res e t" using assms(2) by (auto simp: advance_def)
  show ?thesis
  proof (cases rule: relay_answer_cases [of res e t])
    case (panic p sent')
    then show ?thesis using assms(1) Proxying t' by (auto simp: task_ok_def proxy_request_def)
  next
    case (answer retryable err w' sent')
    then have "retryable \<longrightarrow> w' = new_response"
      using proxy_retryable [of "tk_response t" res err w'] assms(1) Proxying by (auto simp: task_ok_def)
    then show ?thesis using assms(1) Proxying t' answer(2,3) by (auto simp: task_ok_def proxy_request_def)
  qed
qed (use assms in \<open>auto simp: task_ok_def advance_def split: list.splits if_splits\<close>)

definition router_inv :: "rsys \<Rightarrow> bool" where
  "router_inv s \<longleftrightarrow>
     finite (dom (rs_tasks s)) \<and>
     (\<forall>wid. flight_word (rs_router s) wid = of_nat (card (occupying s wid))) \<and>
     mset (hookCalls (rs_router s)) = (if hasHook (rs_router s) then reports s else {#}) \<and>
     (\<forall>i t. rs_tasks s i = Some t \<longrightarrow> task_ok t)"

lemma occupying_update:
  assumes "finite (dom (rs_tasks s))" and "rs_tasks s i = Some t"
  shows "(of_nat (card (occupying \<lparr>rs_router = r', rs_tasks = (rs_tasks s)(i \<mapsto> t')\<rparr> wid)) :: 64 word) +
      of_bool (slot (tk_phase t) = Some wid) =
    of_nat (card (occupying s wid)) + of_bool (slot (tk_phase t') = Some wid)"
proof -
  let ?O = "occupying s wid - {i}"
  have "finite (occupying s wid)"
    by (rule finite_subset [OF _ assms(1)]) (auto simp: occupying_def)
  then have fin: "finite ?O" by simp
  have "occupying \<lparr>rs_router = r', rs_tasks = (rs_tasks s)(i \<mapsto> t')\<rparr> wid =
      (if slot (tk_phase t') = Some wid then insert i ?O else ?O)"
    by (auto simp: occupying_def split: if_splits)
  moreover have "occupying s wid = (if slot (tk_phase t) = Some wid then insert i ?O else ?O)"
    using assms(2) by (auto simp: occupying_def)
  moreover have "card (insert i ?O) = Suc (card ?O)" using fin by (intro card_insert_disjoint) auto
  ultimately show ?thesis by (auto split: if_splits)
qed

lemma reports_split:
  assumes "finite (dom (rs_tasks s))"
  shows "reports (s\<lparr>rs_tasks := (rs_tasks s)(i \<mapsto> t)\<rparr>) =
    reported t + (\<Sum>j \<in> dom (rs_tasks s) - {i}. reported (the (rs_tasks s j)))"
proof -
  let ?m = "(rs_tasks s)(i \<mapsto> t)" and ?D = "dom (rs_tasks s) - {i}"
  have "dom ?m = insert i ?D" by auto
  then have "(\<Sum>j \<in> dom ?m. reported (the (?m j))) = reported (the (?m i)) + (\<Sum>j \<in> ?D. reported (the (?m j)))"
    using assms by (simp only: sum.insert_remove finite_Diff finite_insert) simp
  also have "(\<Sum>j \<in> ?D. reported (the (?m j))) = (\<Sum>j \<in> ?D. reported (the (rs_tasks s j)))"
    by (rule sum.cong) (auto simp del: reported.simps)
  finally have sum: "(\<Sum>j \<in> dom ?m. reported (the (?m j))) =
    reported (the (?m i)) + (\<Sum>j \<in> ?D. reported (the (rs_tasks s j)))" .
  have "rs_tasks (s\<lparr>rs_tasks := ?m\<rparr>) = ?m" and "the (?m i) = t" by simp_all
  then show ?thesis using sum by (simp only: reports_def)
qed

lemma reports_router [simp]: "reports (s\<lparr>rs_router := r\<rparr>) = reports s"
  by (simp add: reports_def)

lemma reports_update:
  assumes "finite (dom (rs_tasks s))" and "rs_tasks s i = Some t"
  shows "reports \<lparr>rs_router = r', rs_tasks = (rs_tasks s)(i \<mapsto> t')\<rparr> + reported t = reports s + reported t'"
proof -
  have "s\<lparr>rs_tasks := (rs_tasks s)(i \<mapsto> t)\<rparr> = s" using assms(2) by (cases s) (simp add: fun_upd_idem)
  then have "reports s = reported t + (\<Sum>j \<in> dom (rs_tasks s) - {i}. reported (the (rs_tasks s j)))"
    using reports_split [OF assms(1), of i t] by simp
  moreover have "reports \<lparr>rs_router = r', rs_tasks = (rs_tasks s)(i \<mapsto> t')\<rparr> = reports (s\<lparr>rs_tasks := (rs_tasks s)(i \<mapsto> t')\<rparr>)"
    by (simp add: reports_def)
  ultimately show ?thesis using reports_split [OF assms(1), of i t'] by (simp del: reported.simps)
qed

lemma advance_inv:
  assumes "router_inv s" and "rs_tasks s i = Some t" and "advance res (rs_router s) t = Some (r', t')"
  shows "router_inv \<lparr>rs_router = r', rs_tasks = (rs_tasks s)(i \<mapsto> t')\<rparr>"
proof -
  let ?s = "\<lparr>rs_router = r', rs_tasks = (rs_tasks s)(i \<mapsto> t')\<rparr>"
  have fin: "finite (dom (rs_tasks s))" using assms(1) by (simp add: router_inv_def)
  have "flight_word r' wid = of_nat (card (occupying ?s wid))" for wid
    using advance_flight [OF assms(3), of wid] occupying_update [OF fin assms(2), of r' t' wid] assms(1)
    unfolding router_inv_def by (metis add_right_cancel)
  moreover have "mset (hookCalls r') = (if hasHook r' then reports ?s else {#})"
    using advance_hook [OF assms(3)] reports_update [OF fin assms(2), of r' t'] assms(1)
    unfolding router_inv_def by (metis add_right_cancel)
  moreover have "task_ok t'" using assms(1,2) advance_task_ok [OF _ assms(3)] by (auto simp: router_inv_def)
  ultimately show ?thesis using assms(1) by (auto simp: router_inv_def)
qed

lemma arrive_inv:
  assumes "router_inv s" and "rs_tasks s i = None"
  shows "router_inv (s\<lparr>rs_tasks := (rs_tasks s)(i \<mapsto> start_task req body model ws)\<rparr>)"
proof -
  let ?t = "start_task req body model ws"
  let ?s = "s\<lparr>rs_tasks := (rs_tasks s)(i \<mapsto> ?t)\<rparr>"
  have t: "slot (tk_phase ?t) = None" "reported ?t = {#}" by (simp_all add: start_task_def)
  have "occupying ?s wid = occupying s wid" for wid
    using assms t(1) by (auto simp: occupying_def split: if_splits)
  moreover have "reports ?s = reports s"
    using reports_split [of s i ?t] assms t(2) by (simp add: router_inv_def domIff reports_def del: reported.simps)
  ultimately show ?thesis using assms(1) start_task_ok by (auto simp: router_inv_def)
qed

interpretation routersys: inductive_invariant router_start route_step router_inv
proof
  show "router_start s \<Longrightarrow> router_inv s" for s
    by (auto simp: router_start_def router_inv_def Router_New_def flight_word_def occupying_def reports_def)
  show "router_inv s \<Longrightarrow> route_step s ev s' \<Longrightarrow> router_inv s'" for s ev s'
    by (erule route_stepE) (auto intro: advance_inv arrive_inv)
qed

lemma in_flight_counted:
  assumes "router_inv s" and "card (dom (rs_tasks s)) < 2 ^ 63"
  shows "getInFlight (rs_router s) wid = int (card (occupying s wid))"
proof -
  have "card (occupying s wid) \<le> card (dom (rs_tasks s))"
    using assms(1) by (intro card_mono) (auto simp: occupying_def router_inv_def)
  then have "card (occupying s wid) < 2 ^ 63" using assms(2) by simp
  then have "sint (of_nat (card (occupying s wid)) :: 64 word) = int (card (occupying s wid))"
    by (simp add: signed_of_nat signed_take_bit_int_eq_self)
  moreover have "getInFlight (rs_router s) wid = sint (flight_word (rs_router s) wid)"
    by (simp add: getInFlight_def flight_word_def split: option.split)
  ultimately show ?thesis using assms(1) by (simp add: router_inv_def)
qed

section \<open>One request that nobody disturbs\<close>

lemma pickWorker_cong:
  assumes "\<And>e. e \<in> set ws \<Longrightarrow> gf1 (wid_of e) = hf1 (wid_of e)" and "\<And>e. e \<in> set ws \<Longrightarrow> gf2 (wid_of e) = hf2 (wid_of e)"
  shows "pickWorker ws c gf1 gf2 = pickWorker ws c hf1 hf2"
proof (cases ws rule: remdups_adj.cases)
  case (3 w u rest)
  have "min_flight gf1 w (u # rest) = min_flight hf1 w (u # rest)"
    unfolding min_flight_def using assms(1) 3 by (intro fold_cong) (auto simp: fun_eq_iff)
  moreover have "filter (\<lambda>e. gf2 (wid_of e) = m) ws = filter (\<lambda>e. hf2 (wid_of e) = m) ws" for m
    using assms(2) by (intro filter_cong) auto
  ultimately show ?thesis unfolding 3 pickWorker_def by (simp only: list.case)
qed (simp_all add: pickWorker_def)

abbreviation task_at :: "rsys \<Rightarrow> nat \<Rightarrow> Router \<Rightarrow> task \<Rightarrow> rsys" where
  "task_at s i r t \<equiv> \<lparr>rs_router = r, rs_tasks = (rs_tasks s)(i \<mapsto> t)\<rparr>"

lemma task_at_advance:
  assumes "advance res r t = Some (r', t')" and "\<exists>es. run route_step (task_at s i r' t') es u"
  shows "\<exists>es. run route_step (task_at s i r t) es u"
proof -
  have "route_step (task_at s i r t) (RAdvance i res) (task_at s i r' t')"
    using route_advance [of "task_at s i r t" i t res r' t'] assms(1) by simp
  then show ?thesis using assms(2) by (blast intro: run.intros)
qed

lemma scan_run:
  assumes "\<exists>es. run route_step (task_at s i r (t\<lparr>tk_phase := Scanning (\<lambda>x. if x \<in> set xs then getInFlight r x else gf x) []\<rparr>)) es u"
  shows "\<exists>es. run route_step (task_at s i r (t\<lparr>tk_phase := Scanning gf xs\<rparr>)) es u"
  using assms
proof (induction xs arbitrary: gf)
  case (Cons x xs)
  have "(\<lambda>y. if y \<in> set xs then getInFlight r y else (gf(x := getInFlight r x)) y) =
      (\<lambda>y. if y \<in> set (x # xs) then getInFlight r y else gf y)" by auto
  then have "\<exists>es. run route_step (task_at s i r (t\<lparr>tk_phase := Scanning (gf(x := getInFlight r x)) xs\<rparr>)) es u"
    using Cons.prems by (intro Cons.IH) simp
  then show ?case by (rule task_at_advance [rotated]) (simp add: advance_def)
qed simp

lemma collect_run:
  assumes "\<exists>es. run route_step (task_at s i r (t\<lparr>tk_phase := Collecting hf (\<lambda>x. if x \<in> set xs then getInFlight r x else gf x) []\<rparr>)) es u"
  shows "\<exists>es. run route_step (task_at s i r (t\<lparr>tk_phase := Collecting hf gf xs\<rparr>)) es u"
  using assms
proof (induction xs arbitrary: gf)
  case (Cons x xs)
  have "(\<lambda>y. if y \<in> set xs then getInFlight r y else (gf(x := getInFlight r x)) y) =
      (\<lambda>y. if y \<in> set (x # xs) then getInFlight r y else gf y)" by auto
  then have "\<exists>es. run route_step (task_at s i r (t\<lparr>tk_phase := Collecting hf (gf(x := getInFlight r x)) xs\<rparr>)) es u"
    using Cons.prems by (intro Cons.IH) simp
  then show ?case by (rule task_at_advance [rotated]) (simp add: advance_def)
qed simp

text \<open>Both passes and the choice, when nobody changes the counters meanwhile.\<close>

lemma pick_run:
  assumes "tk_phase t = Trying" and "0 < tk_left t" and "candidates t \<noteq> []"
    and "\<exists>es. run route_step (task_at s i (fst (pick_now (getInFlight r) (getInFlight r) r t)) (snd (pick_now (getInFlight r) (getInFlight r) r t))) es u"
  shows "\<exists>es. run route_step (task_at s i r t) es u"
proof -
  let ?ids = "map wid_of (candidates t)"
  let ?gf = "\<lambda>x. if x \<in> set ?ids then getInFlight r x else 0"
  have phase [simp]: "candidates (t\<lparr>tk_phase := ph\<rparr>) = candidates t" for ph by (simp add: candidates_def)
  have now: "pick_now gf1 gf2 r (t\<lparr>tk_phase := Choosing gf1 gf2\<rparr>) = pick_now (getInFlight r) (getInFlight r) r t"
    if "pickWorker (candidates t) (counter r) gf1 gf2 = pickWorker (candidates t) (counter r) (getInFlight r) (getInFlight r)" for gf1 gf2
    using that by (simp add: pick_now_def split: prod.split sum.split)
  have choose: "\<exists>es. run route_step (task_at s i r (t\<lparr>tk_phase := Choosing gf1 gf2\<rparr>)) es u"
    if "pickWorker (candidates t) (counter r) gf1 gf2 = pickWorker (candidates t) (counter r) (getInFlight r) (getInFlight r)" for gf1 gf2
    by (rule task_at_advance [OF _ assms(4), of undefined]) (simp add: advance_def now [OF that])
  show ?thesis
  proof (cases "length (candidates t) = 1")
    case True
    then obtain e where "candidates t = [e]" by (cases "candidates t") auto
    then have "\<exists>es. run route_step (task_at s i r (t\<lparr>tk_phase := Choosing (\<lambda>_. 0) (\<lambda>_. 0)\<rparr>)) es u"
      by (intro choose) (simp add: pickWorker_def)
    then show ?thesis by (rule task_at_advance [rotated]) (use assms(1-3) True in \<open>simp add: advance_def\<close>)
  next
    case False
    have "pickWorker (candidates t) (counter r) ?gf ?gf = pickWorker (candidates t) (counter r) (getInFlight r) (getInFlight r)"
      by (rule pickWorker_cong) auto
    then have "\<exists>es. run route_step (task_at s i r (t\<lparr>tk_phase := Choosing ?gf ?gf\<rparr>)) es u" by (rule choose)
    then have "\<exists>es. run route_step (task_at s i r (t\<lparr>tk_phase := Collecting ?gf ?gf []\<rparr>)) es u"
      by (rule task_at_advance [rotated]) (simp add: advance_def)
    then have "\<exists>es. run route_step (task_at s i r (t\<lparr>tk_phase := Collecting ?gf (\<lambda>_. 0) ?ids\<rparr>)) es u"
      by (rule collect_run)
    then have "\<exists>es. run route_step (task_at s i r (t\<lparr>tk_phase := Scanning ?gf []\<rparr>)) es u"
      by (rule task_at_advance [rotated]) (simp add: advance_def)
    then have "\<exists>es. run route_step (task_at s i r (t\<lparr>tk_phase := Scanning (\<lambda>_. 0) ?ids\<rparr>)) es u"
      by (rule scan_run)
    then show ?thesis by (rule task_at_advance [rotated]) (use assms(1-3) False in \<open>simp add: advance_def\<close>)
  qed
qed

definition finished_as :: "route_result \<Rightarrow> task \<Rightarrow> bool" where
  "finished_as R t \<longleftrightarrow> tk_response t = rr_response R \<and> tk_sent t = rr_sent R \<and> tk_tried t = rr_tried R \<and>
     (case rr_panic R of None \<Rightarrow> \<exists>result. tk_phase t = Done result | Some p \<Rightarrow> \<exists>w. tk_phase t = Crashed p w)"

abbreviation ends_as :: "rsys \<Rightarrow> nat \<Rightarrow> Router \<Rightarrow> task \<Rightarrow> route_result \<Rightarrow> bool" where
  "ends_as s i r t R \<equiv> \<exists>t'. finished_as R t' \<and> (\<exists>es. run route_step (task_at s i r t) es (task_at s i (rr_router R) t'))"

lemma ends_as_here: "finished_as R t \<Longrightarrow> rr_router R = r \<Longrightarrow> ends_as s i r t R"
  by (intro exI [of _ t] conjI exI [of _ "[]"]) auto

lemma ends_as_advance: "advance res r t = Some (r', t') \<Longrightarrow> ends_as s i r' t' R \<Longrightarrow> ends_as s i r t R"
  using task_at_advance by blast

lemma ends_as_pick:
  assumes "tk_phase t = Trying" and "0 < tk_left t" and "candidates t \<noteq> []"
    and "pick_now (getInFlight r) (getInFlight r) r t = (r', t')" and "ends_as s i r' t' R"
  shows "ends_as s i r t R"
  using pick_run [OF assms(1-3), where s = s and i = i and r = r] assms(5) unfolding assms(4) fst_conv snd_conv by blast

lemma ends_as_exhausted:
  assumes "tk_phase t = Trying" and "tk_left t = 0 \<or> candidates t = []"
    and "R = \<lparr>rr_panic = None, rr_router = call_hook r (tk_model t) ''error'',
      rr_response = http_Error ''all workers failed or unavailable'' 502 (tk_response t),
      rr_sent = tk_sent t, rr_tried = tk_tried t\<rparr>"
  shows "ends_as s i r t R"
proof -
  let ?t = "t\<lparr>tk_phase := Exhausted\<rparr>"
  have "advance undefined r t = Some (r, ?t)" using assms(1,2) by (simp add: advance_def)
  moreover have "advance undefined r ?t = Some (call_hook r (tk_model t) ''error'',
      t\<lparr>tk_response := http_Error ''all workers failed or unavailable'' 502 (tk_response t), tk_phase := Done ''error''\<rparr>)"
    by (simp add: advance_def)
  moreover have "finished_as R (t\<lparr>tk_response := http_Error ''all workers failed or unavailable'' 502 (tk_response t),
      tk_phase := Done ''error''\<rparr>)"
    using assms(3) by (simp add: finished_as_def)
  ultimately show ?thesis using assms(3) by (intro ends_as_advance [of undefined r t r ?t] ends_as_advance [of undefined r ?t]
      ends_as_here) simp_all
qed

lemma ends_as_report:
  assumes "tk_phase t = Reporting result"
    and "R = \<lparr>rr_panic = None, rr_router = call_hook r (tk_model t) result, rr_response = tk_response t,
      rr_sent = tk_sent t, rr_tried = tk_tried t\<rparr>"
  shows "ends_as s i r t R"
  using assms by (intro ends_as_advance [of undefined r t "call_hook r (tk_model t) result" "t\<lparr>tk_phase := Done result\<rparr>"] ends_as_here)
    (simp_all add: advance_def finished_as_def)

text \<open>From the call of a worker on: the request crashes, ends, or tries again without it.\<close>

lemma ends_as_relay:
  assumes "tk_phase t = Proxying e"
    and sent: "sent = (if res = BuildError then tk_sent t
      else tk_sent t @ [proxy_request (tk_req t) (''http://'' @ Address (Info e) @ Path (tk_req t)) (tk_body t)])"
    and R: "R = (case proxy (tk_response t) res of
           Inl p \<Rightarrow> \<lparr>rr_panic = Some p, rr_router = r, rr_response = tk_response t, rr_sent = sent, rr_tried = tk_tried t\<rparr>
         | Inr (retryable, err, w') \<Rightarrow>
             if err \<and> retryable then again w'
             else \<lparr>rr_panic = None,
               rr_router = call_hook (dec r (wid_of e)) (tk_model t) (if err then ''error'' else ''success''),
               rr_response = w', rr_sent = sent, rr_tried = tk_tried t\<rparr>)"
    and again: "\<And>w'. ends_as s i (dec r (wid_of e)) (t\<lparr>tk_sent := sent, tk_response := w', tk_phase := Trying\<rparr>) (again w')"
  shows "ends_as s i r t R"
proof (rule ends_as_advance [of res])
  show "advance res r t = Some (r, relay_answer res e t)" using assms(1) by (simp add: advance_def)
  show "ends_as s i r (relay_answer res e t) R"
  proof (cases "proxy (tk_response t) res")
    case (Inl p)
    then show ?thesis using R sent
      by (intro ends_as_here) (simp_all add: finished_as_def relay_answer_def Let_def)
  next
    case (Inr y)
    obtain retryable err w' where y: "y = (retryable, err, w')" by (cases y)
    let ?t3 = "t\<lparr>tk_sent := sent, tk_response := w', tk_phase := Relayed e retryable err\<rparr>"
    let ?t4 = "?t3\<lparr>tk_phase := (if \<not> err then Reporting ''success'' else if \<not> retryable then Reporting ''error'' else Trying)\<rparr>"
    have "ends_as s i (dec r (wid_of e)) ?t4 R"
    proof (cases "err \<and> retryable")
      case True
      then have "R = again w'" unfolding R Inr y by simp
      moreover have "?t4 = t\<lparr>tk_sent := sent, tk_response := w', tk_phase := Trying\<rparr>" using True by simp
      ultimately show ?thesis using again [of w'] by (simp only:)
    next
      case False
      then show ?thesis using R Inr y
        by (intro ends_as_report [of _ "if err then ''error'' else ''success''"]) auto
    qed
    then have "ends_as s i r ?t3 R" by (rule ends_as_advance [of undefined, rotated]) (simp add: advance_def)
    moreover have "relay_answer res e t = ?t3" unfolding relay_answer_def Inr y sent by simp
    ultimately show ?thesis by simp
  qed
qed

lemma undisturbed_attempts:
  assumes "getInFlight r = gf"
    and "t = \<lparr>tk_req = req, tk_body = body, tk_model = model, tk_workers = ws, tk_left = n, tk_tried = tried,
      tk_sent = sent, tk_response = w, tk_phase = Trying\<rparr>"
  shows "ends_as s i r t (route_attempts (\<lambda>_. (gf, gf)) net req body model ws n a tried sent r w)"
  using assms
proof (induction n arbitrary: a tried sent r w t)
  case 0
  then show ?case by (intro ends_as_exhausted) simp_all
next
  case (Suc n)
  let ?R = "route_attempts (\<lambda>_. (gf, gf)) net req body model ws (Suc n) a tried sent r w"
  let ?cs = "filter (\<lambda>e. wid_of e \<notin> set tried) ws"
  have cs: "candidates t = ?cs" and t: "tk_phase t = Trying" "0 < tk_left t" using Suc.prems by (simp_all add: candidates_def)
  show ?case
  proof (cases "?cs = []")
    case True
    then show ?thesis using Suc.prems cs by (intro ends_as_exhausted) (simp_all add: route_attempts.simps Let_def)
  next
    case False
    obtain x c where pick: "pickWorker ?cs (counter r) gf gf = (x, c)" by fastforce
    have now: "pick_now (getInFlight r) (getInFlight r) r t =
        (case x of Inl p \<Rightarrow> (r\<lparr>counter := c\<rparr>, t\<lparr>tk_phase := Crashed p None\<rparr>)
         | Inr e \<Rightarrow> (r\<lparr>counter := c\<rparr>, t\<lparr>tk_phase := Chosen e, tk_left := n, tk_tried := tried @ [wid_of e]\<rparr>))"
      using Suc.prems pick cs by (simp add: pick_now_def split: sum.split)
    show ?thesis
    proof (cases x)
      case (Inl p)
      then show ?thesis using False cs t now pick Suc.prems
        by (intro ends_as_pick [OF t _ now [unfolded Inl sum.case]] ends_as_here) (simp_all add: finished_as_def Let_def route_attempts.simps)
    next
      case (Inr e)
      let ?r1 = "inc (r\<lparr>counter := c\<rparr>) (wid_of e)"
      let ?t1 = "t\<lparr>tk_phase := Chosen e, tk_left := n, tk_tried := tried @ [wid_of e]\<rparr>"
      have gf: "getInFlight (dec ?r1 (wid_of e)) = gf" using Suc.prems(1) by simp
      let ?t2 = "?t1\<lparr>tk_phase := Proxying e\<rparr>" and ?u = "''http://'' @ Address (Info e) @ Path req"
      let ?sent = "if net a ?u = BuildError then tk_sent ?t2 else tk_sent ?t2 @ [proxy_request (tk_req ?t2) (''http://'' @ Address (Info e) @ Path (tk_req ?t2)) (tk_body ?t2)]"
      let ?again = "\<lambda>w'. route_attempts (\<lambda>_. (gf, gf)) net req body model ws n (Suc a) (tried @ [wid_of e]) ?sent (dec ?r1 (wid_of e)) w'"
      have again: "ends_as s i (dec ?r1 (wid_of e)) (?t2\<lparr>tk_sent := ?sent, tk_response := w', tk_phase := Trying\<rparr>) (?again w')" for w'
        by (rule Suc.IH [OF gf]) (use Suc.prems(2) in simp)
      have "ends_as s i ?r1 ?t2 ?R"
        by (rule ends_as_relay [where again = ?again, OF _ refl _ again])
           (use False pick Inr Suc.prems in \<open>simp_all add: route_attempts.simps Let_def split: sum.split\<close>)
      then have "ends_as s i (r\<lparr>counter := c\<rparr>) ?t1 ?R"
        by (rule ends_as_advance [of undefined, rotated]) (simp add: advance_def)
      then show ?thesis using False cs by (intro ends_as_pick [OF t _ now [unfolded Inr sum.case]]) simp
    qed
  qed
qed

lemma tasks_update: "s\<lparr>rs_tasks := m\<rparr> = \<lparr>rs_router = rs_router s, rs_tasks = m\<rparr>" for s :: rsys
  by (cases s) simp

section \<open>Properties\<close>

text \<open>
  C17: Accounting under concurrency. Whatever requests are in the router at once and however
  their steps interleave, the in-flight counter of every worker is exactly the number of requests
  that are with this worker (or have crashed while relaying its answer and left their slot behind),
  as long as there are fewer than \<open>2 ^ 63\<close> requests; the metrics hook has been called exactly once
  for each finished request, with its model and result, and for no other; and every request,
  at any time, has tried distinct workers out of those the registry gave it, at most three, sent
  them nothing but its own method and body, and written nothing to its client while it may still try another.
\<close>

theorem concurrent_accounting:
  assumes "reach router_start route_step s"
  shows "(card (dom (rs_tasks s)) < 2 ^ 63 \<longrightarrow>
      getInFlight (rs_router s) wid = int (card (occupying s wid))) \<and>
    mset (hookCalls (rs_router s)) = (if hasHook (rs_router s) then reports s else {#}) \<and>
    (\<forall>i t. rs_tasks s i = Some t \<longrightarrow>
      distinct (tk_tried t) \<and> length (tk_tried t) \<le> 3 \<and> set (tk_tried t) \<subseteq> wid_of ` set (tk_workers t) \<and>
      length (tk_sent t) \<le> length (tk_tried t) \<and>
      (\<forall>out \<in> set (tk_sent t). og_method out = Method (tk_req t) \<and> og_body out = tk_body t) \<and>
      (silent (tk_phase t) \<longrightarrow> tk_response t = new_response))"
proof -
  have inv: "router_inv s" by (rule routersys.reach_inv [OF assms])
  then show ?thesis using in_flight_counted by (fastforce simp: router_inv_def task_ok_def)
qed

text \<open>
  C24: The handler is the run of a request that nobody disturbs. From any state of the router, a
  request that arrives and runs without steps of other requests in between goes through exactly what
  the handler computes from the current counts: it ends with the same router, response, requests
  sent and workers tried, and with a panic exactly if the handler panics.
\<close>

theorem undisturbed_request_is_handler:
  assumes "rs_tasks s i = None" and "routable parse req model" and "Body req = Some body"
    and "keyed_registry rg" and "range_order (workers rg) ks" and "HealthyWorkersForModel rg ks model \<noteq> []"
    and "R = handleInference parse (\<lambda>_. (getInFlight (rs_router s), getInFlight (rs_router s))) net rg ks (rs_router s) req"
  shows "\<exists>es t. run route_step s (RArrive i # es) \<lparr>rs_router = rr_router R, rs_tasks = (rs_tasks s)(i \<mapsto> t)\<rparr> \<and>
    finished_as R t"
proof -
  let ?ws = "HealthyWorkersForModel rg ks model"
  let ?t = "start_task req body model ?ws"
  have R: "R = route_attempts (\<lambda>_. (getInFlight (rs_router s), getInFlight (rs_router s))) net req body model ?ws
      (min (length ?ws) 3) 1 [] [] (rs_router s) new_response"
    using handleInference_routable [OF assms(2)] assms(3,6,7) by (simp add: Let_def)
  have "route_step s (RArrive i) (task_at s i (rs_router s) ?t)"
    using route_arrive [OF assms(1-5) refl assms(6)] unfolding tasks_update .
  moreover have "ends_as s i (rs_router s) ?t R"
    unfolding R by (rule undisturbed_attempts) (simp_all add: start_task_def)
  ultimately show ?thesis by (blast intro: run.intros)
qed

section \<open>Requests that disturb each other\<close>

fun execute :: "(nat \<times> do_result) list \<Rightarrow> rsys \<Rightarrow> rsys option" where
  "execute [] s = Some s"
| "execute ((i, res) # es) s =
     (case rs_tasks s i of
        None \<Rightarrow> None
      | Some t \<Rightarrow>
          (case advance res (rs_router s) t of
             None \<Rightarrow> None
           | Some (r', t') \<Rightarrow> execute es \<lparr>rs_router = r', rs_tasks = (rs_tasks s)(i \<mapsto> t')\<rparr>))"

lemma execute_reach:
  "execute es s = Some s' \<Longrightarrow> reach start route_step s \<Longrightarrow> reach start route_step s'"
proof (induction es s rule: execute.induct)
  case (2 i res es s)
  then obtain t r' t' where t: "rs_tasks s i = Some t" "advance res (rs_router s) t = Some (r', t')"
    "execute es (task_at s i r' t') = Some s'"
    by (auto split: option.splits)
  have "reach start route_step (task_at s i r' t')"
    by (rule reach.reach_step [OF 2(3) route_advance [OF t(1,2)]])
  then show ?case using 2(1) [OF t(1,2) refl] t(3) by blast
qed simp

definition demo_task :: task where
  "demo_task = start_task demo_request ''body'' ''m'' [demo_candidate ''a'' 1, demo_candidate ''b'' 2]"

definition demo_crowd :: rsys where
  "demo_crowd = \<lparr>rs_router = Router_New True, rs_tasks = [0 \<mapsto> demo_task, 1 \<mapsto> demo_task, 2 \<mapsto> demo_task]\<rparr>"

lemma demo_crowd_reach: "reach router_start route_step demo_crowd"
proof -
  let ?s = "\<lambda>m. \<lparr>rs_router = Router_New True, rs_tasks = m\<rparr>"
  have body: "Body demo_request = Some ''body''" by (simp add: demo_request_def)
  have ne: "[demo_candidate ''a'' 1, demo_candidate ''b'' 2] \<noteq> []" by simp
  have arrive: "reach router_start route_step (?s (m(i \<mapsto> demo_task)))"
    if "reach router_start route_step (?s m)" "m i = None" for m i
  proof -
    have "route_step (?s m) (RArrive i) (?s (m(i \<mapsto> demo_task)))"
      using route_arrive [of "?s m" i, OF _ demo_pair_ok(3) body demo_pair_ok(1,2) demo_pair_ok(6) [symmetric] ne] that(2)
      by (simp add: demo_task_def)
    then show ?thesis by (rule reach.reach_step [OF that(1)])
  qed
  have "reach router_start route_step (?s Map.empty)"
    by (rule reach.reach_start) (auto simp: router_start_def)
  then show ?thesis unfolding demo_crowd_def by (intro arrive) simp_all
qed

text \<open>
  Request 0 computes the minimum over both workers; requests 1 and 2 choose one worker each and raise
  its counter; then request 0 looks for the workers at the minimum.
\<close>

definition demo_schedule :: "(nat \<times> do_result) list" where
  "demo_schedule = replicate 4 (0, Unreachable) @ replicate 9 (1, Unreachable) @ replicate 9 (2, Unreachable) @
     replicate 4 (0, Unreachable)"

lemmas demo_race_defs = demo_crowd_def demo_task_def demo_candidate_def start_task_def Router_New_def advance_def
  candidates_def getInFlight_def pick_now_def pickWorker_def min_flight_def min_cost_def inc_def counter64_def Let_def f64_eq_def

lemma demo_race:
  "\<exists>s t. execute demo_schedule demo_crowd = Some s \<and> rs_tasks s 0 = Some t \<and>
     tk_phase t = Crashed IndexOutOfRange None \<and> tk_response t = new_response \<and> tk_sent t = [] \<and>
     length (tk_workers t) = 2 \<and> list_all (\<lambda>e. healthy_state (State e)) (tk_workers t)"
  by (simp add: demo_schedule_def numeral_eq_Suc demo_race_defs healthy_state_def)

text \<open>
  C35: Requests that arrive together can crash each other. There is a run of the router with two
  healthy workers and three requests in which one request's handler panics with an index out of
  range before it has contacted any worker or written anything, although both workers are
  up: between its two passes over the counters the other requests raised both, so that no worker is at
  the minimum it has computed.
\<close>

theorem racing_request_crashes:
  "\<exists>s t. reach router_start route_step s \<and> rs_tasks s 0 = Some t \<and>
     tk_phase t = Crashed IndexOutOfRange None \<and> tk_response t = new_response \<and> tk_sent t = [] \<and>
     length (tk_workers t) = 2 \<and> list_all (\<lambda>e. healthy_state (State e)) (tk_workers t)"
  using demo_race execute_reach [OF _ demo_crowd_reach] by blast

subsection \<open>Witnesses\<close>

lemma demo_one_busy:
  "\<exists>s. execute (replicate 9 (1, Unreachable)) demo_crowd = Some s \<and>
     getInFlight (rs_router s) ''a'' = 1 \<and> dom (rs_tasks s) = {0, 1, 2}"
  by (simp add: numeral_eq_Suc demo_race_defs) auto

theorem concurrent_accounting_witness:
  "\<exists>s. reach router_start route_step s \<and> getInFlight (rs_router s) ''a'' = 1 \<and> card (occupying s ''a'') = 1"
proof -
  obtain s where s: "execute (replicate 9 (1, Unreachable)) demo_crowd = Some s"
    "getInFlight (rs_router s) ''a'' = 1" "dom (rs_tasks s) = {0, 1, 2}"
    using demo_one_busy by blast
  have r: "reach router_start route_step s" by (rule execute_reach [OF s(1) demo_crowd_reach])
  from concurrent_accounting [OF r, of "''a''"] s(2,3) have "card (occupying s ''a'') = 1" by simp
  then show ?thesis using r s(2) by blast
qed

theorem undisturbed_request_is_handler_witness:
  "\<exists>es u t. run route_step \<lparr>rs_router = Router_New True, rs_tasks = Map.empty\<rparr> es u \<and> rs_tasks u 0 = Some t \<and>
     tk_response t = rr_response (handleInference demo_parse
       (\<lambda>_. (getInFlight (Router_New True), getInFlight (Router_New True))) demo_net demo_pair [''a'', ''b''] (Router_New True) demo_request)"
proof -
  let ?s = "\<lparr>rs_router = Router_New True, rs_tasks = Map.empty\<rparr>"
  define R where "R = handleInference demo_parse (\<lambda>_. (getInFlight (rs_router ?s), getInFlight (rs_router ?s)))
    demo_net demo_pair [''a'', ''b''] (rs_router ?s) demo_request"
  have "rs_tasks ?s 0 = None" "Body demo_request = Some ''body''"
    "HealthyWorkersForModel demo_pair [''a'', ''b''] ''m'' \<noteq> []"
    by (simp_all add: demo_request_def demo_pair_ok(6))
  from undisturbed_request_is_handler [OF this(1) demo_pair_ok(3) this(2) demo_pair_ok(1,2) this(3) R_def]
  obtain es t where "run route_step ?s (RArrive 0 # es) (task_at ?s 0 (rr_router R) t)" and "finished_as R t" by blast
  moreover have "rs_tasks (task_at ?s 0 (rr_router R) t) 0 = Some t" by simp
  moreover have "tk_response t = rr_response R" using \<open>finished_as R t\<close> by (simp add: finished_as_def)
  ultimately have "\<exists>es u t. run route_step ?s es u \<and> rs_tasks u 0 = Some t \<and> tk_response t = rr_response R" by blast
  then show ?thesis unfolding R_def rsys.select_convs .
qed

end
