(* ===== verification/Fleet_Admin.thy ===== *)
theory Fleet_Admin
  imports Router_Failover Go_Strings
begin

text \<open>
  The control plane's admin API (\<^verbatim>\<open>control-plane/api/admin.go\<close>) and its Prometheus collector
  (\<^verbatim>\<open>control-plane/metrics/metrics.go\<close>): views of the registry and of the router's counters.

  A handler reads the registry and the router at instants of its own, so that the states it
  reads are separate arguments; the orders in which maps are visited are arguments too.
  JSON values are printed by \<open>render\<close>, doubles by \<open>num\<close>, instants by \<open>fmt_time\<close>. The encoder
  refuses NaN and the infinities, and instants outside the years 0 to 9999; then nothing is
  written after the status, as the handlers ignore the error.
\<close>

section \<open>Response shapes\<close>

record loadResp =
  lo_QueueDepth :: uint32
  lo_RequestsPerSec :: float64
  lo_AvgLatencyMs :: float64
  lo_VramUsedMB :: uint64

record workerResp =
  wr_ID :: string
  wr_Address :: string
  wr_State :: string
  wr_Backend :: string
  wr_Provider :: string
  wr_Hardware :: string
  wr_Models :: "string list"
  wr_CostPerHour :: float64
  wr_RegisteredAt :: time
  wr_LastHeartbeat :: time
  wr_DrainRequested :: bool
  wr_InFlight :: int
  wr_Load :: loadResp

record modelResp =
  mr_Model :: string
  mr_TotalWorkers :: nat
  mr_HealthyWorkers :: nat
  mr_TotalInFlight :: int

record statsResp =
  sr_Total :: nat
  sr_Healthy :: nat
  sr_Starting :: nat
  sr_Draining :: nat
  sr_Dead :: nat
  sr_TotalInFlight :: int
  sr_FleetCostPerHour :: float64

definition state_String :: "WorkerState \<Rightarrow> string" where
  "state_String s =
     (case s of STARTING \<Rightarrow> ''STARTING'' | READY \<Rightarrow> ''READY'' | BUSY \<Rightarrow> ''BUSY'' | DRAINING \<Rightarrow> ''DRAINING''
      | DEAD \<Rightarrow> ''DEAD'' | Unrecognized n \<Rightarrow> Itoa n)"

definition toWorkerResp :: "WorkerEntry \<Rightarrow> int \<Rightarrow> workerResp" where
  "toWorkerResp e n =
     \<lparr>wr_ID = WorkerId (Info e), wr_Address = Address (Info e), wr_State = state_String (State e),
      wr_Backend = Backend (Info e), wr_Provider = Provider (Info e), wr_Hardware = Hardware (Info e),
      wr_Models = ModelsLoaded (Info e), wr_CostPerHour = CostPerHour (Info e),
      wr_RegisteredAt = RegisteredAt e, wr_LastHeartbeat = LastHeartbeat e,
      wr_DrainRequested = DrainRequested e, wr_InFlight = n,
      wr_Load = \<lparr>lo_QueueDepth = QueueDepth (Load e), lo_RequestsPerSec = RequestsPerSec (Load e),
                 lo_AvgLatencyMs = AvgLatencyMs (Load e),
                 lo_VramUsedMB = VramUsedBytes (Load e) div 1024 div 1024\<rparr>\<rparr>"

section \<open>Encoding\<close>

record printer =
  pr_render :: "json \<Rightarrow> bytes"
  pr_num :: "float64 \<Rightarrow> string"
  pr_time :: "time \<Rightarrow> string option"

definition float_json :: "printer \<Rightarrow> float64 \<Rightarrow> json option" where
  "float_json p x = (case x of Fin _ \<Rightarrow> Some (JNum (pr_num p x)) | _ \<Rightarrow> None)"

definition int_json :: "int \<Rightarrow> json" where
  "int_json i = JNum (Itoa i)"

fun all_some :: "(string \<times> json option) list \<Rightarrow> (string \<times> json) list option" where
  "all_some [] = Some []"
| "all_some ((k, v) # kvs) =
     (case (v, all_some kvs) of (Some j, Some js) \<Rightarrow> Some ((k, j) # js) | _ \<Rightarrow> None)"

definition object_json :: "(string \<times> json option) list \<Rightarrow> json option" where
  "object_json kvs = map_option JObj (all_some kvs)"

fun array_json :: "json option list \<Rightarrow> json list option" where
  "array_json [] = Some []"
| "array_json (v # vs) = (case (v, array_json vs) of (Some j, Some js) \<Rightarrow> Some (j # js) | _ \<Rightarrow> None)"

text \<open>A worker without models has a nil slice, which is written as null.\<close>

definition strings_json :: "string list \<Rightarrow> json" where
  "strings_json ss = (if ss = [] then JNull else JArr (map JStr ss))"

definition load_json :: "printer \<Rightarrow> loadResp \<Rightarrow> json option" where
  "load_json p l = object_json
     [(''queue_depth'', Some (int_json (uint (lo_QueueDepth l)))),
      (''requests_per_sec'', float_json p (lo_RequestsPerSec l)),
      (''avg_latency_ms'', float_json p (lo_AvgLatencyMs l)),
      (''vram_used_mb'', Some (int_json (uint (lo_VramUsedMB l))))]"

definition worker_json :: "printer \<Rightarrow> workerResp \<Rightarrow> json option" where
  "worker_json p x = object_json
     [(''id'', Some (JStr (wr_ID x))), (''address'', Some (JStr (wr_Address x))),
      (''state'', Some (JStr (wr_State x))), (''backend'', Some (JStr (wr_Backend x))),
      (''provider'', Some (JStr (wr_Provider x))), (''hardware'', Some (JStr (wr_Hardware x))),
      (''models'', Some (strings_json (wr_Models x))), (''cost_per_hour'', float_json p (wr_CostPerHour x)),
      (''registered_at'', map_option JStr (pr_time p (wr_RegisteredAt x))),
      (''last_heartbeat'', map_option JStr (pr_time p (wr_LastHeartbeat x))),
      (''drain_requested'', Some (JBool (wr_DrainRequested x))),
      (''in_flight'', Some (int_json (wr_InFlight x))), (''load'', load_json p (wr_Load x))]"

definition model_json :: "modelResp \<Rightarrow> json" where
  "model_json x = JObj
     [(''model'', JStr (mr_Model x)), (''total_workers'', int_json (int (mr_TotalWorkers x))),
      (''healthy_workers'', int_json (int (mr_HealthyWorkers x))),
      (''total_in_flight'', int_json (mr_TotalInFlight x))]"

definition fleet_stats_json :: "printer \<Rightarrow> statsResp \<Rightarrow> json option" where
  "fleet_stats_json p s = object_json
     [(''total'', Some (int_json (int (sr_Total s)))), (''healthy'', Some (int_json (int (sr_Healthy s)))),
      (''starting'', Some (int_json (int (sr_Starting s)))), (''draining'', Some (int_json (int (sr_Draining s)))),
      (''dead'', Some (int_json (int (sr_Dead s)))), (''total_in_flight'', Some (int_json (sr_TotalInFlight s))),
      (''fleet_cost_per_hour'', float_json p (sr_FleetCostPerHour s))]"

definition api_writeJSON :: "printer \<Rightarrow> int \<Rightarrow> json option \<Rightarrow> response \<Rightarrow> response" where
  "api_writeJSON p status v w =
     (let w' = commit_status status (set_header ''Content-Type'' ''application/json'' w)
      in case v of None \<Rightarrow> w' | Some j \<Rightarrow> write_body (pr_render p j @ [CHR 0x0A]) w')"

section \<open>Handlers\<close>

text \<open>Reading a Go map at an absent key gives zero; sums of 64-bit integers wrap.\<close>

definition map_int :: "(string \<rightharpoonup> int) \<Rightarrow> string \<Rightarrow> int" where
  "map_int m k = (case m k of None \<Rightarrow> 0 | Some n \<Rightarrow> n)"

definition add64 :: "int \<Rightarrow> int \<Rightarrow> int" where
  "add64 a b = sint (word_of_int (a + b) :: 64 word)"

definition listWorkers :: "Router \<Rightarrow> Registry \<Rightarrow> string list \<Rightarrow> workerResp list" where
  "listWorkers rtr r ks =
     (let n = InFlightSnapshot rtr
      in map (\<lambda>e. toWorkerResp e (map_int n (WorkerId (Info e)))) (ListWorkers r ks))"

definition handle_listWorkers :: "printer \<Rightarrow> Router \<Rightarrow> Registry \<Rightarrow> string list \<Rightarrow> response \<Rightarrow> response" where
  "handle_listWorkers p rtr r ks w =
     api_writeJSON p 200 (map_option JArr (array_json (map (worker_json p) (listWorkers rtr r ks)))) w"

definition getWorker :: "printer \<Rightarrow> Router \<Rightarrow> Registry \<Rightarrow> string \<Rightarrow> response \<Rightarrow> response" where
  "getWorker p rtr r wid w =
     (case GetWorker r wid of
        None \<Rightarrow> api_writeJSON p 404 (Some (JObj [(''error'', JStr ''worker not found'')])) w
      | Some entry \<Rightarrow> api_writeJSON p 200 (worker_json p (toWorkerResp entry (map_int (InFlightSnapshot rtr) wid))) w)"

fun reg_err_text :: "reg_error \<Rightarrow> string" where
  "reg_err_text (WorkerNotFound wid) = ''worker '' @ wid @ '' not found''"
| "reg_err_text _ = ''''"

definition drainWorker :: "printer \<Rightarrow> Registry \<Rightarrow> string \<Rightarrow> response \<Rightarrow> response \<times> Registry" where
  "drainWorker p r wid w =
     (case RequestDrain r wid of
        (Inl e, r') \<Rightarrow> (api_writeJSON p 404 (Some (JObj [(''error'', JStr (reg_err_text e))])) w, r')
      | (Inr _, r') \<Rightarrow>
          (api_writeJSON p 200 (Some (JObj [(''status'', JStr ''drain requested''), (''worker_id'', JStr wid)])) w, r'))"

definition count_state :: "(string \<rightharpoonup> int) \<Rightarrow> WorkerEntry \<Rightarrow> statsResp \<Rightarrow> statsResp" where
  "count_state n e s =
     (let s1 = (case State e of
                  READY \<Rightarrow> s\<lparr>sr_Healthy := sr_Healthy s + 1,
                              sr_FleetCostPerHour := f64_add (sr_FleetCostPerHour s) (CostPerHour (Info e))\<rparr>
                | BUSY \<Rightarrow> s\<lparr>sr_Healthy := sr_Healthy s + 1,
                             sr_FleetCostPerHour := f64_add (sr_FleetCostPerHour s) (CostPerHour (Info e))\<rparr>
                | STARTING \<Rightarrow> s\<lparr>sr_Starting := sr_Starting s + 1\<rparr>
                | DRAINING \<Rightarrow> s\<lparr>sr_Draining := sr_Draining s + 1\<rparr>
                | DEAD \<Rightarrow> s\<lparr>sr_Dead := sr_Dead s + 1\<rparr>
                | Unrecognized _ \<Rightarrow> s)
      in s1\<lparr>sr_TotalInFlight := add64 (sr_TotalInFlight s1) (map_int n (WorkerId (Info e)))\<rparr>)"

definition stats :: "Registry \<Rightarrow> string list \<Rightarrow> Router \<Rightarrow> statsResp" where
  "stats r ks rtr =
     (let ws = ListWorkers r ks
      in fold (count_state (InFlightSnapshot rtr)) ws
           \<lparr>sr_Total = length ws, sr_Healthy = 0, sr_Starting = 0, sr_Draining = 0, sr_Dead = 0,
            sr_TotalInFlight = 0, sr_FleetCostPerHour = Fin 0\<rparr>)"

definition handle_stats :: "printer \<Rightarrow> Registry \<Rightarrow> string list \<Rightarrow> Router \<Rightarrow> response \<Rightarrow> response" where
  "handle_stats p r ks rtr w = api_writeJSON p 200 (fleet_stats_json p (stats r ks rtr)) w"

text \<open>\<open>r1\<close> is the registry when the models are counted, \<open>r2\<close> when the workers are listed.\<close>

definition append_worker :: "string \<Rightarrow> string \<Rightarrow> (string \<rightharpoonup> string list) \<Rightarrow> (string \<rightharpoonup> string list)" where
  "append_worker wid m by_model = by_model(m \<mapsto> (case by_model m of None \<Rightarrow> [] | Some ws \<Rightarrow> ws) @ [wid])"

definition workersByModel :: "WorkerEntry list \<Rightarrow> (string \<rightharpoonup> string list)" where
  "workersByModel ws = fold (\<lambda>e. fold (append_worker (WorkerId (Info e))) (ModelsLoaded (Info e))) ws Map.empty"

definition listModels ::
  "Registry \<Rightarrow> string list \<Rightarrow> string list \<Rightarrow> Router \<Rightarrow> Registry \<Rightarrow> string list \<Rightarrow> modelResp list" where
  "listModels r1 ks1 ms rtr r2 ks2 =
     (let n = InFlightSnapshot rtr;
          by_model = workersByModel (ListWorkers r2 ks2)
      in map (\<lambda>s. \<lparr>mr_Model = ms_Model s, mr_TotalWorkers = TotalWorkers s, mr_HealthyWorkers = HealthyWorkers s,
                   mr_TotalInFlight = fold (\<lambda>wid t. add64 t (map_int n wid))
                     (case by_model (ms_Model s) of None \<Rightarrow> [] | Some ws \<Rightarrow> ws) 0\<rparr>)
           (ModelsServed r1 ks1 ms))"

definition handle_listModels ::
  "printer \<Rightarrow> Registry \<Rightarrow> string list \<Rightarrow> string list \<Rightarrow> Router \<Rightarrow> Registry \<Rightarrow> string list \<Rightarrow> response \<Rightarrow> response" where
  "handle_listModels p r1 ks1 ms rtr r2 ks2 w =
     api_writeJSON p 200 (Some (JArr (map model_json (listModels r1 ks1 ms rtr r2 ks2)))) w"

section \<open>Routing\<close>

text \<open>
  The request multiplexer on clean paths without escapes: a path is its segments, a
  wildcard matches one non-empty segment, a GET pattern serves GET and HEAD, a path known
  with another method is a 405. The registry is read at one instant here.
\<close>

datatype admin_route =
    RListWorkers
  | RGetWorker string
  | RDrain string
  | RStats
  | RModels
  | RMetrics
  | RBadMethod string
  | RUnknown

definition get_route :: "string \<Rightarrow> admin_route \<Rightarrow> admin_route" where
  "get_route m route = (if m = ''GET'' \<or> m = ''HEAD'' then route else RBadMethod ''GET, HEAD'')"

definition admin_route_of :: "string \<Rightarrow> string \<Rightarrow> admin_route" where
  "admin_route_of m path =
     (case split_on (CHR ''/'') path of
        [a, b] \<Rightarrow> if a = '''' \<and> b = ''metrics'' then get_route m RMetrics else RUnknown
      | [a, b, c] \<Rightarrow>
          if a \<noteq> '''' \<or> b \<noteq> ''admin'' then RUnknown
          else if c = ''workers'' then get_route m RListWorkers
          else if c = ''stats'' then get_route m RStats
          else if c = ''models'' then get_route m RModels else RUnknown
      | [a, b, c, d] \<Rightarrow>
          if a = '''' \<and> b = ''admin'' \<and> c = ''workers'' \<and> d \<noteq> '''' then get_route m (RGetWorker d) else RUnknown
      | [a, b, c, d, e] \<Rightarrow>
          if a = '''' \<and> b = ''admin'' \<and> c = ''workers'' \<and> d \<noteq> '''' \<and> e = ''drain''
          then (if m = ''POST'' then RDrain d else RBadMethod ''POST'') else RUnknown
      | _ \<Rightarrow> RUnknown)"

definition NewAdminHandler ::
  "printer \<Rightarrow> (http_request \<Rightarrow> response \<Rightarrow> response) \<Rightarrow> Router \<Rightarrow> string list \<Rightarrow> string list \<Rightarrow>
     http_request \<Rightarrow> response \<Rightarrow> Registry \<Rightarrow> response \<times> Registry" where
  "NewAdminHandler p metricsHandler rtr ks ms req w r =
     (case admin_route_of (Method req) (Path req) of
        RListWorkers \<Rightarrow> (handle_listWorkers p rtr r ks w, r)
      | RGetWorker wid \<Rightarrow> (getWorker p rtr r wid w, r)
      | RDrain wid \<Rightarrow> drainWorker p r wid w
      | RStats \<Rightarrow> (handle_stats p r ks rtr w, r)
      | RModels \<Rightarrow> (handle_listModels p r ks ms rtr r ks w, r)
      | RMetrics \<Rightarrow> (metricsHandler req w, r)
      | RBadMethod allow \<Rightarrow> (http_Error ''Method Not Allowed'' 405 (set_header ''Allow'' allow w), r)
      | RUnknown \<Rightarrow> (http_Error ''404 page not found'' 404 w, r))"

section \<open>A value that cannot be encoded\<close>

text \<open>
  One worker with a NaN cost (the flag of the worker program accepts it) blanks the whole
  listing: the status is 200 and the body is empty.
\<close>

lemma array_json_None: "None \<in> set vs \<Longrightarrow> array_json vs = None"
  by (induction vs) (auto split: option.splits)

lemma all_some_None: "(k, None) \<in> set kvs \<Longrightarrow> all_some kvs = None"
  by (induction kvs) (auto split: option.splits)

lemma nan_cost_blanks_listing:
  assumes "e \<in> set (ListWorkers r ks)" and "CostPerHour (Info e) = NaN"
  shows "rbody (handle_listWorkers p rtr r ks new_response) = [] \<and>
    rstatus (handle_listWorkers p rtr r ks new_response) = Some 200"
proof -
  have "worker_json p (toWorkerResp e n) = None" for n
    unfolding worker_json_def object_json_def
    by (subst all_some_None [of "''cost_per_hour''"]) (simp_all add: toWorkerResp_def float_json_def assms(2))
  then have "None \<in> set (map (worker_json p) (listWorkers rtr r ks))"
    using imageI [OF assms(1), of "\<lambda>e. worker_json p (toWorkerResp e (map_int (InFlightSnapshot rtr) (WorkerId (Info e))))"]
    by (simp only: listWorkers_def Let_def map_map comp_def set_map)
  then show ?thesis by (simp add: handle_listWorkers_def api_writeJSON_def array_json_None Let_def)
qed

end
