(* ===== verification/Worker_Agent.thy ===== *)
theory Worker_Agent
  imports Fleet_Admin
begin

text \<open>
  The worker programs (\<^verbatim>\<open>worker/cmd/mock/main.go\<close>, \<^verbatim>\<open>worker/cmd/ollama/main.go\<close>): registration,
  the heartbeat loop, the load reports and the shutdown, beside a registry that other
  workers, the scaler, the admin API and the timers use at the same time.

  A call of the registry over the network is delivered, or its request is lost, or its
  answer is lost; the client sees an error in the last two cases. Draws of the random
  generator and what Ollama answers are arguments.
\<close>

section \<open>State\<close>

record agent =
  ag_id :: string
  ag_state :: WorkerState
  ag_heartbeating :: bool
  ag_drained :: bool
  ag_stopped :: bool
  ag_done :: bool

definition new_agent :: "string \<Rightarrow> WorkerState \<Rightarrow> agent" where
  "new_agent wid st =
     \<lparr>ag_id = wid, ag_state = st, ag_heartbeating = True, ag_drained = False, ag_stopped = False, ag_done = False\<rparr>"

datatype rpc_fate = Delivered | RequestLost | ResponseLost

definition rpc :: "rpc_fate \<Rightarrow> ('r \<Rightarrow> ('e + 'a) \<times> 'r) \<Rightarrow> 'r \<Rightarrow> 'a option \<times> 'r" where
  "rpc fate call r =
     (case fate of
        RequestLost \<Rightarrow> (None, r)
      | ResponseLost \<Rightarrow> (None, snd (call r))
      | Delivered \<Rightarrow> (case call r of (Inl _, r') \<Rightarrow> (None, r') | (Inr x, r') \<Rightarrow> (Some x, r')))"

section \<open>Starting\<close>

record mock_flags =
  mf_cp :: string
  mf_id :: string
  mf_addr :: string
  mf_models :: string
  mf_backend :: string
  mf_provider :: string
  mf_hardware :: string
  mf_vram :: uint64
  mf_cost :: float64
  mf_crash :: bool
  mf_modelLoadTime :: duration
  mf_reportLoadEvery :: duration

definition mock_info :: "mock_flags \<Rightarrow> WorkerInfo" where
  "mock_info f =
     \<lparr>WorkerId = mf_id f, Address = mf_addr f, GpuType = mf_hardware f, VramBytes = mf_vram f,
      ModelsLoaded = split_on (CHR '','') (mf_models f), Backend = mf_backend f, Provider = mf_provider f,
      Hardware = mf_hardware f, CostPerHour = mf_cost f\<rparr>"

text \<open>
  The worker that runs on, if any, and its heartbeat interval: a failed registration ends the
  program, as does the crash mode. A target that the gRPC client refuses ends it before
  anything is sent, as a lost request does.
\<close>

definition heartbeatInterval :: "RegisterResponse \<Rightarrow> duration" where
  "heartbeatInterval resp = uint (HeartbeatIntervalSecs resp) * Second"

definition mock_start ::
  "mock_flags \<Rightarrow> rpc_fate \<Rightarrow> time \<Rightarrow> time \<Rightarrow> Registry \<Rightarrow> (agent \<times> duration) option \<times> Registry" where
  "mock_start f fate t1 t2 r =
     (case rpc fate (\<lambda>r. Register r (mock_info f) t1 t2) r of
        (None, r') \<Rightarrow> (None, r')
      | (Some resp, r') \<Rightarrow>
          (if mf_crash f then None else Some (new_agent (mf_id f) STARTING, heartbeatInterval resp), r'))"

record ollama_flags =
  of_cp :: string
  of_id :: string
  of_ollamaAddr :: string
  of_provider :: string
  of_hardware :: string
  of_vram :: uint64
  of_cost :: float64
  of_reportLoadEvery :: duration

definition ollama_info :: "ollama_flags \<Rightarrow> string list \<Rightarrow> WorkerInfo" where
  "ollama_info f models =
     \<lparr>WorkerId = of_id f, Address = of_ollamaAddr f, GpuType = '''', VramBytes = of_vram f,
      ModelsLoaded = models, Backend = ''ollama'', Provider = of_provider f,
      Hardware = of_hardware f, CostPerHour = of_cost f\<rparr>"

text \<open>\<open>found\<close> is what \<^verbatim>\<open>ollamaModels\<close> returns.\<close>

definition ollama_start ::
  "ollama_flags \<Rightarrow> string list option \<Rightarrow> rpc_fate \<Rightarrow> time \<Rightarrow> time \<Rightarrow> Registry \<Rightarrow>
     (agent \<times> duration) option \<times> Registry" where
  "ollama_start f found fate t1 t2 r =
     (case found of
        None \<Rightarrow> (None, r)
      | Some models \<Rightarrow>
          if models = [] then (None, r)
          else case rpc fate (\<lambda>r. Register r (ollama_info f models) t1 t2) r of
                 (None, r') \<Rightarrow> (None, r')
               | (Some resp, r') \<Rightarrow> (Some (new_agent (of_id f) READY, heartbeatInterval resp), r'))"

section \<open>The loops\<close>

text \<open>
  One tick of the heartbeat loop. \<open>t1\<close>, \<open>t2\<close> are the registry's clock readings of the first
  call, \<open>u1\<close>, \<open>u2\<close> those of the second; \<open>between\<close> is what others do to the registry between
  the two calls.
\<close>

definition heartbeat_tick ::
  "rpc_fate \<Rightarrow> rpc_fate \<Rightarrow> time \<Rightarrow> time \<Rightarrow> (Registry \<Rightarrow> Registry) \<Rightarrow> time \<Rightarrow> time \<Rightarrow> agent \<Rightarrow> Registry \<Rightarrow>
     agent \<times> Registry" where
  "heartbeat_tick fate1 fate2 t1 t2 between u1 u2 a r =
     (case rpc fate1 (\<lambda>r. Heartbeat r \<lparr>hb_WorkerId = ag_id a, hb_State = ag_state a\<rparr> t1 t2) r of
        (None, r1) \<Rightarrow> (a, r1)
      | (Some resp, r1) \<Rightarrow>
          if Drain resp
          then (a\<lparr>ag_state := DRAINING, ag_drained := True, ag_heartbeating := False\<rparr>,
                snd (rpc fate2 (\<lambda>r. Heartbeat r \<lparr>hb_WorkerId = ag_id a, hb_State = DRAINING\<rparr> u1 u2) (between r1)))
          else (a, r1))"

definition model_loaded :: "agent \<Rightarrow> agent" where
  "model_loaded a = a\<lparr>ag_state := READY\<rparr>"

definition load_tick :: "rpc_fate \<Rightarrow> LoadReport \<Rightarrow> Registry \<Rightarrow> Registry" where
  "load_tick fate report r = snd (rpc fate (\<lambda>r. ReportLoad r report) r)"

text \<open>A signal or the end of the drain: the heartbeat loop is stopped and the worker deregisters.\<close>

definition shutdown :: "rpc_fate \<Rightarrow> agent \<Rightarrow> Registry \<Rightarrow> agent \<times> Registry" where
  "shutdown fate a r =
     (a\<lparr>ag_stopped := True, ag_heartbeating := False, ag_done := True\<rparr>,
      snd (rpc fate (\<lambda>r. Deregister r \<lparr>dr_WorkerId = ag_id a\<rparr>) r))"

text \<open>
  The Ollama worker's own heartbeat loop and shutdown. It is \<open>READY\<close> from the start, since
  Ollama has its models loaded already, and nothing but the drain changes its state.
\<close>

definition ollama_heartbeat_tick ::
  "rpc_fate \<Rightarrow> rpc_fate \<Rightarrow> time \<Rightarrow> time \<Rightarrow> (Registry \<Rightarrow> Registry) \<Rightarrow> time \<Rightarrow> time \<Rightarrow> agent \<Rightarrow> Registry \<Rightarrow>
     agent \<times> Registry" where
  "ollama_heartbeat_tick fate1 fate2 t1 t2 between u1 u2 a r =
     (let s = ag_state a;
          (hbResp, r1) = rpc fate1 (\<lambda>r. Heartbeat r \<lparr>hb_WorkerId = ag_id a, hb_State = s\<rparr> t1 t2) r
      in case hbResp of
           None \<Rightarrow> (a, r1)
         | Some resp \<Rightarrow>
             if \<not> Drain resp then (a, r1)
             else let a' = a\<lparr>ag_state := DRAINING\<rparr>;
                      (_, r2) = rpc fate2 (\<lambda>r. Heartbeat r \<lparr>hb_WorkerId = ag_id a, hb_State = DRAINING\<rparr> u1 u2) (between r1)
                  in (a'\<lparr>ag_drained := True, ag_heartbeating := False\<rparr>, r2))"

definition ollama_shutdown :: "rpc_fate \<Rightarrow> agent \<Rightarrow> Registry \<Rightarrow> agent \<times> Registry" where
  "ollama_shutdown fate a r =
     (let a' = a\<lparr>ag_stopped := True, ag_heartbeating := False\<rparr>;
          (_, r') = rpc fate (\<lambda>r. Deregister r \<lparr>dr_WorkerId = ag_id a\<rparr>) r
      in (a'\<lparr>ag_done := True\<rparr>, r'))"

section \<open>Load reports\<close>

text \<open>\<open>x\<close>, \<open>y\<close> are the draws of \<^verbatim>\<open>rand.Float64\<close>, \<open>i\<close>, \<open>j\<close> those of \<^verbatim>\<open>rand.Intn\<close>, in the order of the fields.\<close>

definition fakeLoad ::
  "float64 \<Rightarrow> float64 \<Rightarrow> nat \<Rightarrow> nat \<Rightarrow> string \<Rightarrow> WorkerState \<Rightarrow> uint64 \<Rightarrow> LoadReport" where
  "fakeLoad x y i j workerID st vramBytes =
     (case st of
        READY \<Rightarrow>
          \<lparr>lr_WorkerId = workerID, QueueDepth = 0, RequestsPerSec = f64_mul x (Fin 2),
           AvgLatencyMs = f64_add (Fin 80) (f64_mul y (Fin 40)),
           VramUsedBytes = vramBytes * of_nat (30 + j) div 100\<rparr>
      | BUSY \<Rightarrow>
          \<lparr>lr_WorkerId = workerID, QueueDepth = of_nat (1 + i),
           RequestsPerSec = f64_add (Fin 5) (f64_mul x (Fin 15)),
           AvgLatencyMs = f64_add (Fin 200) (f64_mul y (Fin 300)),
           VramUsedBytes = vramBytes * of_nat (60 + j) div 100\<rparr>
      | _ \<Rightarrow> zero_load workerID)"

text \<open>
  Decoding an array into a slice of structs: an element is decoded over the element the
  slice's memory already holds at that index, if there is one (from an earlier occurrence
  of the key), and over a zero value otherwise. The slice is its memory and its length.
\<close>

type_synonym 'a slice = "'a list \<times> nat"

fun decode_elems :: "('a \<Rightarrow> json \<Rightarrow> 'a \<times> bool) \<Rightarrow> 'a \<Rightarrow> json list \<Rightarrow> 'a list \<Rightarrow> 'a list \<times> bool" where
  "decode_elems elem zero [] mem = (mem, False)"
| "decode_elems elem zero (j # js) mem =
     (let (v, bad) = elem (case mem of [] \<Rightarrow> zero | x # _ \<Rightarrow> x) j;
          (vs, bads) = decode_elems elem zero js (tl mem)
      in (v # vs, bad \<or> bads))"

definition decode_slice :: "('a \<Rightarrow> json \<Rightarrow> 'a \<times> bool) \<Rightarrow> 'a \<Rightarrow> json \<Rightarrow> 'a slice \<Rightarrow> 'a slice \<times> bool" where
  "decode_slice elem zero v s =
     (case v of
        JNull \<Rightarrow> (([], 0), False)
      | JArr js \<Rightarrow>
          (if js = [] then (([], 0), False)
           else let (mem, bad) = decode_elems elem zero js (fst s) in ((mem, length js), bad))
      | _ \<Rightarrow> (s, True))"

fun decode_slice_field ::
  "('a \<Rightarrow> json \<Rightarrow> 'a \<times> bool) \<Rightarrow> 'a \<Rightarrow> string \<Rightarrow> (string \<times> json) list \<Rightarrow> 'a slice \<times> bool \<Rightarrow> 'a slice \<times> bool" where
  "decode_slice_field elem zero f [] acc = acc"
| "decode_slice_field elem zero f ((k, v) # ms) (s, bad) =
     decode_slice_field elem zero f ms
       (if same_field k f then (let (s', b) = decode_slice elem zero v s in (s', bad \<or> b)) else (s, bad))"

definition unmarshal_slice_field :: "('a \<Rightarrow> json \<Rightarrow> 'a \<times> bool) \<Rightarrow> 'a \<Rightarrow> string \<Rightarrow> json \<Rightarrow> 'a list option" where
  "unmarshal_slice_field elem zero f j =
     (case j of
        JObj ms \<Rightarrow>
          (case decode_slice_field elem zero f ms (([], 0), False) of
             ((mem, n), bad) \<Rightarrow> if bad then None else Some (take n mem))
      | JNull \<Rightarrow> Some []
      | _ \<Rightarrow> None)"

definition name_elem :: "string \<Rightarrow> json \<Rightarrow> string \<times> bool" where
  "name_elem cur j =
     (case j of JObj ms \<Rightarrow> decode_string ''name'' ms (cur, False) | JNull \<Rightarrow> (cur, False) | _ \<Rightarrow> (cur, True))"

definition decode_uint64 :: "uint64 \<Rightarrow> json \<Rightarrow> uint64 \<times> bool" where
  "decode_uint64 cur j =
     (case j of
        JNum s \<Rightarrow> (case parse_uint s 0 of (n, None) \<Rightarrow> (of_nat n, False) | _ \<Rightarrow> (cur, True))
      | JNull \<Rightarrow> (cur, False)
      | _ \<Rightarrow> (cur, True))"

fun vram_fields :: "(string \<times> json) list \<Rightarrow> uint64 \<times> bool \<Rightarrow> uint64 \<times> bool" where
  "vram_fields [] acc = acc"
| "vram_fields ((k, v) # ms) (cur, bad) =
     vram_fields ms
       (if same_field k ''size_vram'' then (let (c, b) = decode_uint64 cur v in (c, bad \<or> b)) else (cur, bad))"

definition vram_elem :: "uint64 \<Rightarrow> json \<Rightarrow> uint64 \<times> bool" where
  "vram_elem cur j =
     (case j of JObj ms \<Rightarrow> vram_fields ms (cur, False) | JNull \<Rightarrow> (cur, False) | _ \<Rightarrow> (cur, True))"

text \<open>\<open>answer\<close> is the body of the HTTP answer, nothing if there was none; the status is not looked at.\<close>

definition ollamaModels :: "(bytes \<Rightarrow> json option) \<Rightarrow> bytes option \<Rightarrow> string list option" where
  "ollamaModels parse answer =
     Option.bind (Option.bind answer parse) (unmarshal_slice_field name_elem '''' ''models'')"

definition ollamaLoad :: "(bytes \<Rightarrow> json option) \<Rightarrow> bytes option \<Rightarrow> string \<Rightarrow> LoadReport" where
  "ollamaLoad parse answer workerID =
     (case Option.bind (Option.bind answer parse) (unmarshal_slice_field vram_elem 0 ''models'') of
        None \<Rightarrow> zero_load workerID
      | Some sizes \<Rightarrow> (zero_load workerID)\<lparr>VramUsedBytes := fold (\<lambda>m t. t + m) sizes 0\<rparr>)"

text \<open>One tick of each program's load loop.\<close>

definition mock_load_tick ::
  "rpc_fate \<Rightarrow> float64 \<Rightarrow> float64 \<Rightarrow> nat \<Rightarrow> nat \<Rightarrow> uint64 \<Rightarrow> agent \<Rightarrow> Registry \<Rightarrow> Registry" where
  "mock_load_tick fate x y i j vram a r = load_tick fate (fakeLoad x y i j (ag_id a) (ag_state a) vram) r"

definition ollama_load_tick ::
  "rpc_fate \<Rightarrow> (bytes \<Rightarrow> json option) \<Rightarrow> bytes option \<Rightarrow> agent \<Rightarrow> Registry \<Rightarrow> Registry" where
  "ollama_load_tick fate parse answer a r = load_tick fate (ollamaLoad parse answer (ag_id a)) r"

section \<open>Both workers speak the same protocol\<close>

text \<open>
  The two programs are written apart, but what they do to the registry is the same, so that
  whatever is shown of the one's loop holds of the other's.
\<close>

lemma ollama_heartbeat_tick_eq: "ollama_heartbeat_tick = heartbeat_tick"
  by (auto simp: fun_eq_iff ollama_heartbeat_tick_def heartbeat_tick_def Let_def split: option.splits prod.splits)

lemma ollama_shutdown_eq: "ollama_shutdown = shutdown"
  by (auto simp: fun_eq_iff ollama_shutdown_def shutdown_def Let_def split: prod.splits)

section \<open>What the load helpers compute\<close>

text \<open>
  A simulated worker reports between 30 and 49 (idle) or 60 and 89 (busy) percent of its
  memory, never more than it has, unless it has so much that the product wraps.
\<close>

lemma fakeLoad_vram_bounded:
  assumes "st = READY \<or> st = BUSY" and "j < 30" and "unat vram * 89 < 2 ^ 64"
  shows "VramUsedBytes (fakeLoad x y i j wid st vram) \<le> vram"
proof -
  have "vram * of_nat (k + j) div 100 \<le> vram" if "k \<le> 60" for k :: nat
  proof -
    have le: "unat vram * (k + j) \<le> unat vram * 89" using that assms(2) by (intro mult_le_mono2) simp
    have "unat (vram * of_nat (k + j)) = unat vram * (k + j)"
    proof -
      have kj: "k + j < 2 ^ 64" using that assms(2) by simp
      have "unat (of_nat (k + j) :: uint64) = k + j"
        using kj by (simp add: unat_of_nat take_bit_eq_mod del: of_nat_add)
      moreover have "unat vram * (k + j) < 2 ^ 64" by (rule le_less_trans [OF le assms(3)])
      ultimately show ?thesis by (simp add: unat_word_ariths del: of_nat_add)
    qed
    then have "unat (vram * of_nat (k + j) div 100) = unat vram * (k + j) div 100" by (simp add: unat_div)
    also have "\<dots> \<le> unat vram * 89 div 100" by (intro div_le_mono le)
    also have "\<dots> \<le> unat vram" by simp
    finally show ?thesis by (simp add: word_le_nat_alt)
  qed
  from this [of 30] this [of 60] show ?thesis using assms(1) by (auto simp: fakeLoad_def)
qed

lemma decode_elems_map:
  assumes "\<And>v. elem zero (enc v) = (v, False)"
  shows "decode_elems elem zero (map enc vs) [] = (vs, False)"
  using assms by (induction vs) auto

lemma ollamaModels_names:
  assumes "parse b = Some (JObj [(''models'', JArr (map (\<lambda>n. JObj [(''name'', JStr n)]) ns))])"
  shows "ollamaModels parse (Some b) = Some ns"
proof -
  have "decode_elems name_elem '''' (map (\<lambda>n. JObj [(''name'', JStr n)]) ns) [] = (ns, False)"
    by (rule decode_elems_map) (simp add: name_elem_def)
  then show ?thesis by (simp add: ollamaModels_def assms unmarshal_slice_field_def decode_slice_def)
qed

lemma ollamaLoad_unreachable: "ollamaLoad parse None wid = zero_load wid"
  by (simp add: ollamaLoad_def)

end
