(* ===== verification/Agent_Steps.thy ===== *)
theory Agent_Steps
  imports Worker_Agent
begin

text \<open>
  A worker program beside the registry: its heartbeat loop, load reports and shutdown
  interleave with every step of the registry that does not register this worker's id. Only
  the start of the program registers, so these are all the steps after it.

  What the worker does to the registry is a run of the registry's own steps, so the
  registry's invariant carries over. The properties follow a drained worker out of the
  fleet, and show that a worker once marked dead never comes back.
\<close>

section \<open>The step relation\<close>

datatype agent_event = AEnv reg_event | ABeat | ALoaded | AReport LoadReport | AShutdown

text \<open>What others may do to the registry between two calls of the worker.\<close>

definition env_between :: "string \<Rightarrow> time \<Rightarrow> time \<Rightarrow> (Registry \<Rightarrow> Registry) \<Rightarrow> bool" where
  "env_between wid t u f \<longleftrightarrow>
     (\<forall>r. \<exists>es s. run reg_step \<lparr>reg = r, clock = t\<rparr> es s \<and> reg s = f r \<and> clock s \<le> u \<and>
        (\<forall>ev \<in> set es. \<not> registers ev wid))"

inductive agent_step :: "agent \<times> fleet \<Rightarrow> agent_event \<Rightarrow> agent \<times> fleet \<Rightarrow> bool" where
  step_env: "\<lbrakk>reg_step s ev t; \<not> registers ev (ag_id a)\<rbrakk> \<Longrightarrow> agent_step (a, s) (AEnv ev) (a, t)"
| step_beat: "\<lbrakk>ag_heartbeating a; \<not> ag_done a; clock s \<le> t1; t1 \<le> t2; env_between (ag_id a) t2 u1 f; u1 \<le> u2; t2 \<le> u1;
      heartbeat_tick fate1 fate2 t1 t2 f u1 u2 a (reg s) = (a', r')\<rbrakk> \<Longrightarrow>
    agent_step (a, s) ABeat (a', \<lparr>reg = r', clock = u2\<rparr>)"
| step_loaded: "\<not> ag_done a \<Longrightarrow> agent_step (a, s) ALoaded (model_loaded a, s)"
| step_report_load: "\<lbrakk>\<not> ag_done a; \<not> ag_stopped a; lr_WorkerId report = ag_id a\<rbrakk> \<Longrightarrow>
    agent_step (a, s) (AReport report) (a, s\<lparr>reg := load_tick fate report (reg s)\<rparr>)"
| step_shutdown: "\<lbrakk>\<not> ag_done a; shutdown fate a (reg s) = (a', r')\<rbrakk> \<Longrightarrow>
    agent_step (a, s) AShutdown (a', s\<lparr>reg := r'\<rparr>)"

inductive_cases agent_stepE: "agent_step (a, s) ev (b, t)"

text \<open>
  The Ollama worker's goroutines: no model-load goroutine, and load reports that come from
  what Ollama answers (\<open>answer\<close>, read by \<open>parse\<close>).
\<close>

inductive ollama_step :: "agent \<times> fleet \<Rightarrow> agent_event \<Rightarrow> agent \<times> fleet \<Rightarrow> bool" where
  ollama_env: "\<lbrakk>reg_step s ev t; \<not> registers ev (ag_id a)\<rbrakk> \<Longrightarrow> ollama_step (a, s) (AEnv ev) (a, t)"
| ollama_beat: "\<lbrakk>ag_heartbeating a; \<not> ag_done a; clock s \<le> t1; t1 \<le> t2; env_between (ag_id a) t2 u1 f; u1 \<le> u2; t2 \<le> u1;
      ollama_heartbeat_tick fate1 fate2 t1 t2 f u1 u2 a (reg s) = (a', r')\<rbrakk> \<Longrightarrow>
    ollama_step (a, s) ABeat (a', \<lparr>reg = r', clock = u2\<rparr>)"
| ollama_report: "\<lbrakk>\<not> ag_done a; \<not> ag_stopped a\<rbrakk> \<Longrightarrow>
    ollama_step (a, s) (AReport (ollamaLoad parse answer (ag_id a)))
      (a, s\<lparr>reg := ollama_load_tick fate parse answer a (reg s)\<rparr>)"
| ollama_stop: "\<lbrakk>\<not> ag_done a; ollama_shutdown fate a (reg s) = (a', r')\<rbrakk> \<Longrightarrow>
    ollama_step (a, s) AShutdown (a', s\<lparr>reg := r'\<rparr>)"

text \<open>Every step of it is one the mock worker could take, so what holds of all its runs holds of both programs.\<close>

lemma ollamaLoad_worker: "lr_WorkerId (ollamaLoad parse answer wid) = wid"
  by (simp add: ollamaLoad_def zero_load_def split: option.split)

lemma ollama_step_agent_step: "ollama_step x ev y \<Longrightarrow> agent_step x ev y"
proof (induction rule: ollama_step.induct)
  case (ollama_beat a s t1 t2 u1 f u2 fate1 fate2 a' r')
  then show ?case unfolding ollama_heartbeat_tick_eq by (rule agent_step.step_beat)
next
  case (ollama_report a s parse answer fate)
  then show ?case
    unfolding ollama_load_tick_def by (intro agent_step.step_report_load ollamaLoad_worker)
next
  case (ollama_stop a fate s a' r')
  then show ?case unfolding ollama_shutdown_eq by (rule agent_step.step_shutdown)
qed (rule agent_step.step_env)

lemma run_mono: "run step x es y \<Longrightarrow> (\<And>x e y. step x e y \<Longrightarrow> step' x e y) \<Longrightarrow> run step' x es y"
  by (induction rule: run.induct) (auto intro: run.intros)

definition worker_run :: "agent \<times> fleet \<Rightarrow> agent_event list \<Rightarrow> agent \<times> fleet \<Rightarrow> bool" where
  "worker_run x es y \<longleftrightarrow> run agent_step x es y \<or> run ollama_step x es y"

lemma worker_run_agent: "worker_run x es y \<Longrightarrow> run agent_step x es y"
  unfolding worker_run_def by (blast intro: run_mono ollama_step_agent_step)

section \<open>The worker is a client of the registry\<close>

lemma run_single: "step s e t \<Longrightarrow> run step s [e] t"
  by (auto intro: run.intros)

lemma snd_rpc: "snd (rpc fate call r) = (if fate = RequestLost then r else snd (call r))"
  by (cases fate) (auto simp: rpc_def split: prod.splits sum.splits)

lemma fst_rpc: "fst (rpc fate call r) = (if fate = Delivered then (case fst (call r) of Inl _ \<Rightarrow> None | Inr x \<Rightarrow> Some x) else None)"
  by (cases fate) (auto simp: rpc_def split: prod.splits sum.splits)

lemma tick_run:
  assumes "clock s \<le> t" shows "\<exists>es. run reg_step s es \<lparr>reg = reg s, clock = t\<rparr> \<and> (\<forall>ev \<in> set es. \<not> registers ev wid)"
proof -
  have "run reg_step s [ETick t] (s\<lparr>clock := t\<rparr>)" by (intro run_single step_tick assms)
  moreover have "s\<lparr>clock := t\<rparr> = \<lparr>reg = reg s, clock = t\<rparr>" by (cases s) simp
  ultimately show ?thesis by (intro exI [of _ "[ETick t]"]) (simp add: registers_def)
qed

lemma rpc_heartbeat_run:
  assumes "clock s \<le> t1" and "t1 \<le> t2"
  shows "\<exists>es. run reg_step s es \<lparr>reg = snd (rpc fate (\<lambda>r. Heartbeat r req t1 t2) (reg s)), clock = t2\<rparr> \<and>
    (\<forall>ev \<in> set es. \<not> registers ev wid)"
proof (cases "fate = RequestLost")
  case True
  have "clock s \<le> t2" using assms by simp
  then show ?thesis unfolding snd_rpc if_P [OF True] by (rule tick_run)
next
  case False
  have "run reg_step s [EHeartbeat req t1 t2] \<lparr>reg = snd (Heartbeat (reg s) req t1 t2), clock = t2\<rparr>"
    using assms by (intro run_single step_heartbeat)
  then show ?thesis unfolding snd_rpc if_not_P [OF False]
    by (intro exI [of _ "[EHeartbeat req t1 t2]"]) (simp add: registers_def)
qed

lemma run_split:
  assumes "\<exists>es. run step s es t \<and> (\<forall>ev \<in> set es. P ev)" and "\<exists>es. run step t es u \<and> (\<forall>ev \<in> set es. P ev)"
  shows "\<exists>es. run step s es u \<and> (\<forall>ev \<in> set es. P ev)"
proof -
  obtain es1 es2 where "run step s es1 t" "\<forall>ev \<in> set es1. P ev" "run step t es2 u" "\<forall>ev \<in> set es2. P ev"
    using assms by blast
  then have "run step s (es1 @ es2) u \<and> (\<forall>ev \<in> set (es1 @ es2). P ev)" by (auto intro: run_append)
  then show ?thesis by blast
qed

lemma heartbeat_tick_run:
  assumes "clock s \<le> t1" and "t1 \<le> t2" and "env_between wid t2 u1 f" and "u1 \<le> u2" and "t2 \<le> u1"
    and "heartbeat_tick fate1 fate2 t1 t2 f u1 u2 a (reg s) = (a', r')"
  shows "\<exists>es. run reg_step s es \<lparr>reg = r', clock = u2\<rparr> \<and> (\<forall>ev \<in> set es. \<not> registers ev wid)"
proof -
  let ?hb = "\<lambda>r. Heartbeat r \<lparr>hb_WorkerId = ag_id a, hb_State = ag_state a\<rparr> t1 t2"
  let ?drain = "\<lambda>r. Heartbeat r \<lparr>hb_WorkerId = ag_id a, hb_State = DRAINING\<rparr> u1 u2"
  obtain res r1 where r1: "rpc fate1 ?hb (reg s) = (res, r1)" by fastforce
  have first: "\<exists>es. run reg_step s es \<lparr>reg = r1, clock = t2\<rparr> \<and> (\<forall>ev \<in> set es. \<not> registers ev wid)"
    using rpc_heartbeat_run [OF assms(1,2), of fate1 "\<lparr>hb_WorkerId = ag_id a, hb_State = ag_state a\<rparr>" wid] r1 by simp
  show ?thesis
  proof (cases "\<exists>resp. res = Some resp \<and> Drain resp")
    case True
    then have r': "r' = snd (rpc fate2 ?drain (f r1))" using assms(6) r1 by (auto simp: heartbeat_tick_def)
    obtain es m where m: "run reg_step \<lparr>reg = r1, clock = t2\<rparr> es m" "reg m = f r1" "clock m \<le> u1"
      "\<forall>ev \<in> set es. \<not> registers ev wid"
      using assms(3) unfolding env_between_def by blast
    have last: "\<exists>es. run reg_step m es \<lparr>reg = r', clock = u2\<rparr> \<and> (\<forall>ev \<in> set es. \<not> registers ev wid)"
      unfolding r' m(2) [symmetric] by (rule rpc_heartbeat_run [OF m(3) assms(4)])
    have "\<exists>es. run reg_step \<lparr>reg = r1, clock = t2\<rparr> es m \<and> (\<forall>ev \<in> set es. \<not> registers ev wid)"
      using m(1,4) by blast
    from run_split [OF first run_split [OF this last]] show ?thesis .
  next
    case False
    then have "r' = r1" using assms(6) r1 by (auto simp: heartbeat_tick_def split: option.splits if_splits)
    moreover have "\<exists>es. run reg_step \<lparr>reg = r1, clock = t2\<rparr> es \<lparr>reg = r1, clock = u2\<rparr> \<and> (\<forall>ev \<in> set es. \<not> registers ev wid)"
      using tick_run [of "\<lparr>reg = r1, clock = t2\<rparr>" u2 wid] assms(4,5) by simp
    ultimately show ?thesis using run_split [OF first] by simp
  qed
qed

lemma agent_step_run:
  assumes "agent_step (a, s) ev (b, t)"
  shows "ag_id b = ag_id a \<and> (\<exists>es. run reg_step s es t \<and> (\<forall>ev \<in> set es. \<not> registers ev (ag_id a)))"
  using assms
proof cases
  case (step_env ev)
  then show ?thesis by (intro conjI exI [of _ "[ev]"]) (simp_all add: run_single)
next
  case (step_beat t1 t2 u1 f u2 fate1 fate2 r')
  have "ag_id b = ag_id a"
    using step_beat(10) by (auto simp: heartbeat_tick_def split: option.splits if_splits prod.splits)
  then show ?thesis using heartbeat_tick_run [OF step_beat(5,6,7,8,9,10)] step_beat by simp
next
  case step_loaded
  then show ?thesis by (intro conjI exI [of _ "[]"]) (simp_all add: model_loaded_def)
next
  case (step_report_load report fate)
  have "reg_step s (EReportLoad report) (s\<lparr>reg := snd (ReportLoad (reg s) report)\<rparr>)" by (rule step_report)
  then have "run reg_step s (if fate = RequestLost then [] else [EReportLoad report]) t"
    using step_report_load by (simp add: load_tick_def snd_rpc run_single)
  then show ?thesis using step_report_load(1,2)
    by (intro conjI exI [of _ "if fate = RequestLost then [] else [EReportLoad report]"]) (simp_all add: registers_def)
next
  case (step_shutdown fate r')
  let ?req = "\<lparr>dr_WorkerId = ag_id a\<rparr>"
  have "reg_step s (EDeregister ?req) (s\<lparr>reg := snd (Deregister (reg s) ?req)\<rparr>)" by (rule step_deregister)
  then have "run reg_step s (if fate = RequestLost then [] else [EDeregister ?req]) t"
    using step_shutdown by (auto simp: shutdown_def snd_rpc run_single)
  then show ?thesis using step_shutdown
    by (intro conjI exI [of _ "if fate = RequestLost then [] else [EDeregister ?req]"]) (auto simp: registers_def shutdown_def)
qed

section \<open>A worker that is gone\<close>

definition gone :: "string \<Rightarrow> Registry \<Rightarrow> bool" where
  "gone wid r = (case workers r wid of None \<Rightarrow> True | Some e \<Rightarrow> State e = DEAD)"

lemma reg_step_absent:
  assumes "reg_step s ev t" and "workers (reg s) wid = None" and "\<not> registers ev wid"
  shows "workers (reg t) wid = None"
  using assms(1)
proof cases
  case (step_callback t1 t2 k)
  then show ?thesis using assms(2) by (auto simp: run_callback_def markDead_def split: option.splits)
qed (use assms(2,3) in \<open>auto simp: registry_defs Let_def registers_def split: option.splits if_splits\<close>)

lemma reg_step_gone:
  assumes "reg_step s ev t" and "gone wid (reg s)" and "\<not> registers ev wid"
  shows "gone wid (reg t)"
proof (cases "workers (reg t) wid")
  case (Some b)
  then obtain a where a: "workers (reg s) wid = Some a" "State a = DEAD"
    using reg_step_absent [OF assms(1) _ assms(3)] assms(2) by (auto simp: gone_def split: option.splits)
  have "State b = DEAD"
    using assms(1) a(1) Some assms(3)
  proof (cases rule: reg_step_entry)
    case heartbeat
    then show ?thesis using validTransition_DEAD a(2) by metis
  qed (use a(2) in simp_all)
  then show ?thesis by (simp add: gone_def Some)
qed (simp add: gone_def)

lemma run_gone:
  assumes "run reg_step s es t" and "gone wid (reg s)" and "\<forall>ev \<in> set es. \<not> registers ev wid"
  shows "gone wid (reg t)"
  using assms by (induction rule: run.induct) (auto intro: reg_step_gone)

lemma gone_heartbeat:
  assumes "gone wid r" and "st \<noteq> DEAD"
  shows "\<exists>e. Heartbeat r \<lparr>hb_WorkerId = wid, hb_State = st\<rparr> t1 t2 = (Inl e, r)"
  using assms validTransition_DEAD [of DEAD st]
  by (auto simp: gone_def Heartbeat_def split: option.splits)

lemma gone_tick:
  assumes "gone (ag_id a) r" and "ag_state a \<noteq> DEAD"
  shows "heartbeat_tick fate1 fate2 t1 t2 f u1 u2 a r = (a, r)"
proof -
  obtain e where "Heartbeat r \<lparr>hb_WorkerId = ag_id a, hb_State = ag_state a\<rparr> t1 t2 = (Inl e, r)"
    using gone_heartbeat [OF assms] by blast
  then show ?thesis by (cases fate1) (simp_all add: heartbeat_tick_def rpc_def)
qed

text \<open>The invariant of a lost worker: the registry has no live entry of it, and it does not know.\<close>

definition lost :: "string \<Rightarrow> agent \<times> fleet \<Rightarrow> bool" where
  "lost wid x = (ag_id (fst x) = wid \<and> ag_state (fst x) \<noteq> DEAD \<and> gone wid (reg (snd x)))"

lemma agent_state_step: "agent_step (a, s) ev (b, t) \<Longrightarrow> ag_state a \<noteq> DEAD \<Longrightarrow> ag_state b \<noteq> DEAD"
  by (erule agent_stepE)
     (auto simp: heartbeat_tick_def model_loaded_def shutdown_def split: option.splits if_splits prod.splits)

interpretation lostsys: inductive_invariant "lost wid" agent_step "lost wid" for wid
proof
  fix x ev y assume inv: "lost wid x" and step: "agent_step x ev y"
  obtain a s b t where xy: "x = (a, s)" "y = (b, t)" by fastforce
  then show "lost wid y"
    using agent_step_run [OF step [unfolded xy]] agent_state_step [OF step [unfolded xy]] inv
    by (auto simp: lost_def intro: run_gone)
qed

lemma agent_run_reach:
  assumes "run agent_step (a, s) es (b, t)" and "reach fleet_start reg_step s"
  shows "reach fleet_start reg_step t"
  using assms
proof (induction "(a, s)" es "(b, t)" arbitrary: a s rule: run.induct)
  case (run_Cons e y es)
  obtain c u where y: "y = (c, u)" by fastforce
  with run_Cons.hyps(1) obtain evs where "run reg_step s evs u" using agent_step_run [of a s e c u] by auto
  then have "reach fleet_start reg_step u" using run_Cons.prems by (rule reach_run)
  then show ?case using run_Cons.hyps(3) y by blast
qed simp

lemma not_offered:
  assumes "keyed_registry r" and "range_order (workers r) ks"
    and "\<And>e. workers r wid = Some e \<Longrightarrow> \<not> healthy_state (State e)"
  shows "wid \<notin> set (map (\<lambda>e. WorkerId (Info e)) (HealthyWorkersForModel r ks m))"
proof
  assume "wid \<in> set (map (\<lambda>e. WorkerId (Info e)) (HealthyWorkersForModel r ks m))"
  then obtain e where "e \<in> set (HealthyWorkersForModel r ks m)" "WorkerId (Info e) = wid" by auto
  then show False using regdir.healthy_registered [OF assms(1,2)] assms(3) by metis
qed

section \<open>Properties\<close>

text \<open>
  C37: A worker once marked dead never comes back. If the registry has marked a running
  worker DEAD or has evicted it (a long pause or a network partition is enough), then
  however its heartbeats, load reports and everything else go on, the registry has no live
  entry of it and the router is never offered it again; and while its heartbeat loop runs,
  every further heartbeat is refused and changes nothing, neither the worker nor the
  registry. The registry's answer asks it to register again, but the program registers
  only when it starts. This is so of the mock worker and of the Ollama worker.
\<close>

theorem dead_worker_never_returns:
  assumes "worker_run (a, s) es (b, t)" and "reach fleet_start reg_step s"
    and "\<forall>e. workers (reg s) (ag_id a) = Some e \<longrightarrow> State e = DEAD" and "ag_state a \<noteq> DEAD"
  shows "(\<forall>e. workers (reg t) (ag_id a) = Some e \<longrightarrow> State e = DEAD) \<and>
    (range_order (workers (reg t)) ks \<longrightarrow>
      ag_id a \<notin> set (map (\<lambda>e. WorkerId (Info e)) (HealthyWorkersForModel (reg t) ks m))) \<and>
    (\<forall>fate1 fate2 t1 t2 f u1 u2. heartbeat_tick fate1 fate2 t1 t2 f u1 u2 b (reg t) = (b, reg t)) \<and>
    (\<forall>t1 t2. \<exists>err. Heartbeat (reg t) \<lparr>hb_WorkerId = ag_id a, hb_State = ag_state b\<rparr> t1 t2 = (Inl err, reg t))"
proof -
  have "lost (ag_id a) (a, s)"
    using assms(3,4) by (auto simp: lost_def gone_def split: option.splits)
  note run = worker_run_agent [OF assms(1)]
  from lostsys.run_inv [OF run \<open>lost (ag_id a) (a, s)\<close>]
  have l: "ag_id b = ag_id a" "ag_state b \<noteq> DEAD" "gone (ag_id a) (reg t)" by (auto simp: lost_def)
  have g: "\<forall>e. workers (reg t) (ag_id a) = Some e \<longrightarrow> State e = DEAD"
    using l(3) by (auto simp: gone_def)
  have k: "keyed_registry (reg t)"
    by (rule reg_inv_keyed [OF regsys.reach_inv [OF agent_run_reach [OF run assms(2)]]])
  have "ag_id a \<notin> set (map (\<lambda>e. WorkerId (Info e)) (HealthyWorkersForModel (reg t) ks m))"
    if "range_order (workers (reg t)) ks"
    using g by (intro not_offered [OF k that]) (auto simp: healthy_state_def)
  then show ?thesis using g gone_tick [of b] gone_heartbeat [OF l(3,2)] l by simp
qed

definition demo_agent :: agent where
  "demo_agent = new_agent ''w'' READY"

theorem dead_worker_never_returns_witness:
  "\<exists>err. Heartbeat (reg demo_dead) \<lparr>hb_WorkerId = ''w'', hb_State = READY\<rparr> 20 20 = (Inl err, reg demo_dead)"
proof -
  have e: "workers (reg demo_dead) ''w'' = Some (demo_entry\<lparr>State := DEAD, MarkedDeadAt := 12\<rparr>)"
    by (rule demo_dead_entry)
  have "run agent_step (demo_agent, demo_dead) [ALoaded] (model_loaded demo_agent, demo_dead)"
    by (intro run_single step_loaded) (simp add: demo_agent_def new_agent_def)
  moreover have "reach fleet_start reg_step demo_dead"
    by (rule reach.reach_step [OF demo_silent_reach demo_dead_step])
  ultimately show ?thesis
    using dead_worker_never_returns [of demo_agent demo_dead "[ALoaded]" "model_loaded demo_agent" demo_dead]
    by (auto simp: worker_run_def demo_agent_def new_agent_def model_loaded_def e)
qed

section \<open>Draining\<close>

lemma drain_route:
  assumes "CHR ''/'' \<notin> set wid" and "wid \<noteq> ''''"
  shows "admin_route_of ''POST'' (''/admin/workers/'' @ wid @ ''/drain'') = RDrain wid"
proof -
  have "split_on (CHR ''/'') (wid @ ''/drain'') = [wid, ''drain'']"
    using split_on_append [OF assms(1), of "''drain''"] by simp
  then show ?thesis using assms(2) by (simp add: admin_route_of_def)
qed

lemma Heartbeat_accepted:
  assumes "workers r wid = Some e" and "validTransition (State e) st"
  shows "Heartbeat r \<lparr>hb_WorkerId = wid, hb_State = st\<rparr> t1 t2 =
    (Inr \<lparr>hr_Ok = True, Drain = DrainRequested e\<rparr>,
     (timer_Reset r (deadlineTimer e) (deadTimeout r) t1)\<lparr>workers := (workers r)(wid \<mapsto> e\<lparr>LastHeartbeat := t2, State := st\<rparr>)\<rparr>)"
  using assms by (auto simp: Heartbeat_def Let_def timer_Reset_def)

lemma Heartbeat_refused:
  assumes "workers r wid = Some e" and "\<not> validTransition (State e) st"
  shows "Heartbeat r \<lparr>hb_WorkerId = wid, hb_State = st\<rparr> t1 t2 = (Inl (InvalidStateTransition (State e) st wid), r)"
  using assms by (simp add: Heartbeat_def)

lemma drain_endpoint:
  assumes "wid \<noteq> ''''" and "CHR ''/'' \<notin> set wid"
    and "Method req = ''POST''" and "Path req = ''/admin/workers/'' @ wid @ ''/drain''"
    and "NewAdminHandler p mh rtr ks ms req new_response r = (w, r1)"
  shows "case workers r wid of
      None \<Rightarrow> rstatus w = Some 404 \<and> r1 = r
    | Some e \<Rightarrow> rstatus w = Some 200 \<and> r1 = r\<lparr>workers := (workers r)(wid \<mapsto> e\<lparr>DrainRequested := True\<rparr>)\<rparr>"
proof -
  have "admin_route_of (Method req) (Path req) = RDrain wid"
    unfolding assms(3,4) by (rule drain_route [OF assms(2,1)])
  then show ?thesis
    using assms(5) by (auto simp: NewAdminHandler_def drainWorker_def RequestDrain_def api_writeJSON_def Let_def split: option.splits)
qed

text \<open>The registry after the tick at which the worker learns that it is to drain.\<close>

lemma drain_tick:
  assumes "workers r (ag_id a) = Some e" and "DrainRequested e" and "validTransition (State e) (ag_state a)"
    and "heartbeat_tick Delivered Delivered t1 t2 id u1 u2 a r = (a2, r2)"
  shows "a2 = a\<lparr>ag_state := DRAINING, ag_drained := True, ag_heartbeating := False\<rparr>"
    and "\<exists>e2. workers r2 = (workers r)(ag_id a \<mapsto> e2) \<and> Info e2 = Info e \<and>
      State e2 = (if validTransition (ag_state a) DRAINING then DRAINING else ag_state a)"
proof -
  define r1 where "r1 = (timer_Reset r (deadlineTimer e) (deadTimeout r) t1)\<lparr>workers :=
    (workers r)(ag_id a \<mapsto> e\<lparr>LastHeartbeat := t2, State := ag_state a\<rparr>)\<rparr>"
  have w1: "workers r1 (ag_id a) = Some (e\<lparr>LastHeartbeat := t2, State := ag_state a\<rparr>)" by (simp add: r1_def)
  have tick: "(a2, r2) = (a\<lparr>ag_state := DRAINING, ag_drained := True, ag_heartbeating := False\<rparr>,
      snd (Heartbeat r1 \<lparr>hb_WorkerId = ag_id a, hb_State = DRAINING\<rparr> u1 u2))"
    using assms(2,4) Heartbeat_accepted [OF assms(1,3), of t1 t2]
    by (simp add: heartbeat_tick_def rpc_def r1_def split: prod.splits sum.splits)
  then show "a2 = a\<lparr>ag_state := DRAINING, ag_drained := True, ag_heartbeating := False\<rparr>" by simp
  have ws: "workers r1 = (workers r)(ag_id a \<mapsto> e\<lparr>LastHeartbeat := t2, State := ag_state a\<rparr>)" by (simp add: r1_def)
  show "\<exists>e2. workers r2 = (workers r)(ag_id a \<mapsto> e2) \<and> Info e2 = Info e \<and>
      State e2 = (if validTransition (ag_state a) DRAINING then DRAINING else ag_state a)"
  proof (cases "validTransition (ag_state a) DRAINING")
    case True
    then have "workers r2 = (workers r1)(ag_id a \<mapsto> e\<lparr>LastHeartbeat := u2, State := DRAINING\<rparr>)"
      using tick Heartbeat_accepted [OF w1, of DRAINING u1 u2] by simp
    then show ?thesis using True by (intro exI [of _ "e\<lparr>LastHeartbeat := u2, State := DRAINING\<rparr>"]) (simp add: ws)
  next
    case False
    then have "r2 = r1" using tick Heartbeat_refused [OF w1, of DRAINING u1 u2] by simp
    then show ?thesis using False by (intro exI [of _ "e\<lparr>LastHeartbeat := t2, State := ag_state a\<rparr>"]) (simp add: ws)
  qed
qed

text \<open>
  C18: A drain takes the worker out of the fleet. After \<^verbatim>\<open>POST /admin/workers/{id}/drain\<close> for a
  registered worker, which is answered with 200 and changes nothing but the worker's drain
  flag, the worker's next heartbeat (with a legal state, and both calls of the tick
  delivered) makes it stop its heartbeat loop in state DRAINING, and from then on the
  router is not offered it; the shutdown that follows removes exactly its entry from the
  registry. For an unknown id the answer is a 404 and nothing changes.
\<close>

theorem drain_leaves_fleet:
  assumes "keyed_registry r" and "ag_id a \<noteq> ''''" and "CHR ''/'' \<notin> set (ag_id a)"
    and "Method req = ''POST''" and "Path req = ''/admin/workers/'' @ ag_id a @ ''/drain''"
    and "NewAdminHandler p mh rtr ks ms req new_response r = (w, r1)"
    and "ag_state a \<in> {STARTING, READY}"
    and "heartbeat_tick Delivered Delivered t1 t2 id u1 u2 a r1 = (a2, r2)"
    and "shutdown Delivered a2 r2 = (a3, r3)"
  shows "case workers r (ag_id a) of
      None \<Rightarrow> rstatus w = Some 404 \<and> r1 = r
    | Some e \<Rightarrow> rstatus w = Some 200 \<and> r1 = r\<lparr>workers := (workers r)(ag_id a \<mapsto> e\<lparr>DrainRequested := True\<rparr>)\<rparr> \<and>
        (validTransition (State e) (ag_state a) \<longrightarrow>
          ag_state a2 = DRAINING \<and> ag_drained a2 \<and> \<not> ag_heartbeating a2 \<and>
          (range_order (workers r2) ks2 \<longrightarrow>
            ag_id a \<notin> set (map (\<lambda>e. WorkerId (Info e)) (HealthyWorkersForModel r2 ks2 m))) \<and>
          workers r3 = (workers r)(ag_id a := None))"
proof (cases "workers r (ag_id a)")
  case None
  then show ?thesis using drain_endpoint [OF assms(2-6)] by simp
next
  case (Some e)
  then have w: "rstatus w = Some 200" and r1: "r1 = r\<lparr>workers := (workers r)(ag_id a \<mapsto> e\<lparr>DrainRequested := True\<rparr>)\<rparr>"
    using drain_endpoint [OF assms(2-6)] by simp_all
  have "ag_state a2 = DRAINING \<and> ag_drained a2 \<and> \<not> ag_heartbeating a2 \<and>
      (range_order (workers r2) ks2 \<longrightarrow>
        ag_id a \<notin> set (map (\<lambda>e. WorkerId (Info e)) (HealthyWorkersForModel r2 ks2 m))) \<and>
      workers r3 = (workers r)(ag_id a := None)"
    if v: "validTransition (State e) (ag_state a)"
  proof -
    have w1: "workers r1 (ag_id a) = Some (e\<lparr>DrainRequested := True\<rparr>)" by (simp add: r1)
    have v1: "validTransition (State (e\<lparr>DrainRequested := True\<rparr>)) (ag_state a)" using v by simp
    note tick = drain_tick [OF w1 _ v1 assms(8)]
    have a2: "a2 = a\<lparr>ag_state := DRAINING, ag_drained := True, ag_heartbeating := False\<rparr>" by (rule tick(1)) simp
    obtain e2 where e2: "workers r2 = (workers r1)(ag_id a \<mapsto> e2)" "Info e2 = Info e"
      "State e2 = (if validTransition (ag_state a) DRAINING then DRAINING else ag_state a)"
      using tick(2) by auto
    have u: "\<not> healthy_state (State e2)"
      using assms(7) e2(3) by (auto simp: healthy_state_def validTransition.simps)
    have "keyed_registry r2"
      using assms(1) e2(1,2) Some by (auto simp: keyed_registry_def r1)
    then have "ag_id a \<notin> set (map (\<lambda>e. WorkerId (Info e)) (HealthyWorkersForModel r2 ks2 m))"
      if "range_order (workers r2) ks2"
      using that u e2(1) by (intro not_offered) auto
    moreover have "workers r3 = (workers r)(ag_id a := None)"
      using assms(9) by (auto simp: shutdown_def rpc_def a2 Deregister_def e2(1) r1 Let_def timer_Stop_def)
    ultimately show ?thesis by (simp add: a2)
  qed
  then show ?thesis using w r1 by (simp add: Some)
qed


definition demo_printer :: printer where
  "demo_printer = \<lparr>pr_render = (\<lambda>_. []), pr_num = (\<lambda>_. ''0''), pr_time = (\<lambda>_. None)\<rparr>"

definition demo_drain :: http_request where
  "demo_drain = \<lparr>Method = ''POST'', Path = ''/admin/workers/w/drain'', Header = Map.empty, Body = None\<rparr>"

theorem drain_leaves_fleet_witness:
  "\<exists>w r1 a2 r2 a3 r3. NewAdminHandler demo_printer (\<lambda>_ w. w) (Router_New False) [] [] demo_drain new_response (reg demo_registered) = (w, r1) \<and>
     heartbeat_tick Delivered Delivered 2 2 id 2 2 (new_agent ''w'' READY) r1 = (a2, r2) \<and>
     shutdown Delivered a2 r2 = (a3, r3) \<and>
     rstatus w = Some 200 \<and> ag_drained a2 \<and> workers r3 = (workers (reg demo_registered))(''w'' := None)"
proof -
  obtain w r1 a2 r2 a3 r3 where
    h: "NewAdminHandler demo_printer (\<lambda>_ w. w) (Router_New False) [] [] demo_drain new_response (reg demo_registered) = (w, r1)"
    and t: "heartbeat_tick Delivered Delivered 2 2 id 2 2 (new_agent ''w'' READY) r1 = (a2, r2)"
    and s: "shutdown Delivered a2 r2 = (a3, r3)"
    by (metis surj_pair)
  have k: "keyed_registry (reg demo_registered)" by (rule reg_inv_keyed [OF regsys.reach_inv [OF demo_registered_reach]])
  have a: "ag_id (new_agent ''w'' READY) = ''w''" "ag_state (new_agent ''w'' READY) = READY" by (simp_all add: new_agent_def)
  have "validTransition STARTING READY" by (simp add: validTransition.simps)
  then show ?thesis
    using drain_leaves_fleet [OF k _ _ _ _ h _ t s] h t s
    by (simp add: a demo_drain_def demo_registered_entry demo_entry_def)
qed

end
