(* ===== verification/Fleet_Metrics.thy ===== *)
theory Fleet_Metrics
  imports Fleet_Admin
begin

text \<open>
  The Prometheus metrics of the fleet (\<^verbatim>\<open>control-plane/metrics/metrics.go\<close>): the descriptions, what a
  scrape collects, the request counter, and their registration. The Prometheus library itself
  is a parameter: how it makes a metric (\<open>mk\<close>), registers a collector (\<open>register\<close>) and counts.

  Two properties: the admin statistics, the scaler's counts and the gauges agree, and a
  scrape gives the library well-typed metrics only.
\<close>

section \<open>Metrics\<close>

datatype desc = WorkersDesc | InFlightDesc | ModelDesc | FleetCostDesc

text \<open>The descriptions as \<^verbatim>\<open>prometheus.NewDesc\<close> is given them: name, help text, variable labels.\<close>

record metric_desc =
  fqName :: string
  md_help :: string
  variableLabels :: "string list"

definition newCollector :: "desc \<Rightarrow> metric_desc" where
  "newCollector d =
     (case d of
        WorkersDesc \<Rightarrow>
          \<lparr>fqName = ''llm_workers'', md_help = ''Number of workers in each lifecycle state.'', variableLabels = [''state'']\<rparr>
      | InFlightDesc \<Rightarrow>
          \<lparr>fqName = ''llm_worker_in_flight'',
           md_help = ''Current in-flight request count per worker (router-tracked, never stale).'',
           variableLabels = [''worker_id'']\<rparr>
      | ModelDesc \<Rightarrow>
          \<lparr>fqName = ''llm_model_healthy_workers'',
           md_help = ''Number of READY or BUSY workers that have this model loaded.'', variableLabels = [''model'']\<rparr>
      | FleetCostDesc \<Rightarrow>
          \<lparr>fqName = ''llm_fleet_cost_per_hour'',
           md_help = ''Sum of cost_per_hour for all healthy (READY/BUSY) workers.'', variableLabels = []\<rparr>)"

definition Describe :: "desc list" where
  "Describe = [WorkersDesc, InFlightDesc, ModelDesc, FleetCostDesc]"

type_synonym metric = "desc \<times> float64 \<times> string list"

definition bump :: "string \<Rightarrow> (string \<rightharpoonup> float64) \<Rightarrow> (string \<rightharpoonup> float64)" where
  "bump k m = m(k \<mapsto> f64_add (case m k of None \<Rightarrow> Fin 0 | Some x \<Rightarrow> x) (Fin 1))"

definition collect_worker :: "WorkerEntry \<Rightarrow> (string \<rightharpoonup> float64) \<times> float64 \<Rightarrow> (string \<rightharpoonup> float64) \<times> float64" where
  "collect_worker e = (\<lambda>(counts, cost).
     case State e of
       STARTING \<Rightarrow> (bump ''starting'' counts, cost)
     | READY \<Rightarrow> (bump ''ready'' counts, f64_add cost (CostPerHour (Info e)))
     | BUSY \<Rightarrow> (bump ''busy'' counts, f64_add cost (CostPerHour (Info e)))
     | DRAINING \<Rightarrow> (bump ''draining'' counts, cost)
     | DEAD \<Rightarrow> (bump ''dead'' counts, cost)
     | Unrecognized _ \<Rightarrow> (counts, cost))"

definition no_counts :: "string \<rightharpoonup> float64" where
  "no_counts = [''starting'' \<mapsto> Fin 0, ''ready'' \<mapsto> Fin 0, ''busy'' \<mapsto> Fin 0, ''draining'' \<mapsto> Fin 0, ''dead'' \<mapsto> Fin 0]"

text \<open>
  \<open>ss\<close> is the order of the state counts, \<open>ids\<close> that of the in-flight counters; \<open>r2\<close> is the
  registry when the models are counted.
\<close>

definition Collect_metrics ::
  "Registry \<Rightarrow> string list \<Rightarrow> Router \<Rightarrow> string list \<Rightarrow> string list \<Rightarrow> Registry \<Rightarrow> string list \<Rightarrow> string list \<Rightarrow>
     metric list" where
  "Collect_metrics r1 ks1 rtr ss ids r2 ks2 ms =
     (let (counts, fleetCost) = fold collect_worker (ListWorkers r1 ks1) (no_counts, Fin 0);
          n = InFlightSnapshot rtr
      in map (\<lambda>st. (WorkersDesc, the (counts st), [st])) (filter (\<lambda>st. counts st \<noteq> None) ss) @
         [(FleetCostDesc, fleetCost, [])] @
         map (\<lambda>wid. (InFlightDesc, f64_of_int (the (n wid)), [wid])) (filter (\<lambda>wid. n wid \<noteq> None) ids) @
         map (\<lambda>s. (ModelDesc, f64_of_int (int (HealthyWorkers s)), [ms_Model s])) (ModelsServed r2 ks2 ms))"

text \<open>
  Each value is made into a metric by the library's \<^verbatim>\<open>MustNewConstMetric\<close> (\<open>mk\<close>), which panics
  for some arguments, and sent; \<open>Inl\<close> is the panic of the first call that fails.
\<close>

fun send_metrics :: "(metric_desc \<Rightarrow> float64 \<Rightarrow> string list \<Rightarrow> 'm option) \<Rightarrow> metric list \<Rightarrow> 'm list \<Rightarrow> metric + 'm list" where
  "send_metrics mk [] ch = Inr ch"
| "send_metrics mk ((d, v, ls) # xs) ch =
     (case mk (newCollector d) v ls of None \<Rightarrow> Inl (d, v, ls) | Some m \<Rightarrow> send_metrics mk xs (ch @ [m]))"

text \<open>
  Registration with the library: what it is given, in order. \<open>register\<close> is \<^verbatim>\<open>MustRegister\<close>, nothing
  where it panics.
\<close>

datatype collector = GoCollector | ProcessCollector | FleetCollector "metric_desc list" | CounterVec metric_desc

definition newRequestsCounter :: metric_desc where
  "newRequestsCounter =
     \<lparr>fqName = ''llm_requests_total'',
      md_help = ''Total inference requests routed, by model and result (success|error).'',
      variableLabels = [''model'', ''result'']\<rparr>"

definition Setup :: "('p \<Rightarrow> collector \<Rightarrow> 'p option) \<Rightarrow> 'p \<Rightarrow> 'p option" where
  "Setup register promReg =
     Option.bind (register promReg GoCollector) (\<lambda>p1.
       Option.bind (register p1 ProcessCollector) (\<lambda>p2.
         Option.bind (register p2 (FleetCollector (map newCollector Describe))) (\<lambda>p3.
           register p3 (CounterVec newRequestsCounter))))"

text \<open>The counter vector is the Prometheus library's; the hook increments the labelled counter.\<close>

definition RequestsCounter_Hook :: "('v \<Rightarrow> string list \<Rightarrow> 'v) \<Rightarrow> string \<Rightarrow> string \<Rightarrow> 'v \<Rightarrow> 'v" where
  "RequestsCounter_Hook inc_labelled model result vec = inc_labelled vec [model, result]"

section \<open>The views agree\<close>

definition in_state :: "WorkerState \<Rightarrow> WorkerEntry list \<Rightarrow> nat" where
  "in_state st es = length (filter (\<lambda>e. State e = st) es)"

lemma in_state_simps [simp]:
  "in_state st [] = 0"
  "in_state st (e # es) = (if State e = st then 1 else 0) + in_state st es"
  by (simp_all add: in_state_def)

lemma stats_fold:
  "sr_Healthy (fold (count_state n) es s) = sr_Healthy s + in_state READY es + in_state BUSY es"
  "sr_Starting (fold (count_state n) es s) = sr_Starting s + in_state STARTING es"
  "sr_Draining (fold (count_state n) es s) = sr_Draining s + in_state DRAINING es"
  "sr_Dead (fold (count_state n) es s) = sr_Dead s + in_state DEAD es"
  "sr_Total (fold (count_state n) es s) = sr_Total s"
  by (induction es arbitrary: s) (auto simp: count_state_def Let_def split: WorkerState.split)

lemma stats_counts:
  "sr_Healthy (stats r ks rtr) = in_state READY (ListWorkers r ks) + in_state BUSY (ListWorkers r ks)"
  "sr_Starting (stats r ks rtr) = in_state STARTING (ListWorkers r ks)"
  "sr_Draining (stats r ks rtr) = in_state DRAINING (ListWorkers r ks)"
  "sr_Dead (stats r ks rtr) = in_state DEAD (ListWorkers r ks)"
  "sr_Total (stats r ks rtr) = length (ListWorkers r ks)"
  by (simp_all add: stats_def Let_def stats_fold)

lemma known_states_partition:
  assumes "\<forall>e \<in> set es. known_state (State e)"
  shows "length es =
    in_state READY es + in_state BUSY es + in_state STARTING es + in_state DRAINING es + in_state DEAD es"
  using assms by (induction es) (auto simp: known_state_def)

lemma healthy_in_state: "length (filter (\<lambda>e. healthy_state (State e)) es) = in_state READY es + in_state BUSY es"
  by (induction es) (auto simp: healthy_state_def)

definition state_label :: "WorkerState \<Rightarrow> string" where
  "state_label st =
     (case st of STARTING \<Rightarrow> ''starting'' | READY \<Rightarrow> ''ready'' | BUSY \<Rightarrow> ''busy'' | DRAINING \<Rightarrow> ''draining''
      | DEAD \<Rightarrow> ''dead'' | Unrecognized _ \<Rightarrow> '''')"

lemma state_labels:
  "state_label STARTING = ''starting''" "state_label READY = ''ready''" "state_label BUSY = ''busy''"
  "state_label DRAINING = ''draining''" "state_label DEAD = ''dead''"
  by (simp_all add: state_label_def)

lemma f64_increment: "int k < 2 ^ 53 \<Longrightarrow> f64_add (Fin (of_nat k)) (Fin 1) = Fin (of_nat (Suc k))"
  using f64_of_int_exact [of "int k + 1"] by (simp add: f64_of_int_def add.commute)

lemma bump_apply: "bump k m l = (if l = k then Some (f64_add (case m k of None \<Rightarrow> Fin 0 | Some x \<Rightarrow> x) (Fin 1)) else m l)"
  by (simp add: bump_def)

lemma collect_worker_count:
  assumes "known_state st" and "c (state_label st) = Some (Fin (of_nat k))" and "int k < 2 ^ 53"
  shows "fst (collect_worker e (c, x)) (state_label st) = Some (Fin (of_nat (k + in_state st [e])))"
  using assms f64_increment [OF assms(3)]
  by (auto simp: known_state_def collect_worker_def state_labels bump_apply simp del: of_nat_Suc split: WorkerState.split)

lemma collect_fold:
  assumes "known_state st" and "c (state_label st) = Some (Fin (of_nat k))" and "int (k + length es) \<le> 2 ^ 53"
  shows "fst (fold collect_worker es (c, x)) (state_label st) = Some (Fin (of_nat (k + in_state st es)))"
  using assms(2,3)
proof (induction es arbitrary: c x k)
  case (Cons e es)
  obtain c' x' where c': "collect_worker e (c, x) = (c', x')" by fastforce
  have "c' (state_label st) = Some (Fin (of_nat (k + in_state st [e])))"
    using collect_worker_count [where c = c and e = e and x = x, OF assms(1) Cons.prems(1)] Cons.prems(2) c' by simp
  moreover have "int (k + in_state st [e] + length es) \<le> 2 ^ 53" using Cons.prems(2) by simp
  ultimately show ?case using Cons.IH [of c' "k + in_state st [e]" x'] c' by (simp add: add.assoc)
qed simp

lemma collect_cost:
  "snd (fold collect_worker es (c, x)) = sr_FleetCostPerHour (fold (count_state n) es s)"
  if "x = sr_FleetCostPerHour s"
  using that
proof (induction es arbitrary: c x s)
  case (Cons e es)
  obtain c' x' where c': "collect_worker e (c, x) = (c', x')" by fastforce
  then have "x' = sr_FleetCostPerHour (count_state n e s)"
    using Cons.prems by (auto simp: collect_worker_def count_state_def Let_def split: WorkerState.splits)
  then show ?case using Cons.IH c' by simp
qed simp

lemma Collect_gauge:
  assumes "fst (fold collect_worker (ListWorkers r1 ks1) (no_counts, Fin 0)) l = Some v" and "l \<in> set ss"
  shows "(WorkersDesc, v, [l]) \<in> set (Collect_metrics r1 ks1 rtr ss ids r2 ks2 ms)"
proof -
  let ?c = "fst (fold collect_worker (ListWorkers r1 ks1) (no_counts, Fin 0))"
  have "l \<in> set (filter (\<lambda>st. ?c st \<noteq> None) ss)" using assms by simp
  then have "(WorkersDesc, the (?c l), [l]) \<in> (\<lambda>st. (WorkersDesc, the (?c st), [st])) ` set (filter (\<lambda>st. ?c st \<noteq> None) ss)"
    by (rule imageI)
  then have "(WorkersDesc, v, [l]) \<in> (\<lambda>st. (WorkersDesc, the (?c st), [st])) ` set (filter (\<lambda>st. ?c st \<noteq> None) ss)"
    by (simp only: assms(1) option.sel)
  then show ?thesis unfolding Collect_metrics_def Let_def case_prod_beta set_append set_map by (rule UnI1)
qed

text \<open>
  C31: The views of the fleet agree. In every reachable state (with fewer than \<open>2 ^ 53\<close>
  workers) the admin statistics count every registered worker exactly once, as healthy,
  starting, draining or dead; their total and healthy counts are those the scaler uses; the
  Prometheus gauge of each state is exactly the number of workers in that state, so that the
  ready and busy gauges add up to the healthy count; and a scrape that visits the workers in
  the same order reports the same fleet cost.
\<close>

theorem fleet_views_agree:
  assumes "reach fleet_start reg_step s" and "range_order (workers (reg s)) ks"
    and "int (card (dom (workers (reg s)))) < 2 ^ 53" and "st \<in> {STARTING, READY, BUSY, DRAINING, DEAD}"
    and "state_label st \<in> set ss"
  shows "sr_Total (stats (reg s) ks rtr) = card (dom (workers (reg s))) \<and>
    sr_Total (stats (reg s) ks rtr) = sr_Healthy (stats (reg s) ks rtr) + sr_Starting (stats (reg s) ks rtr) +
      sr_Draining (stats (reg s) ks rtr) + sr_Dead (stats (reg s) ks rtr) \<and>
    WorkerCount (reg s) ks = (sr_Total (stats (reg s) ks rtr), sr_Healthy (stats (reg s) ks rtr)) \<and>
    (WorkersDesc, Fin (of_nat (card {wid. \<exists>e. workers (reg s) wid = Some e \<and> State e = st})), [state_label st])
      \<in> set (Collect_metrics (reg s) ks rtr ss ids r2 ks2 ms) \<and>
    (FleetCostDesc, sr_FleetCostPerHour (stats (reg s) ks rtr), []) \<in> set (Collect_metrics (reg s) ks rtr ss ids r2 ks2 ms)"
proof -
  let ?es = "ListWorkers (reg s) ks"
  let ?f = "fold collect_worker ?es (no_counts, Fin 0)"
  have inv: "reg_inv s" by (rule regsys.reach_inv [OF assms(1)])
  then have known: "\<forall>e \<in> set ?es. known_state (State e)"
    by (auto simp: ListWorkers_def set_range_values reg_inv_def entry_ok_def)
  have len: "length ?es = card (dom (workers (reg s)))"
    by (simp add: ListWorkers_def length_range_values [OF assms(2)])
  have k: "known_state st" using assms(4) by (simp add: known_state_def)
  have "no_counts (state_label st) = Some (Fin (of_nat 0))"
    using assms(4) by (auto simp: no_counts_def state_labels)
  from collect_fold [where c = no_counts and es = ?es and x = "Fin 0", OF k this]
  have c: "fst ?f (state_label st) = Some (Fin (of_nat (in_state st ?es)))"
    using assms(3) len by simp
  have card: "in_state st ?es = card {wid. \<exists>e. workers (reg s) wid = Some e \<and> State e = st}"
    by (simp add: in_state_def ListWorkers_def length_filter_range_values [OF assms(2)])
  have cost: "snd ?f = sr_FleetCostPerHour (stats (reg s) ks rtr)"
    unfolding stats_def Let_def by (rule collect_cost) simp
  have "WorkerCount (reg s) ks = (sr_Total (stats (reg s) ks rtr), sr_Healthy (stats (reg s) ks rtr))"
    by (simp add: WorkerCount_eq stats_counts healthy_in_state ListWorkers_def)
  moreover have "(WorkersDesc, Fin (of_nat (in_state st ?es)), [state_label st]) \<in> set (Collect_metrics (reg s) ks rtr ss ids r2 ks2 ms)"
    by (rule Collect_gauge [OF c assms(5)])
  moreover have "(FleetCostDesc, snd ?f, []) \<in> set (Collect_metrics (reg s) ks rtr ss ids r2 ks2 ms)"
    by (simp add: Collect_metrics_def Let_def case_prod_beta)
  ultimately show ?thesis
    using known_states_partition [OF known] by (simp add: stats_counts len card cost)
qed

lemma demo_registered_workers: "workers (reg demo_registered) = [''w'' \<mapsto> demo_entry]"
  by (simp add: demo_registered_def Register_eq new_entry_def AfterFunc_def demo_info_def New_def Let_def demo_entry_def)

theorem fleet_views_agree_witness:
  "sr_Total (stats (reg demo_registered) [''w''] (Router_New False)) = 1 \<and>
   (WorkersDesc, Fin 1, [''starting'']) \<in> set (Collect_metrics (reg demo_registered) [''w''] (Router_New False)
     [''starting''] [] (reg demo_registered) [] [])"
proof -
  have card: "card (dom (workers (reg demo_registered))) = 1" by (simp add: demo_registered_workers)
  have one: "card {wid. \<exists>e. workers (reg demo_registered) wid = Some e \<and> State e = STARTING} = 1"
    by (simp add: demo_registered_workers demo_entry_def)
  have "int (card (dom (workers (reg demo_registered)))) < 2 ^ 53" by (simp add: card)
  from fleet_views_agree [OF demo_registered_reach demo_registered_order this, of STARTING "[''starting'']" "Router_New False" "[]"
        "reg demo_registered" "[]" "[]"]
  show ?thesis unfolding card one state_labels by simp
qed

section \<open>A scrape is well typed\<close>

text \<open>
  The documented contract of the library. A description is valid if its name and its labels have the
  documented form (a letter, underscore or, in a metric's name, colon first, then also digits; labels that begin
  with two underscores are reserved), no label is repeated and it has a help text. A metric can be made
  from a valid description and as many label values as it has labels, if they are valid UTF-8; a collector can
  be registered if its descriptions are valid and none of them is registered already under the same name.
\<close>

definition ascii_letter :: "char \<Rightarrow> bool" where
  "ascii_letter c \<longleftrightarrow> (let n = of_char c :: nat in 65 \<le> n \<and> n \<le> 90 \<or> 97 \<le> n \<and> n \<le> 122)"

definition ascii_digit :: "char \<Rightarrow> bool" where
  "ascii_digit c \<longleftrightarrow> (let n = of_char c :: nat in 48 \<le> n \<and> n \<le> 57)"

definition label_name :: "string \<Rightarrow> bool" where
  "label_name s \<longleftrightarrow> s \<noteq> [] \<and> (ascii_letter (hd s) \<or> hd s = CHR ''_'') \<and>
     (\<forall>c \<in> set s. ascii_letter c \<or> ascii_digit c \<or> c = CHR ''_'') \<and> take 2 s \<noteq> ''__''"

definition metric_name :: "string \<Rightarrow> bool" where
  "metric_name s \<longleftrightarrow> s \<noteq> [] \<and> (ascii_letter (hd s) \<or> hd s \<in> {CHR ''_'', CHR '':''}) \<and>
     (\<forall>c \<in> set s. ascii_letter c \<or> ascii_digit c \<or> c \<in> {CHR ''_'', CHR '':''})"

definition valid_desc :: "metric_desc \<Rightarrow> bool" where
  "valid_desc d \<longleftrightarrow> metric_name (fqName d) \<and> md_help d \<noteq> [] \<and> list_all label_name (variableLabels d) \<and> distinct (variableLabels d)"

definition makes_metrics :: "(string \<Rightarrow> bool) \<Rightarrow> (metric_desc \<Rightarrow> float64 \<Rightarrow> string list \<Rightarrow> 'm option) \<Rightarrow> bool" where
  "makes_metrics utf8 mk \<longleftrightarrow>
     (\<forall>d v ls. valid_desc d \<and> length ls = length (variableLabels d) \<and> (\<forall>l \<in> set ls. utf8 l) \<longrightarrow> mk d v ls \<noteq> None)"

lemma newCollector_valid: "valid_desc (newCollector d)"
  by (cases d) (simp_all add: newCollector_def valid_desc_def metric_name_def label_name_def ascii_letter_def ascii_digit_def Let_def)

definition well_typed :: "(string \<Rightarrow> bool) \<Rightarrow> metric \<Rightarrow> bool" where
  "well_typed utf8 x \<longleftrightarrow>
     (case x of (d, v, ls) \<Rightarrow>
        d \<in> set Describe \<and> length ls = length (variableLabels (newCollector d)) \<and> (\<forall>l \<in> set ls. utf8 l))"

definition series :: "metric \<Rightarrow> string \<times> string list" where
  "series x = (case x of (d, v, ls) \<Rightarrow> (fqName (newCollector d), ls))"

lemma send_metrics_ok:
  assumes "makes_metrics utf8 mk" and "\<forall>x \<in> set xs. well_typed utf8 x"
  shows "\<exists>ms. send_metrics mk xs ch = Inr (ch @ ms) \<and> length ms = length xs"
  using assms(2)
proof (induction xs arbitrary: ch)
  case (Cons x xs)
  obtain d v ls where x: "x = (d, v, ls)" by (cases x)
  have "well_typed utf8 (d, v, ls)" using Cons.prems x by simp
  then have "mk (newCollector d) v ls \<noteq> None"
    using assms(1) [unfolded makes_metrics_def, rule_format, of "newCollector d" ls v] newCollector_valid [of d]
    by (simp add: well_typed_def)
  then obtain m where m: "mk (newCollector d) v ls = Some m" by auto
  obtain ms where "send_metrics mk xs (ch @ [m]) = Inr ((ch @ [m]) @ ms)" "length ms = length xs"
    using Cons.IH [of "ch @ [m]"] Cons.prems by auto
  then show ?case using x m by (intro exI [of _ "m # ms"]) simp
qed simp

lemma collect_worker_dom: "fst (collect_worker e cx) l \<noteq> None \<Longrightarrow> fst cx l \<noteq> None \<or> l \<in> dom no_counts"
  by (cases cx) (auto simp: collect_worker_def bump_def no_counts_def split: WorkerState.splits if_splits)

lemma collect_fold_dom: "fst (fold collect_worker es cx) l \<noteq> None \<Longrightarrow> fst cx l \<noteq> None \<or> l \<in> dom no_counts"
proof (induction es arbitrary: cx)
  case (Cons e es)
  have "fst (fold collect_worker es (collect_worker e cx)) l \<noteq> None" using Cons.prems by simp
  from Cons.IH [OF this] show ?case using collect_worker_dom [of e cx l] by blast
qed simp

lemma desc_simps [simp]:
  "fqName (newCollector WorkersDesc) = ''llm_workers''" "variableLabels (newCollector WorkersDesc) = [''state'']"
  "fqName (newCollector InFlightDesc) = ''llm_worker_in_flight''" "variableLabels (newCollector InFlightDesc) = [''worker_id'']"
  "fqName (newCollector ModelDesc) = ''llm_model_healthy_workers''" "variableLabels (newCollector ModelDesc) = [''model'']"
  "fqName (newCollector FleetCostDesc) = ''llm_fleet_cost_per_hour''" "variableLabels (newCollector FleetCostDesc) = []"
  by (simp_all add: newCollector_def)

lemma ModelsServed_models: "map ms_Model (ModelsServed r ks ms) = filter (\<lambda>m. model_counts r ks m \<noteq> None) ms"
  by (simp add: ModelsServed_def comp_def)

lemma Collect_metrics_series:
  "\<exists>ls. set ls \<subseteq> dom no_counts \<and> (distinct ss \<longrightarrow> distinct ls) \<and>
     map (\<lambda>(d, v, ls). (d, ls)) (Collect_metrics r1 ks1 rtr ss ids r2 ks2 ms) =
       map (\<lambda>l. (WorkersDesc, [l])) ls @ [(FleetCostDesc, [])] @
       map (\<lambda>wid. (InFlightDesc, [wid])) (filter (\<lambda>wid. wid \<in> dom (inFlight rtr)) ids) @
       map (\<lambda>m. (ModelDesc, [m])) (filter (\<lambda>m. model_counts r2 ks2 m \<noteq> None) ms)"
proof -
  let ?c = "fst (fold collect_worker (ListWorkers r1 ks1) (no_counts, Fin 0))"
  let ?ls = "filter (\<lambda>st. ?c st \<noteq> None) ss"
  have "set ?ls \<subseteq> dom no_counts"
    using collect_fold_dom [where cx = "(no_counts, Fin 0)"] by fastforce
  moreover have "map (\<lambda>s. (ModelDesc, [ms_Model s])) (ModelsServed r2 ks2 ms) =
      map (\<lambda>m. (ModelDesc, [m])) (filter (\<lambda>m. model_counts r2 ks2 m \<noteq> None) ms)"
    unfolding ModelsServed_models [symmetric] by (simp add: comp_def)
  moreover have "filter (\<lambda>wid. InFlightSnapshot rtr wid \<noteq> None) ids = filter (\<lambda>wid. wid \<in> dom (inFlight rtr)) ids"
    by (rule filter_cong) (auto simp: InFlightSnapshot_def)
  ultimately show ?thesis
    by (intro exI [of _ ?ls]) (simp add: Collect_metrics_def Let_def case_prod_beta comp_def)
qed

text \<open>
  C29: A scrape is well typed. The descriptions of the collector are valid for the library: names, labels,
  help texts. Every value the collector sends belongs to one of the descriptions it announced, carries exactly as many label values as that description has
  labels, and no two values of a scrape have the same name and labels, whatever the orders in
  which the maps are visited. So with a library that makes metrics as documented (and ids and
  model names in UTF-8, which the RPC layer guarantees) no scrape panics: every value is sent.
\<close>

theorem scrape_well_typed:
  assumes "makes_metrics utf8 mk" and "\<forall>l \<in> dom no_counts. utf8 l"
    and "\<forall>wid \<in> dom (inFlight rtr). utf8 wid" and "\<forall>m \<in> set ms. utf8 m"
    and "distinct ss" and "distinct ids" and "distinct ms"
    and "Collect_metrics r1 ks1 rtr ss ids r2 ks2 ms = xs"
  shows "(\<forall>d. valid_desc (newCollector d)) \<and> (\<forall>x \<in> set xs. well_typed utf8 x) \<and> distinct (map series xs) \<and>
    (\<exists>sent. send_metrics mk xs [] = Inr sent \<and> length sent = length xs)"
proof -
  let ?strip = "\<lambda>(d, v, ls). (d, ls)"
  obtain ls where ls: "set ls \<subseteq> dom no_counts" "distinct ls"
    "map ?strip xs = map (\<lambda>l. (WorkersDesc, [l])) ls @ [(FleetCostDesc, [])] @
       map (\<lambda>wid. (InFlightDesc, [wid])) (filter (\<lambda>wid. wid \<in> dom (inFlight rtr)) ids) @
       map (\<lambda>m. (ModelDesc, [m])) (filter (\<lambda>m. model_counts r2 ks2 m \<noteq> None) ms)"
    using Collect_metrics_series [of ss r1 ks1 rtr ids r2 ks2 ms] assms(5,8) by auto
  have typed: "\<forall>x \<in> set xs. well_typed utf8 x"
  proof
    fix x assume "x \<in> set xs"
    then have "?strip x \<in> set (map ?strip xs)" by (simp only: set_map imageI)
    then show "well_typed utf8 x"
      using ls(1) assms(2-4) unfolding ls(3) by (cases x) (auto simp: well_typed_def Describe_def)
  qed
  have "map series xs = map (\<lambda>(d, ls). (fqName (newCollector d), ls)) (map ?strip xs)"
    by (simp add: series_def case_prod_beta)
  then have "distinct (map series xs)"
    unfolding ls(3) using ls(2) assms(6,7) by (auto simp: distinct_map comp_def inj_on_def)
  then show ?thesis using typed newCollector_valid send_metrics_ok [OF assms(1) typed, of "[]"] by simp
qed

definition demo_mk :: "metric_desc \<Rightarrow> float64 \<Rightarrow> string list \<Rightarrow> string option" where
  "demo_mk d v ls = (if valid_desc d \<and> length ls = length (variableLabels d) then Some (fqName d) else None)"

theorem scrape_well_typed_witness:
  "\<exists>sent. send_metrics demo_mk (Collect_metrics (reg demo_registered) [''w''] (inc (Router_New False) ''w'')
      [''ready'', ''starting'', ''busy'', ''dead'', ''draining''] [''w''] (reg demo_registered) [''w''] [''m'']) [] = Inr sent \<and>
    length sent = 8"
proof -
  let ?xs = "Collect_metrics (reg demo_registered) [''w''] (inc (Router_New False) ''w'')
      [''ready'', ''starting'', ''busy'', ''dead'', ''draining''] [''w''] (reg demo_registered) [''w''] [''m'']"
  have "makes_metrics (\<lambda>_. True) demo_mk" by (simp add: makes_metrics_def demo_mk_def)
  from scrape_well_typed [OF this _ _ _ _ _ _ refl, of "inc (Router_New False) ''w''" "[''m'']"
      "[''ready'', ''starting'', ''busy'', ''dead'', ''draining'']" "[''w'']" "reg demo_registered" "[''w'']" "reg demo_registered" "[''w'']"]
  have "\<exists>sent. send_metrics demo_mk ?xs [] = Inr sent \<and> length sent = length ?xs" by simp
  moreover have "length ?xs = 8"
  proof -
    have "ListWorkers (reg demo_registered) [''w''] = [demo_entry]"
      by (simp add: ListWorkers_def range_values_def demo_registered_workers)
    moreover have "InFlightSnapshot (inc (Router_New False) ''w'') ''w'' = Some 1"
      by (simp add: InFlightSnapshot_def inc_def counter64_def Router_New_def Let_def)
    moreover have "length (ModelsServed (reg demo_registered) [''w''] [''m'']) = 1"
      by (simp add: ModelsServed_def model_counts_def range_values_def demo_registered_workers demo_entry_def demo_info_def
          count_worker_def count_model_def healthy_state_def)
    ultimately show ?thesis
      by (simp add: Collect_metrics_def Let_def case_prod_beta collect_worker_def bump_def no_counts_def demo_entry_def)
  qed
  ultimately show ?thesis by simp
qed

section \<open>Registration\<close>

text \<open>The names of what is registered: two collectors of the library and the five metrics of this program.\<close>

definition collector_names :: "string set \<Rightarrow> string set \<Rightarrow> collector \<Rightarrow> string set" where
  "collector_names go proc c =
     (case c of
        GoCollector \<Rightarrow> go
      | ProcessCollector \<Rightarrow> proc
      | FleetCollector ds \<Rightarrow> fqName ` set ds
      | CounterVec d \<Rightarrow> {fqName d})"

definition collector_valid :: "collector \<Rightarrow> bool" where
  "collector_valid c =
     (case c of FleetCollector ds \<Rightarrow> list_all valid_desc ds | CounterVec d \<Rightarrow> valid_desc d | _ \<Rightarrow> True)"

lemma collectors_valid:
  "collector_valid GoCollector" "collector_valid ProcessCollector" "collector_valid (FleetCollector (map newCollector ds))"
  "collector_valid (CounterVec newRequestsCounter)"
  by (simp_all add: collector_valid_def list_all_iff newCollector_valid)
    (simp add: newRequestsCounter_def valid_desc_def metric_name_def label_name_def ascii_letter_def ascii_digit_def Let_def)

lemma Setup_registers:
  assumes register: "\<And>p c. collector_valid c \<Longrightarrow> names p \<inter> collector_names go proc c = {} \<Longrightarrow>
      \<exists>p'. register p c = Some p' \<and> names p' = names p \<union> collector_names go proc c"
    and start: "names p0 = {}" and lib: "go \<inter> proc = {}"
    and own: "\<And>n. n \<in> go \<union> proc \<Longrightarrow> take 4 n \<noteq> ''llm_''"
  shows "\<exists>p. Setup register p0 = Some p \<and>
    names p = go \<union> proc \<union> {''llm_workers'', ''llm_worker_in_flight'', ''llm_model_healthy_workers'',
      ''llm_fleet_cost_per_hour'', ''llm_requests_total''}"
proof -
  let ?fleet = "FleetCollector (map newCollector Describe)"
  have f: "collector_names go proc ?fleet = {''llm_workers'', ''llm_worker_in_flight'', ''llm_model_healthy_workers'',
      ''llm_fleet_cost_per_hour''}"
    by (simp add: collector_names_def Describe_def)
  have c: "collector_names go proc (CounterVec newRequestsCounter) = {''llm_requests_total''}"
    by (simp add: collector_names_def newRequestsCounter_def)
  obtain p1 where p1: "register p0 GoCollector = Some p1" "names p1 = go"
    using register [of GoCollector p0] collectors_valid start by (auto simp: collector_names_def)
  obtain p2 where p2: "register p1 ProcessCollector = Some p2" "names p2 = go \<union> proc"
    using register [of ProcessCollector p1] collectors_valid p1(2) lib by (auto simp: collector_names_def)
  have "names p2 \<inter> collector_names go proc ?fleet = {}" using own by (fastforce simp: f p2(2))
  then obtain p3 where p3: "register p2 ?fleet = Some p3" "names p3 = go \<union> proc \<union> collector_names go proc ?fleet"
    using register [of ?fleet p2] collectors_valid(3) p2(2) by auto
  have "names p3 \<inter> collector_names go proc (CounterVec newRequestsCounter) = {}"
    using own by (fastforce simp: f c p3(2))
  then obtain p4 where p4: "register p3 (CounterVec newRequestsCounter) = Some p4"
      "names p4 = names p3 \<union> {''llm_requests_total''}"
    using register [of "CounterVec newRequestsCounter" p3] collectors_valid(4) c by auto
  show ?thesis by (intro exI [of _ p4]) (auto simp: Setup_def p1(1) p2(1) p3 p4 f)
qed

end
