(* ===== verification/Scaler.thy ===== *)
theory Scaler
  imports Registry_Reads Go_Strings
begin

text \<open>
  The fleet scaler (\<^verbatim>\<open>control-plane/scaler/scaler.go\<close>).

  A sweep works on a snapshot of the workers: \<open>others i\<close> is what other goroutines do to the
  registry before the \<open>i\<close>-th worker of the snapshot is handled, \<open>now i\<close> the clock then.
  Warnings are values; the callback's calls are recorded in order.
\<close>

section \<open>Configuration\<close>

definition DefaultSweepInterval :: duration where
  "DefaultSweepInterval = 30 * Second"

definition DefaultDeadGrace :: duration where
  "DefaultDeadGrace = 30 * Second"

definition DefaultMinHealthy :: int where
  "DefaultMinHealthy = 1"

record Scaler =
  sweepInterval :: duration
  deadGrace :: duration
  minHealthy :: int
  hasOnEvicted :: bool

definition WithSweepInterval :: "duration \<Rightarrow> Scaler \<Rightarrow> Scaler" where
  "WithSweepInterval d s = s\<lparr>sweepInterval := d\<rparr>"

definition WithDeadGrace :: "duration \<Rightarrow> Scaler \<Rightarrow> Scaler" where
  "WithDeadGrace d s = s\<lparr>deadGrace := d\<rparr>"

definition WithMinHealthy :: "int \<Rightarrow> Scaler \<Rightarrow> Scaler" where
  "WithMinHealthy n s = s\<lparr>minHealthy := n\<rparr>"

definition WithOnWorkerEvicted :: "Scaler \<Rightarrow> Scaler" where
  "WithOnWorkerEvicted s = s\<lparr>hasOnEvicted := True\<rparr>"

definition Scaler_New :: "(Scaler \<Rightarrow> Scaler) list \<Rightarrow> Scaler" where
  "Scaler_New opts =
     fold (\<lambda>opt s. opt s) opts
       \<lparr>sweepInterval = DefaultSweepInterval, deadGrace = DefaultDeadGrace, minHealthy = DefaultMinHealthy,
        hasOnEvicted = False\<rparr>"

section \<open>One sweep\<close>

type_synonym evictions = "(string \<times> string list) list"

definition handleDead :: "Scaler \<Rightarrow> time \<Rightarrow> WorkerEntry \<Rightarrow> Registry \<times> evictions \<Rightarrow> Registry \<times> evictions" where
  "handleDead s now w = (\<lambda>(r, evs).
     if IsZero (MarkedDeadAt w) then (r, evs)
     else if time_sub now (MarkedDeadAt w) < deadGrace s then (r, evs)
     else case Evict r (WorkerId (Info w)) of
            (Inl _, _) \<Rightarrow> (r, evs)
          | (Inr _, r') \<Rightarrow>
              (r', if hasOnEvicted s then evs @ [(WorkerId (Info w), ModelsLoaded (Info w))] else evs))"

fun sweep_workers ::
  "Scaler \<Rightarrow> (nat \<Rightarrow> time) \<Rightarrow> (nat \<Rightarrow> Registry \<Rightarrow> Registry) \<Rightarrow> nat \<Rightarrow> WorkerEntry list \<Rightarrow>
     Registry \<times> evictions \<Rightarrow> Registry \<times> evictions" where
  "sweep_workers s now others i [] acc = acc"
| "sweep_workers s now others i (w # ws) (r, evs) =
     (let r1 = others i r
      in sweep_workers s now others (Suc i) ws
           (if State w = DEAD then handleDead s (now i) w (r1, evs) else (r1, evs)))"

datatype warning = FleetBelowMinimum nat int | ModelUnserved string nat

text \<open>The orders in which the maps are visited: the snapshot, the recount, the models.\<close>

definition Sweep ::
  "Scaler \<Rightarrow> (nat \<Rightarrow> time) \<Rightarrow> (nat \<Rightarrow> Registry \<Rightarrow> Registry) \<Rightarrow> string list \<Rightarrow> string list \<Rightarrow> string list \<Rightarrow>
     Registry \<Rightarrow> Registry \<times> evictions \<times> warning list" where
  "Sweep s now others ks ks' ms r =
     (let (r', evs) = sweep_workers s now others 0 (ListWorkers r ks) (r, []);
          (all, currentHealthy) = WorkerCount r' ks';
          below = (if 0 < all \<and> int currentHealthy < minHealthy s
                   then [FleetBelowMinimum currentHealthy (minHealthy s)] else []);
          unserved = map (\<lambda>m. ModelUnserved (ms_Model m) (TotalWorkers m))
                       (filter (\<lambda>m. HealthyWorkers m = 0) (ModelsServed r' ks' ms))
      in (r', evs, below @ unserved))"

text \<open>The loop: one sweep at the start and one per tick. Each tick brings its own clock and orders.\<close>

record tick =
  tk_now :: "nat \<Rightarrow> time"
  tk_others :: "nat \<Rightarrow> Registry \<Rightarrow> Registry"
  tk_before :: "Registry \<Rightarrow> Registry"
  tk_ks :: "Registry \<Rightarrow> string list"
  tk_ms :: "Registry \<Rightarrow> string list"

definition sweep_tick :: "Scaler \<Rightarrow> tick \<Rightarrow> Registry \<times> evictions \<Rightarrow> Registry \<times> evictions" where
  "sweep_tick s t = (\<lambda>(r, evs).
     let r0 = tk_before t r;
         (r', evs', _) = Sweep s (tk_now t) (tk_others t) (tk_ks t r0) (tk_ks t r0) (tk_ms t r0) r0
     in (r', evs @ evs'))"

definition scaler_Run :: "Scaler \<Rightarrow> tick list \<Rightarrow> Registry \<Rightarrow> Registry \<times> evictions" where
  "scaler_Run s ticks r = fold (sweep_tick s) ticks (r, [])"

section \<open>What a sweep does\<close>

lemma Evict_Some:
  "workers r wid = Some e \<Longrightarrow>
     Evict r wid = (Inr (), (timer_Stop r (deadlineTimer e))\<lparr>workers := (workers r)(wid := None)\<rparr>)"
  by (simp add: Evict_def timer_Stop_def Let_def)

lemma Evict_None: "workers r wid = None \<Longrightarrow> Evict r wid = (Inl (WorkerNotFound wid), r)"
  by (simp add: Evict_def)

definition expired :: "Scaler \<Rightarrow> time \<Rightarrow> WorkerEntry \<Rightarrow> bool" where
  "expired s t e \<longleftrightarrow> State e = DEAD \<and> MarkedDeadAt e \<noteq> 0 \<and> \<not> time_sub t (MarkedDeadAt e) < deadGrace s"

lemma handleDead_cases:
  assumes "State w = DEAD" and "workers r (WorkerId (Info w)) = Some w"
  shows "handleDead s t w (r, evs) =
    (if expired s t w
     then ((timer_Stop r (deadlineTimer w))\<lparr>workers := (workers r)(WorkerId (Info w) := None)\<rparr>,
           evs @ (if hasOnEvicted s then [(WorkerId (Info w), ModelsLoaded (Info w))] else []))
     else (r, evs))"
  using assms by (simp add: handleDead_def expired_def IsZero_def Evict_Some)

text \<open>A sweep of a registry nobody else changes, at one instant.\<close>

lemma sweep_workers_Cons_quiet:
  assumes "workers r (WorkerId (Info w)) = Some w"
  shows "sweep_workers s (\<lambda>_. t) (\<lambda>_. id) i (w # ws) (r, evs) =
    (if expired s t w
     then sweep_workers s (\<lambda>_. t) (\<lambda>_. id) (Suc i) ws
            ((timer_Stop r (deadlineTimer w))\<lparr>workers := (workers r)(WorkerId (Info w) := None)\<rparr>,
             evs @ (if hasOnEvicted s then [(WorkerId (Info w), ModelsLoaded (Info w))] else []))
     else sweep_workers s (\<lambda>_. t) (\<lambda>_. id) (Suc i) ws (r, evs))"
  using handleDead_cases [OF _ assms, of s t evs] by (simp add: expired_def)

definition removed :: "Scaler \<Rightarrow> time \<Rightarrow> WorkerEntry list \<Rightarrow> (string \<rightharpoonup> WorkerEntry) \<Rightarrow> string \<rightharpoonup> WorkerEntry" where
  "removed s t ws m = (\<lambda>wid. if wid \<in> (\<lambda>e. WorkerId (Info e)) ` set (filter (expired s t) ws) then None else m wid)"

definition callback_calls :: "Scaler \<Rightarrow> time \<Rightarrow> WorkerEntry list \<Rightarrow> evictions" where
  "callback_calls s t ws =
     (if hasOnEvicted s then map (\<lambda>e. (WorkerId (Info e), ModelsLoaded (Info e))) (filter (expired s t) ws) else [])"

lemma removed_Cons:
  "removed s t (w # ws) m =
     (if expired s t w then removed s t ws (m(WorkerId (Info w) := None)) else removed s t ws m)"
  by (auto simp: removed_def fun_eq_iff)

lemma callback_calls_Cons:
  "callback_calls s t (w # ws) =
     (if expired s t w \<and> hasOnEvicted s then [(WorkerId (Info w), ModelsLoaded (Info w))] else []) @
     callback_calls s t ws"
  by (simp add: callback_calls_def)

lemma still_keyed:
  assumes "distinct (map (\<lambda>e. WorkerId (Info e)) (w # ws))"
    and "\<forall>e \<in> set (w # ws). workers r (WorkerId (Info e)) = Some e"
  shows "\<forall>e \<in> set ws. workers ((timer_Stop r (deadlineTimer w))\<lparr>workers := (workers r)(WorkerId (Info w) := None)\<rparr>)
    (WorkerId (Info e)) = Some e"
proof
  fix e assume "e \<in> set ws"
  then have "WorkerId (Info e) \<in> (\<lambda>e. WorkerId (Info e)) ` set ws" by (rule imageI)
  moreover have "WorkerId (Info w) \<notin> (\<lambda>e. WorkerId (Info e)) ` set ws"
    using assms(1) unfolding list.map distinct.simps set_map by (rule conjunct1)
  ultimately have "WorkerId (Info e) \<noteq> WorkerId (Info w)" by metis
  moreover have "workers r (WorkerId (Info e)) = Some e"
    using assms(2) \<open>e \<in> set ws\<close> by (simp only: list.set_intros)
  ultimately show "workers ((timer_Stop r (deadlineTimer w))\<lparr>workers := (workers r)(WorkerId (Info w) := None)\<rparr>)
    (WorkerId (Info e)) = Some e" by simp
qed

lemma sweep_workers_quiet:
  assumes "distinct (map (\<lambda>e. WorkerId (Info e)) ws)"
    and "\<forall>e \<in> set ws. workers r (WorkerId (Info e)) = Some e"
  shows "workers (fst (sweep_workers s (\<lambda>_. t) (\<lambda>_. id) i ws (r, evs))) = removed s t ws (workers r)"
    and "snd (sweep_workers s (\<lambda>_. t) (\<lambda>_. id) i ws (r, evs)) = evs @ callback_calls s t ws"
  using assms
proof (induction ws arbitrary: r evs i)
  case Nil
  case 1 show ?case by (simp add: removed_def)
  case 2 show ?case by (simp add: callback_calls_def)
next
  case (Cons w ws)
  {
    case 1
    have w: "workers r (WorkerId (Info w)) = Some w" using 1(2) by simp
    have d: "distinct (map (\<lambda>e. WorkerId (Info e)) ws)" and ws: "\<forall>e \<in> set ws. workers r (WorkerId (Info e)) = Some e"
      using 1 by simp_all
    show ?case
      unfolding sweep_workers_Cons_quiet [OF w] removed_Cons
      by (simp add: Cons.IH(1) [OF d still_keyed [OF 1]] Cons.IH(1) [OF d ws] del: fun_upd_apply)
  next
    case 2
    have w: "workers r (WorkerId (Info w)) = Some w" using 2(2) by simp
    have d: "distinct (map (\<lambda>e. WorkerId (Info e)) ws)" and ws: "\<forall>e \<in> set ws. workers r (WorkerId (Info e)) = Some e"
      using 2 by simp_all
    show ?case
      unfolding sweep_workers_Cons_quiet [OF w] callback_calls_Cons
      by (simp add: Cons.IH(2) [OF d still_keyed [OF 2]] Cons.IH(2) [OF d ws] del: fun_upd_apply)
  }
qed

lemma quiet_sweep:
  assumes "keyed_registry r" and "range_order (workers r) ks"
    and "Sweep s (\<lambda>_. t) (\<lambda>_. id) ks ks' ms r = (r', evs, warns)"
  shows "workers r' = removed s t (ListWorkers r ks) (workers r)"
    and "evs = callback_calls s t (ListWorkers r ks)"
proof -
  have d: "distinct (map (\<lambda>e. WorkerId (Info e)) (ListWorkers r ks))"
    using keyed_ids [OF assms(1,2)] assms(2) by (simp add: ListWorkers_def range_order_def)
  have e: "\<forall>e \<in> set (ListWorkers r ks). workers r (WorkerId (Info e)) = Some e"
    using assms(1) by (auto simp: ListWorkers_def set_range_values keyed_registry_def)
  have "sweep_workers s (\<lambda>_. t) (\<lambda>_. id) 0 (ListWorkers r ks) (r, []) = (r', evs)"
    using assms(3) by (auto simp: Sweep_def Let_def case_prod_beta)
  then show "workers r' = removed s t (ListWorkers r ks) (workers r)"
    and "evs = callback_calls s t (ListWorkers r ks)"
    using sweep_workers_quiet [OF d e, of s t 0 "[]"] by simp_all
qed

lemma removed_lookup:
  assumes "keyed_registry r" and "range_order (workers r) ks"
  shows "removed s t (ListWorkers r ks) (workers r) wid =
    (case workers r wid of Some e \<Rightarrow> if expired s t e then None else Some e | None \<Rightarrow> None)"
proof -
  have "wid \<in> (\<lambda>e. WorkerId (Info e)) ` set (filter (expired s t) (ListWorkers r ks)) \<longleftrightarrow>
      (\<exists>e. workers r wid = Some e \<and> expired s t e)"
    using assms by (force simp: ListWorkers_def set_range_values keyed_registry_def range_order_def image_iff)
  then show ?thesis by (auto simp: removed_def split: option.splits)
qed

text \<open>The warnings in terms of the registry after the evictions.\<close>

lemma sum_list_loads_0:
  "sum_list (map (loads m) es) = 0 \<longleftrightarrow> (\<forall>e \<in> set es. m \<notin> set (ModelsLoaded (Info e)))"
  by (auto simp: loads_def count_list_0_iff)

lemma model_counts_None:
  "model_counts r ks m = None \<longleftrightarrow> (\<forall>e \<in> set (range_values (workers r) ks). m \<notin> set (ModelsLoaded (Info e)))"
  using model_counts_spec(3) [of r ks] by (auto simp: domIff)

lemma unserved_model:
  assumes "range_order (workers r) ks" and "set ms \<supseteq> dom (model_counts r ks)"
  shows "(\<exists>st \<in> set (ModelsServed r ks ms). ms_Model st = m \<and> HealthyWorkers st = 0) \<longleftrightarrow>
    (\<exists>wid e. workers r wid = Some e \<and> m \<in> set (ModelsLoaded (Info e))) \<and> HealthyWorkersForModel r ks m = []"
proof -
  have "(\<exists>st \<in> set (ModelsServed r ks ms). ms_Model st = m \<and> HealthyWorkers st = 0) \<longleftrightarrow>
      model_counts r ks m \<noteq> None \<and> healthy_of (model_counts r ks) m = 0"
    using assms(2) by (auto simp: ModelsServed_def healthy_of_def domIff)
  also have "healthy_of (model_counts r ks) m = 0 \<longleftrightarrow> HealthyWorkersForModel r ks m = []"
    by (simp only: model_counts_spec sum_list_loads_0 HealthyWorkersForModel_def filter_empty_conv) auto
  also have "model_counts r ks m \<noteq> None \<longleftrightarrow> (\<exists>wid e. workers r wid = Some e \<and> m \<in> set (ModelsLoaded (Info e)))"
    using range_values_ran [OF assms(1)] by (auto simp: model_counts_None ran_def)
  finally show ?thesis .
qed

lemma sweep_warnings:
  assumes "Sweep s now others ks ks' ms r = (r', evs, warns)" and "range_order (workers r') ks'"
    and "set ms \<supseteq> dom (model_counts r' ks')"
  shows "(\<exists>n. FleetBelowMinimum n (minHealthy s) \<in> set warns) \<longleftrightarrow>
      workers r' \<noteq> Map.empty \<and> int (card {wid. \<exists>e. workers r' wid = Some e \<and> healthy_state (State e)}) < minHealthy s"
    and "(\<exists>n. ModelUnserved m n \<in> set warns) \<longleftrightarrow>
      (\<exists>wid e. workers r' wid = Some e \<and> m \<in> set (ModelsLoaded (Info e))) \<and>
      HealthyWorkersForModel r' ks' m = []"
proof -
  have c: "WorkerCount r' ks' = (card (dom (workers r')), card {wid. \<exists>e. workers r' wid = Some e \<and> healthy_state (State e)})"
    by (simp add: WorkerCount_eq length_range_values length_filter_range_values assms(2))
  have w: "warns = (if 0 < fst (WorkerCount r' ks') \<and> int (snd (WorkerCount r' ks')) < minHealthy s
        then [FleetBelowMinimum (snd (WorkerCount r' ks')) (minHealthy s)] else []) @
      map (\<lambda>m. ModelUnserved (ms_Model m) (TotalWorkers m)) (filter (\<lambda>m. HealthyWorkers m = 0) (ModelsServed r' ks' ms))"
    using assms(1) by (auto simp: Sweep_def Let_def case_prod_beta)
  have "finite (dom (workers r'))" using assms(2) by (metis List.finite_set range_order_def)
  then have "0 < card (dom (workers r')) \<longleftrightarrow> workers r' \<noteq> Map.empty" by (simp add: card_gt_0_iff)
  then show "(\<exists>n. FleetBelowMinimum n (minHealthy s) \<in> set warns) \<longleftrightarrow>
      workers r' \<noteq> Map.empty \<and> int (card {wid. \<exists>e. workers r' wid = Some e \<and> healthy_state (State e)}) < minHealthy s"
    unfolding w c by auto
  show "(\<exists>n. ModelUnserved m n \<in> set warns) \<longleftrightarrow>
      (\<exists>wid e. workers r' wid = Some e \<and> m \<in> set (ModelsLoaded (Info e))) \<and>
      HealthyWorkersForModel r' ks' m = []"
    unfolding unserved_model [OF assms(2,3), symmetric] w by auto
qed

section \<open>Properties\<close>

text \<open>
  C15: A sweep evicts exactly the expired workers. On a registry whose entries are stored under
  their id and which nobody else changes meanwhile, a sweep removes the workers that are
  DEAD and were marked dead at least the grace period ago, and no other; every other
  entry is untouched; the eviction callback is called exactly once per removed worker,
  with its id and its models; the warning about the fleet is raised exactly if workers
  remain and fewer than the minimum are healthy, and a model is reported exactly if a
  remaining worker lists it and no healthy one does.
\<close>

theorem sweep_evicts_exactly_expired:
  assumes "keyed_registry r" and "range_order (workers r) ks"
    and "Sweep s (\<lambda>_. t) (\<lambda>_. id) ks ks' ms r = (r', evs, warns)"
    and "range_order (workers r') ks'" and "dom (model_counts r' ks') \<subseteq> set ms"
  shows "(\<forall>wid. workers r' wid = (case workers r wid of Some e \<Rightarrow> if expired s t e then None else Some e | None \<Rightarrow> None)) \<and>
    (hasOnEvicted s \<longrightarrow> distinct (map fst evs) \<and>
      (\<forall>wid models. (wid, models) \<in> set evs \<longleftrightarrow>
        (\<exists>e. workers r wid = Some e \<and> expired s t e \<and> models = ModelsLoaded (Info e)))) \<and>
    ((\<exists>n. FleetBelowMinimum n (minHealthy s) \<in> set warns) \<longleftrightarrow>
      workers r' \<noteq> Map.empty \<and> int (card {wid. \<exists>e. workers r' wid = Some e \<and> healthy_state (State e)}) < minHealthy s) \<and>
    (\<forall>m. (\<exists>n. ModelUnserved m n \<in> set warns) \<longleftrightarrow>
      (\<exists>wid e. workers r' wid = Some e \<and> m \<in> set (ModelsLoaded (Info e))) \<and>
      HealthyWorkersForModel r' ks' m = [])"
proof (intro conjI allI impI)
  note q = quiet_sweep [OF assms(1-3)]
  show "workers r' wid = (case workers r wid of Some e \<Rightarrow> if expired s t e then None else Some e | None \<Rightarrow> None)" for wid
    by (simp add: q(1) removed_lookup [OF assms(1,2)])
  have "distinct (map (\<lambda>e. WorkerId (Info e)) (ListWorkers r ks))"
    using keyed_ids [OF assms(1,2)] assms(2) by (simp add: ListWorkers_def range_order_def)
  then show "distinct (map fst evs)" if "hasOnEvicted s"
    using that by (simp add: q(2) callback_calls_def comp_def distinct_map_filter)
  show "(wid, models) \<in> set evs \<longleftrightarrow>
      (\<exists>e. workers r wid = Some e \<and> expired s t e \<and> models = ModelsLoaded (Info e))"
    if "hasOnEvicted s" for wid models
    using that assms(1,2)
    by (force simp: q(2) callback_calls_def ListWorkers_def set_range_values keyed_registry_def range_order_def image_iff)
  show "(\<exists>n. FleetBelowMinimum n (minHealthy s) \<in> set warns) \<longleftrightarrow>
      workers r' \<noteq> Map.empty \<and> int (card {wid. \<exists>e. workers r' wid = Some e \<and> healthy_state (State e)}) < minHealthy s"
    by (rule sweep_warnings(1) [OF assms(3-5)])
  show "(\<exists>n. ModelUnserved m n \<in> set warns) \<longleftrightarrow>
      (\<exists>wid e. workers r' wid = Some e \<and> m \<in> set (ModelsLoaded (Info e))) \<and>
      HealthyWorkersForModel r' ks' m = []" for m
    by (rule sweep_warnings(2) [OF assms(3-5)])
qed


definition demo_scaler :: Scaler where
  "demo_scaler = Scaler_New [WithDeadGrace 5, WithOnWorkerEvicted]"

definition demo_fleet :: Registry where
  "demo_fleet = (New 10)\<lparr>workers :=
     [''w'' \<mapsto> demo_entry\<lparr>State := DEAD, MarkedDeadAt := 12\<rparr>,
      ''v'' \<mapsto> demo_entry\<lparr>Info := demo_info ''v'', State := READY\<rparr>]\<rparr>"

lemma demo_fleet_ok:
  "keyed_registry demo_fleet" "range_order (workers demo_fleet) [''w'', ''v'']"
  by (auto simp: demo_fleet_def keyed_registry_def range_order_def demo_entry_def demo_info_def)

lemma demo_fleet_entries:
  "workers demo_fleet ''w'' = Some (demo_entry\<lparr>State := DEAD, MarkedDeadAt := 12\<rparr>)"
  "workers demo_fleet ''v'' = Some (demo_entry\<lparr>Info := demo_info ''v'', State := READY\<rparr>)"
  by (simp_all add: demo_fleet_def)

lemma demo_scaler_calls: "hasOnEvicted demo_scaler"
  by (simp add: demo_scaler_def Scaler_New_def WithOnWorkerEvicted_def WithDeadGrace_def)

lemma demo_expired: "expired demo_scaler 20 (demo_entry\<lparr>State := DEAD, MarkedDeadAt := 12\<rparr>)"
  by (simp add: expired_def demo_scaler_def Scaler_New_def WithDeadGrace_def WithOnWorkerEvicted_def
      time_sub_def sat64_def min_int64_def max_int64_def)

theorem sweep_evicts_exactly_expired_witness:
  "case Sweep demo_scaler (\<lambda>_. 20) (\<lambda>_. id) [''w'', ''v''] [''v''] [''m''] demo_fleet of
     (r', evs, _) \<Rightarrow> workers r' ''w'' = None \<and> workers r' ''v'' = workers demo_fleet ''v'' \<and>
       (''w'', [''m'']) \<in> set evs"
proof -
  obtain r' evs warns where s:
    "Sweep demo_scaler (\<lambda>_. 20) (\<lambda>_. id) [''w'', ''v''] [''v''] [''m''] demo_fleet = (r', evs, warns)"
    by (metis prod_cases3)
  have r': "workers r' = [''v'' \<mapsto> demo_entry\<lparr>Info := demo_info ''v'', State := READY\<rparr>]"
    unfolding quiet_sweep(1) [OF demo_fleet_ok s]
    by (rule ext, subst removed_lookup [OF demo_fleet_ok])
       (simp add: demo_fleet_def demo_expired, simp add: expired_def demo_entry_def)
  have "dom (model_counts r' [''v'']) \<subseteq> set [''m'']"
    by (simp add: model_counts_spec r' demo_info_def)
  moreover have "range_order (workers r') [''v'']" by (simp add: range_order_def r')
  ultimately have "(''w'', [''m'']) \<in> set evs"
    using sweep_evicts_exactly_expired [OF demo_fleet_ok s, THEN conjunct2, THEN conjunct1]
      demo_scaler_calls demo_expired demo_fleet_entries(1)
    by (force simp: demo_entry_def demo_info_def)
  then show ?thesis by (simp add: s r' demo_fleet_entries)
qed

section \<open>A sweep beside a registration\<close>

lemma handleDead_other:
  "WorkerId (Info w) \<noteq> wid \<Longrightarrow> workers (fst (handleDead s t w (r, evs))) wid = workers r wid"
  by (simp add: handleDead_def Evict_def timer_Stop_def set_when_def Let_def split: option.splits sum.splits)

lemma sweep_workers_append:
  "sweep_workers s now others i (xs @ ys) acc =
     sweep_workers s now others (i + length xs) ys (sweep_workers s now others i xs acc)"
proof (induction xs arbitrary: i acc)
  case (Cons w xs)
  obtain r evs where "acc = (r, evs)" by (cases acc)
  then show ?case by (simp add: Cons.IH Let_def)
qed simp

lemma sweep_workers_other:
  assumes "\<forall>w \<in> set ws. WorkerId (Info w) \<noteq> wid" and "\<forall>j. i \<le> j \<and> j < i + length ws \<longrightarrow> others j = id"
  shows "workers (fst (sweep_workers s now others i ws acc)) wid = workers (fst acc) wid"
  using assms
proof (induction ws arbitrary: i acc)
  case (Cons w ws)
  obtain r evs where acc: "acc = (r, evs)" by (cases acc)
  have "others i = id" and "\<forall>j. Suc i \<le> j \<and> j < Suc i + length ws \<longrightarrow> others j = id"
    using Cons.prems(2) by auto
  then show ?case
    using Cons.IH [of "Suc i"] Cons.prems(1) handleDead_other [of w wid s "now i" r evs]
    by (simp add: acc)
qed simp

text \<open>
  A sweep can evict a live worker. The sweep decides on a snapshot, but evicts by id: if
  a worker that has been DEAD for the grace period registers again (the answer the
  registry gives it on a rejected heartbeat is to do so) after the snapshot was taken and
  before the sweep reaches it, then the registration succeeds and a fresh STARTING entry
  is stored, and the sweep removes this fresh entry: after the sweep the id is unknown, so
  the worker's next heartbeat is refused, whatever state it reports.
\<close>

theorem sweep_evicts_reregistered:
  assumes "keyed_registry r" and "range_order (workers r) ks" and "n < length ks"
    and "workers r (ks ! n) = Some e" and "expired s (now n) e"
    and "WorkerId info = ks ! n" and "ks ! n \<noteq> ''''" and "Address info \<noteq> ''''"
    and "Sweep s now (\<lambda>i. if i = n then (\<lambda>r. snd (Register r info t1 t2)) else id) ks ks' ms r = (r', evs, warns)"
  shows "(\<exists>resp r1 e1. Register r info t1 t2 = (Inr resp, r1) \<and> rr_Ok resp \<and>
      workers r1 (ks ! n) = Some e1 \<and> State e1 = STARTING) \<and>
    workers r' (ks ! n) = None \<and>
    fst (Heartbeat r' \<lparr>hb_WorkerId = ks ! n, hb_State = st\<rparr> u1 u2) = Inl (NotRegisteredReRegister (ks ! n))"
proof -
  let ?others = "\<lambda>i. if i = n then (\<lambda>r. snd (Register r info t1 t2)) else id"
  let ?ids = "map (\<lambda>e. WorkerId (Info e))"
  define before where "before = map (\<lambda>k. the (workers r k)) (take n ks)"
  define behind where "behind = map (\<lambda>k. the (workers r k)) (drop (Suc n) ks)"
  have ks: "ListWorkers r ks = before @ e # behind"
    using assms(3,4) range_order_values [OF assms(2)] id_take_nth_drop [OF assms(3)]
    by (metis ListWorkers_def before_def behind_def list.simps(9) map_append option.sel)
  have len: "length before = n" using assms(3) by (simp add: before_def)
  have ids: "?ids before @ WorkerId (Info e) # ?ids behind = ks"
    using keyed_ids [OF assms(1,2)] ks by (simp add: ListWorkers_def)
  have e: "WorkerId (Info e) = ks ! n"
    using assms(1,4) by (simp add: keyed_registry_def)
  have "distinct (?ids before @ WorkerId (Info e) # ?ids behind)"
    using assms(2) by (simp add: ids range_order_def)
  then have fresh: "\<forall>w \<in> set before. WorkerId (Info w) \<noteq> ks ! n" "\<forall>w \<in> set behind. WorkerId (Info w) \<noteq> ks ! n"
    unfolding e by (auto dest: sym)
  obtain r0 evs0 where r0: "sweep_workers s now ?others 0 before (r, []) = (r0, evs0)" by fastforce
  define r1 where "r1 = snd (Register r0 info t1 t2)"
  have "\<exists>e1. workers r1 (ks ! n) = Some e1"
    using assms(6-8) by (simp add: r1_def Register_eq new_entry_def Let_def AfterFunc_def)
  then obtain e1 where e1: "workers r1 (ks ! n) = Some e1" ..
  have ev: "workers (fst (handleDead s (now n) e (r1, evs0))) (ks ! n) = None"
    using assms(5) by (simp add: handleDead_def expired_def IsZero_def e Evict_Some [OF e1])
  have "sweep_workers s now ?others 0 (ListWorkers r ks) (r, []) =
      sweep_workers s now ?others (Suc n) behind (handleDead s (now n) e (r1, evs0))"
    using assms(5) by (simp add: ks sweep_workers_append r0 len r1_def expired_def)
  moreover have "workers (fst (sweep_workers s now ?others (Suc n) behind (handleDead s (now n) e (r1, evs0)))) (ks ! n) = None"
    using sweep_workers_other [OF fresh(2), of "Suc n" ?others] ev by simp
  ultimately have gone: "workers r' (ks ! n) = None"
    using assms(9) by (simp add: Sweep_def Let_def case_prod_beta)
  moreover have "\<exists>resp r1 e1. Register r info t1 t2 = (Inr resp, r1) \<and> rr_Ok resp \<and>
      workers r1 (ks ! n) = Some e1 \<and> State e1 = STARTING"
    using assms(6-8) by (simp add: Register_eq new_entry_def Let_def AfterFunc_def)
  ultimately show ?thesis by (simp add: Heartbeat_def)
qed

theorem sweep_evicts_reregistered_witness:
  "workers (fst (Sweep demo_scaler (\<lambda>_. 20) (\<lambda>i. if i = 0 then (\<lambda>r. snd (Register r (demo_info ''w'') 20 20)) else id)
     [''w'', ''v''] [''v''] [''m''] demo_fleet)) ''w'' = None"
proof -
  obtain r' evs warns where s:
    "Sweep demo_scaler (\<lambda>_. 20) (\<lambda>i. if i = 0 then (\<lambda>r. snd (Register r (demo_info ''w'') 20 20)) else id)
       [''w'', ''v''] [''v''] [''m''] demo_fleet = (r', evs, warns)"
    by (metis prod_cases3)
  show ?thesis
    using sweep_evicts_reregistered [OF demo_fleet_ok, of 0, OF _ _ demo_expired _ _ _ s]
    unfolding s by (simp add: demo_fleet_entries demo_info_def)
qed

section \<open>Replacement workers\<close>

end
