(* ===== verification/Provisioner.thy ===== *)
theory Provisioner
  imports Go_Strings
begin

text \<open>
  The provisioners (\<^verbatim>\<open>control-plane/provisioner/provisioner.go\<close>): the one that starts a
  replacement worker as a Docker container, and the one that only logs.

  What \<^verbatim>\<open>exec.Command("docker", args...).CombinedOutput()\<close> gives for an argument list is the
  parameter \<open>docker\<close>: an error text, if the command failed, and its output. The argument lists
  handed to the executor are recorded in order; the printed lines are values.
\<close>

section \<open>State and operations\<close>

type_synonym docker = "string list \<Rightarrow> string option \<times> string"

text \<open>\<open>dp_run\<close> is the unexported field \<^verbatim>\<open>run\<close>, nothing when it is nil.\<close>

record DockerProvisioner =
  Image :: string
  ControlPlane :: string
  ExtraArgs :: "string list"
  dp_run :: "(string list \<Rightarrow> string option) option"

datatype provision_log =
    ReplacementStarted string string "string list"
  | ProvisionFailed string string
  | NoReplacementConfigured string "string list"

definition docker_error :: "string list \<Rightarrow> string \<Rightarrow> string \<Rightarrow> panic + string" where
  "docker_error args err out =
     (if args = [] then Inl IndexOutOfRange
      else Inr (''docker '' @ hd args @ '': '' @ err @ [CHR 0x0A] @ ''output: '' @ out))"

definition executor :: "docker \<Rightarrow> DockerProvisioner \<Rightarrow> string list \<Rightarrow> panic + string option" where
  "executor docker p args =
     (case dp_run p of
        Some f \<Rightarrow> Inr (f args)
      | None \<Rightarrow>
          (case docker args of
             (None, out) \<Rightarrow> Inr None
           | (Some err, out) \<Rightarrow> map_sum id Some (docker_error args err out)))"

definition provision_args :: "DockerProvisioner \<Rightarrow> string \<Rightarrow> string list \<Rightarrow> string list" where
  "provision_args p workerID models =
     [''run'', ''--rm'', ''--detach'', ''--name'', workerID, Image p, ''--control-plane'', ControlPlane p,
      ''--id'', workerID, ''--models'', join_with (CHR '','') models] @ ExtraArgs p"

definition Provision ::
  "docker \<Rightarrow> DockerProvisioner \<Rightarrow> string \<Rightarrow> string list \<Rightarrow> string list list \<Rightarrow>
     (panic + string option) \<times> string list list" where
  "Provision docker p workerID models cmds =
     (let args = provision_args p workerID models in (executor docker p args, cmds @ [args]))"

text \<open>The new id: the remainder is Go's, with the sign of the clock.\<close>

definition replacement_id :: "int \<Rightarrow> string \<Rightarrow> string" where
  "replacement_id unixMilli evictedID = evictedID @ ''-r'' @ Itoa (unixMilli smod 100000)"

definition OnEvicted ::
  "docker \<Rightarrow> DockerProvisioner \<Rightarrow> int \<Rightarrow> string \<Rightarrow> string list \<Rightarrow> string list list \<Rightarrow>
     (panic + provision_log) \<times> string list list" where
  "OnEvicted docker p unixMilli evictedID models cmds =
     (let newID = replacement_id unixMilli evictedID
      in case Provision docker p newID models cmds of
           (Inl pn, cmds') \<Rightarrow> (Inl pn, cmds')
         | (Inr (Some err), cmds') \<Rightarrow> (Inr (ProvisionFailed evictedID err), cmds')
         | (Inr None, cmds') \<Rightarrow> (Inr (ReplacementStarted newID evictedID models), cmds'))"

definition NoopProvisioner_Provision :: "string \<Rightarrow> string list \<Rightarrow> string option \<times> provision_log" where
  "NoopProvisioner_Provision evictedID models = (None, NoReplacementConfigured evictedID models)"

section \<open>What they do\<close>

lemma provision_args_nonempty: "provision_args p wid models \<noteq> []"
  by (simp add: provision_args_def)

lemma hd_provision_args: "hd (provision_args p wid models) = ''run''"
  by (simp add: provision_args_def)

text \<open>What became of a command, as it is printed: the first word of the command is always there, so nothing panics.\<close>

definition outcome_log :: "docker \<Rightarrow> string \<Rightarrow> string \<Rightarrow> string list \<Rightarrow> string list \<Rightarrow> provision_log" where
  "outcome_log docker newID evictedID models args =
     (case docker args of
        (None, _) \<Rightarrow> ReplacementStarted newID evictedID models
      | (Some err, out) \<Rightarrow>
          ProvisionFailed evictedID (''docker run: '' @ err @ [CHR 0x0A] @ ''output: '' @ out))"

lemma OnEvicted_docker:
  assumes "dp_run p = None"
  shows "OnEvicted docker p ms wid models cmds =
    (Inr (outcome_log docker (replacement_id ms wid) wid models (provision_args p (replacement_id ms wid) models)),
     cmds @ [provision_args p (replacement_id ms wid) models])"
  using assms
  by (simp add: OnEvicted_def Provision_def executor_def docker_error_def outcome_log_def Let_def
      provision_args_nonempty hd_provision_args split: option.split prod.split)

text \<open>An injected executor is called in place of docker, with the same arguments, and its error is printed as it is.\<close>

lemma OnEvicted_injected:
  assumes "dp_run p = Some f"
  shows "OnEvicted docker p ms wid models cmds =
    (Inr (case f (provision_args p (replacement_id ms wid) models) of
            None \<Rightarrow> ReplacementStarted (replacement_id ms wid) wid models
          | Some err \<Rightarrow> ProvisionFailed wid err),
     cmds @ [provision_args p (replacement_id ms wid) models])"
  using assms by (simp add: OnEvicted_def Provision_def executor_def Let_def split: option.split)

lemma replacement_id_fresh: "replacement_id ms wid \<noteq> wid"
  by (simp add: replacement_id_def)

end
