(* ===== verification/Request_Admin.thy ===== *)
theory Request_Admin
  imports Gateway_Props
begin

text \<open>
  The request plane's admin API (\<^verbatim>\<open>request-plane/admin\<close>) and the configuration parsers of its
  \<^verbatim>\<open>main\<close> (\<^verbatim>\<open>request-plane/cmd/server/main.go\<close>). Values are encoded by the argument
  \<open>render\<close>, doubles by \<open>num\<close>. Of the request multiplexer the model has what the handlers
  rely on: a GET pattern serves GET and HEAD of exactly that path, another method of a
  known path is a 405, another path a 404.
\<close>

section \<open>Counters\<close>

record Stats =
  st_total :: "64 word"
  st_success :: "64 word"
  st_errors :: "64 word"

definition NewStats :: Stats where
  "NewStats = \<lparr>st_total = 0, st_success = 0, st_errors = 0\<rparr>"

definition Hook :: "string \<times> bool \<Rightarrow> Stats \<Rightarrow> Stats" where
  "Hook call s =
     (let s1 = s\<lparr>st_total := st_total s + 1\<rparr>
      in if snd call then s1\<lparr>st_success := st_success s1 + 1\<rparr> else s1\<lparr>st_errors := st_errors s1 + 1\<rparr>)"

definition Snapshot :: "Stats \<Rightarrow> int \<times> int \<times> int" where
  "Snapshot s = (sint (st_total s), sint (st_success s), sint (st_errors s))"

section \<open>Handlers\<close>

definition writeJSON :: "(json \<Rightarrow> bytes) \<Rightarrow> int \<Rightarrow> json \<Rightarrow> response \<Rightarrow> response" where
  "writeJSON render status v w =
     write_body (render v @ [CHR 0x0A])
       (commit_status status (set_header ''Content-Type'' ''application/json'' w))"

definition JInt :: "int \<Rightarrow> json" where
  "JInt i = JNum (Itoa i)"

definition queue_json :: "Queue \<Rightarrow> Priority list \<Rightarrow> json" where
  "queue_json q ks = JObj
     [(''high'', JInt (int (LenByPriority q PriorityHigh))), (''normal'', JInt (int (LenByPriority q PriorityNormal))),
      (''low'', JInt (int (LenByPriority q PriorityLow))), (''total'', JInt (int (Queue_Len q ks))),
      (''capacity'', JInt (int (Queue_Cap q ks)))]"

definition handleQueue :: "(json \<Rightarrow> bytes) \<Rightarrow> Queue \<Rightarrow> Priority list \<Rightarrow> response \<Rightarrow> response" where
  "handleQueue render q ks w = writeJSON render 200 (queue_json q ks) w"

definition stats_json :: "Stats \<Rightarrow> json" where
  "stats_json s = (case Snapshot s of (n, ok, bad) \<Rightarrow>
     JObj [(''total_requests'', JInt n), (''success_requests'', JInt ok), (''error_requests'', JInt bad)])"

definition handleStats :: "(json \<Rightarrow> bytes) \<Rightarrow> Stats \<Rightarrow> response \<Rightarrow> response" where
  "handleStats render s w = writeJSON render 200 (stats_json s) w"

text \<open>The token level is left out when it is zero, as \<^verbatim>\<open>omitempty\<close> does.\<close>

definition key_json :: "(float64 \<Rightarrow> string) \<Rightarrow> RateLimiter option \<Rightarrow> time \<Rightarrow> KeyInfo \<Rightarrow> json" where
  "key_json num rl now info =
     (let unlimited = RequestsPerMin info \<le> 0;
          remaining = (if unlimited then Fin 0
                       else case rl of None \<Rightarrow> Fin 0 | Some l \<Rightarrow> fst (Tokens l (ki_KeyID info) (RequestsPerMin info) now))
      in JObj ([(''key_id'', JStr (ki_KeyID info)), (''requests_per_min'', JInt (RequestsPerMin info))] @
               (if remaining = Fin 0 then [] else [(''tokens_remaining'', JNum (num remaining))]) @
               [(''unlimited'', JBool unlimited)]))"

definition keys_json ::
  "(float64 \<Rightarrow> string) \<Rightarrow> KeyStore option \<Rightarrow> string list \<Rightarrow> RateLimiter option \<Rightarrow> time \<Rightarrow> json" where
  "keys_json num ks order rl now =
     (case ks of None \<Rightarrow> JArr [] | Some s \<Rightarrow> JArr (map (key_json num rl now) (ListKeys s order)))"

definition handleKeys ::
  "(json \<Rightarrow> bytes) \<Rightarrow> (float64 \<Rightarrow> string) \<Rightarrow> KeyStore option \<Rightarrow> string list \<Rightarrow> RateLimiter option \<Rightarrow> time \<Rightarrow>
     response \<Rightarrow> response" where
  "handleKeys render num ks order rl now w = writeJSON render 200 (keys_json num ks order rl now) w"

record admin_handler =
  ah_q :: Queue
  ah_stats :: Stats
  ah_keyStore :: "KeyStore option"
  ah_rateLimiter :: "RateLimiter option"

definition admin_mux ::
  "(json \<Rightarrow> bytes) \<Rightarrow> (float64 \<Rightarrow> string) \<Rightarrow> Priority list \<Rightarrow> string list \<Rightarrow> time \<Rightarrow> admin_handler \<Rightarrow>
     http_request \<Rightarrow> response \<Rightarrow> response" where
  "admin_mux render num ps order now h r w =
     (if Path r \<notin> {''/admin/queue'', ''/admin/stats'', ''/admin/keys''}
      then http_Error ''404 page not found'' 404 w
      else if Method r \<noteq> ''GET'' \<and> Method r \<noteq> ''HEAD''
      then http_Error ''Method Not Allowed'' 405 (set_header ''Allow'' ''GET, HEAD'' w)
      else if Path r = ''/admin/queue'' then handleQueue render (ah_q h) ps w
      else if Path r = ''/admin/stats'' then handleStats render (ah_stats h) w
      else handleKeys render num (ah_keyStore h) order (ah_rateLimiter h) now w)"

definition withCORS :: "(http_request \<Rightarrow> response \<Rightarrow> response) \<Rightarrow> http_request \<Rightarrow> response \<Rightarrow> response" where
  "withCORS nxt r w =
     (let w' = set_header ''Access-Control-Allow-Methods'' ''GET, OPTIONS''
                 (set_header ''Access-Control-Allow-Origin'' ''*'' w)
      in if Method r = ''OPTIONS'' then commit_status 204 w' else nxt r w')"

definition NewHandler ::
  "(json \<Rightarrow> bytes) \<Rightarrow> (float64 \<Rightarrow> string) \<Rightarrow> Priority list \<Rightarrow> string list \<Rightarrow> time \<Rightarrow> admin_handler \<Rightarrow>
     http_request \<Rightarrow> response \<Rightarrow> response" where
  "NewHandler render num ps order now h = withCORS (admin_mux render num ps order now h)"

section \<open>Configuration\<close>

definition parseFallbackMap :: "string \<Rightarrow> (string \<rightharpoonup> string list)" where
  "parseFallbackMap s =
     (if s = '''' then Map.empty
      else fold (\<lambda>pair out.
             case split2 (CHR ''='') pair of
               None \<Rightarrow> out
             | Some (k, v) \<Rightarrow> if k = '''' \<or> v = '''' then out else out(k \<mapsto> split_on (CHR '','') v))
             (split_on (CHR '';'') s) Map.empty)"

definition parseAPIKeys :: "string \<Rightarrow> KeyStore option" where
  "parseAPIKeys s =
     (if s = '''' then None
      else Some (fold (\<lambda>pair store.
             case split2 (CHR ''='') pair of
               None \<Rightarrow> store
             | Some (k, v) \<Rightarrow>
                 if k = '''' then store
                 else AddKey store k \<lparr>ki_KeyID = k, RequestsPerMin = fst (Atoi v)\<rparr>)
             (split_on (CHR '','') s) NewKeyStore))"

section \<open>Lemmas\<close>

lemma Hook_fold:
  "st_total (fold Hook cs s) = st_total s + of_nat (length cs)"
  "st_success (fold Hook cs s) = st_success s + of_nat (length (filter snd cs))"
  "st_errors (fold Hook cs s) = st_errors s + of_nat (length (filter (\<lambda>c. \<not> snd c) cs))"
  by (induction cs arbitrary: s) (auto simp: Hook_def Let_def algebra_simps)

definition fallback_text :: "(string \<times> string list) list \<Rightarrow> string" where
  "fallback_text kvs = join_with (CHR '';'') (map (\<lambda>(k, vs). k @ CHR ''='' # join_with (CHR '','') vs) kvs)"

text \<open>Names that can be written in the flag: no separators, and no empty list of alternatives.\<close>

definition fallback_ok :: "string \<times> string list \<Rightarrow> bool" where
  "fallback_ok kv = (case kv of (k, vs) \<Rightarrow>
     k \<noteq> [] \<and> CHR ''='' \<notin> set k \<and> CHR '';'' \<notin> set k \<and> vs \<noteq> [] \<and> vs \<noteq> [''''] \<and>
     (\<forall>v \<in> set vs. CHR '','' \<notin> set v \<and> CHR '';'' \<notin> set v))"

lemma join_with_Nil: "join_with c ws = [] \<longleftrightarrow> ws = [] \<or> ws = [[]]"
  by (induction c ws rule: join_with.induct) auto

lemma fallback_pair:
  assumes "fallback_ok (k, vs)"
  shows "split2 (CHR ''='') (k @ CHR ''='' # join_with (CHR '','') vs) = Some (k, join_with (CHR '','') vs)"
    "join_with (CHR '','') vs \<noteq> []" "split_on (CHR '','') (join_with (CHR '','') vs) = vs"
    "CHR '';'' \<notin> set (k @ CHR ''='' # join_with (CHR '','') vs)"
  using assms join_with_set [of "CHR '',''" vs]
  by (auto simp: fallback_ok_def split2_append join_with_Nil split_join)

definition put :: "'k \<times> 'v \<Rightarrow> ('k \<rightharpoonup> 'v) \<Rightarrow> ('k \<rightharpoonup> 'v)" where
  "put kv m = m(fst kv \<mapsto> snd kv)"

lemma fold_upd_map_of:
  "fold put kvs m0 = m0 ++ map_of (rev kvs)"
proof (induction kvs arbitrary: m0)
  case (Cons kv kvs)
  have "put kv m0 ++ map_of (rev kvs) = m0 ++ (map_of [kv] ++ map_of (rev kvs))"
    by (cases kv) (simp add: put_def map_add_def fun_eq_iff split: option.splits)
  then show ?case by (simp add: Cons.IH map_add_assoc)
qed simp

definition keys_text :: "(string \<times> int) list \<Rightarrow> string" where
  "keys_text kvs = join_with (CHR '','') (map (\<lambda>(k, n). k @ CHR ''='' # Itoa n) kvs)"

definition key_ok :: "string \<times> int \<Rightarrow> bool" where
  "key_ok kn = (case kn of (k, n) \<Rightarrow>
     k \<noteq> [] \<and> CHR ''='' \<notin> set k \<and> CHR '','' \<notin> set k \<and> - (2 ^ 63) \<le> n \<and> n < 2 ^ 63)"

lemma Itoa_chars: "c \<in> set (Itoa n) \<Longrightarrow> is_digit c \<or> c = CHR ''-''"
  using nat_digits_all(1) by (auto simp: Itoa_def split: if_splits)

lemma key_pair:
  assumes "key_ok (k, n)"
  shows "split2 (CHR ''='') (k @ CHR ''='' # Itoa n) = Some (k, Itoa n)" "fst (Atoi (Itoa n)) = n"
    "CHR '','' \<notin> set (k @ CHR ''='' # Itoa n)"
proof -
  have "CHR '','' \<notin> set (Itoa n)" using Itoa_chars [of "CHR '',''" n] by (auto simp: is_digit_def)
  then show "split2 (CHR ''='') (k @ CHR ''='' # Itoa n) = Some (k, Itoa n)" "fst (Atoi (Itoa n)) = n"
    "CHR '','' \<notin> set (k @ CHR ''='' # Itoa n)"
    using assms by (auto simp: key_ok_def split2_append Atoi_Itoa)
qed

section \<open>Properties\<close>

text \<open>
  The counters add up. After any sequence of calls of the metrics hook the counters are
  the numbers of requests, of successes and of errors, modulo \<open>2 ^ 64\<close>; successes and
  errors always add up to the total.
\<close>

theorem request_counters_add_up:
  "st_total (fold Hook cs NewStats) = of_nat (length cs) \<and>
   st_success (fold Hook cs NewStats) = of_nat (length (filter snd cs)) \<and>
   st_total (fold Hook cs NewStats) = st_success (fold Hook cs NewStats) + st_errors (fold Hook cs NewStats)"
proof -
  have "length cs = length (filter snd cs) + length (filter (\<lambda>c. \<not> snd c) cs)"
    by (rule sum_length_filter_compl [symmetric])
  then have "(of_nat (length cs) :: 64 word) = of_nat (length (filter snd cs)) + of_nat (length (filter (\<lambda>c. \<not> snd c) cs))"
    by (metis of_nat_add)
  then show ?thesis by (simp add: Hook_fold NewStats_def)
qed

text \<open>
  The fallback flag means what it says. Parsing the text \<^verbatim>\<open>modelA=modelB,modelC;modelD=modelE\<close>
  gives back exactly the chains it was written from, whatever the names (they may contain
  \<^verbatim>\<open>:\<close> or \<^verbatim>\<open>=\<close> in alternatives), if no name contains a separator; if a model is listed twice
  the last list counts.
\<close>

theorem fallback_flag_roundtrip:
  assumes "\<forall>kv \<in> set kvs. fallback_ok kv"
  shows "parseFallbackMap (fallback_text kvs) = map_of (rev kvs)"
proof (cases "kvs = []")
  case True
  then show ?thesis by (simp add: parseFallbackMap_def fallback_text_def)
next
  case False
  let ?t = "\<lambda>(k, vs). k @ CHR ''='' # join_with (CHR '','') vs"
  let ?step = "\<lambda>pair out. case split2 (CHR ''='') pair of None \<Rightarrow> out
      | Some (k, v) \<Rightarrow> if k = '''' \<or> v = '''' then out else out(k \<mapsto> split_on (CHR '','') v)"
  have "\<forall>w \<in> set (map ?t kvs). CHR '';'' \<notin> set w" using assms fallback_pair(4) by fastforce
  then have split: "split_on (CHR '';'') (fallback_text kvs) = map ?t kvs"
    using False unfolding fallback_text_def by (intro split_join) simp_all
  have ne: "fallback_text kvs \<noteq> []" using False unfolding fallback_text_def join_with_Nil by (cases kvs) auto
  have "fold ?step (map ?t kvs) m = fold put kvs m" for m
    using assms
  proof (induction kvs arbitrary: m)
    case (Cons kv kvs)
    obtain k vs where kv: "kv = (k, vs)" by fastforce
    then have ok: "fallback_ok (k, vs)" using Cons.prems by simp
    then have "k \<noteq> []" by (simp add: fallback_ok_def)
    moreover have "put (k, vs) m = m(k \<mapsto> vs)" by (simp add: put_def)
    ultimately show ?case using Cons kv fallback_pair(1-3) [OF ok] by simp
  qed simp
  then have "fold ?step (map ?t kvs) Map.empty = map_of (rev kvs)" by (simp add: fold_upd_map_of)
  then show ?thesis unfolding parseFallbackMap_def split using ne by simp
qed

theorem fallback_flag_roundtrip_witness:
  "parseFallbackMap ''llama3:70b=llama3:8b,llama3:3b;mistral:7b=llama3:3b'' =
     map_of [(''mistral:7b'', [''llama3:3b'']), (''llama3:70b'', [''llama3:8b'', ''llama3:3b''])]"
  using fallback_flag_roundtrip [of "[(''llama3:70b'', [''llama3:8b'', ''llama3:3b'']), (''mistral:7b'', [''llama3:3b''])]"]
  by (simp add: fallback_ok_def fallback_text_def)

text \<open>
  C30: The key flag round-trips, and publishes the secrets. Parsing \<^verbatim>\<open>key1=600,key2=60\<close> registers
  exactly the keys it was written from with their budgets; each key's public id is the
  secret key itself, so that the admin API lists every secret in clear.
\<close>

theorem key_flag_roundtrip:
  assumes "\<forall>kn \<in> set kns. key_ok kn" and "kns \<noteq> []"
  shows "\<exists>ks. parseAPIKeys (keys_text kns) = Some ks \<and>
    (\<forall>key. Lookup ks key = map_option (\<lambda>n. \<lparr>ki_KeyID = key, RequestsPerMin = n\<rparr>) (map_of (rev kns) key)) \<and>
    (\<forall>key n order num rl now. map_of (rev kns) key = Some n \<and> range_order (keys ks) order \<longrightarrow>
       (\<exists>vs ms. keys_json num (Some ks) order rl now = JArr vs \<and> JObj ms \<in> set vs \<and> (''key_id'', JStr key) \<in> set ms))"
proof -
  let ?t = "\<lambda>(k, n). k @ CHR ''='' # Itoa n"
  let ?step = "\<lambda>pair store. case split2 (CHR ''='') pair of None \<Rightarrow> store
      | Some (k, v) \<Rightarrow> if k = '''' then store else AddKey store k \<lparr>ki_KeyID = k, RequestsPerMin = fst (Atoi v)\<rparr>"
  let ?ks = "fold ?step (map ?t kns) NewKeyStore"
  have "\<forall>w \<in> set (map ?t kns). CHR '','' \<notin> set w" using assms(1) key_pair(3) by fastforce
  then have split: "split_on (CHR '','') (keys_text kns) = map ?t kns"
    using assms(2) unfolding keys_text_def by (intro split_join) simp_all
  have ne: "keys_text kns \<noteq> []" using assms(2) unfolding keys_text_def join_with_Nil by (cases kns) auto
  have "keys (fold ?step (map ?t kns) s) key =
      (case map_of (rev kns) key of None \<Rightarrow> keys s key | Some n \<Rightarrow> Some \<lparr>ki_KeyID = key, RequestsPerMin = n\<rparr>)" for s key
    using assms(1)
  proof (induction kns arbitrary: s)
    case (Cons kn kns)
    obtain k n where kn: "kn = (k, n)" by fastforce
    then have ok: "key_ok (k, n)" using Cons.prems by simp
    then have "k \<noteq> []" by (simp add: key_ok_def)
    then show ?case using Cons kn key_pair(1,2) [OF ok] by (simp add: AddKey_def map_add_def split: option.splits)
  qed simp
  then have look: "Lookup ?ks key = map_option (\<lambda>n. \<lparr>ki_KeyID = key, RequestsPerMin = n\<rparr>) (map_of (rev kns) key)" for key
    by (simp add: Lookup_def NewKeyStore_def split: option.splits)
  have listed: "\<exists>vs ms. keys_json num (Some ?ks) order rl now = JArr vs \<and> JObj ms \<in> set vs \<and> (''key_id'', JStr key) \<in> set ms"
    if "map_of (rev kns) key = Some n" "range_order (keys ?ks) order" for key n order num rl now
  proof -
    have "keys ?ks key = Some \<lparr>ki_KeyID = key, RequestsPerMin = n\<rparr>" using look [of key] that(1) by (simp add: Lookup_def)
    then have "\<lparr>ki_KeyID = key, RequestsPerMin = n\<rparr> \<in> set (ListKeys ?ks order)"
      using range_values_ran [OF that(2)] by (auto simp: ListKeys_def ran_def)
    then show ?thesis by (force simp: keys_json_def key_json_def Let_def)
  qed
  have "parseAPIKeys (keys_text kns) = Some ?ks" unfolding parseAPIKeys_def split using ne by simp
  then show ?thesis using look listed by blast
qed

theorem key_flag_roundtrip_witness:
  "\<exists>ks. parseAPIKeys ''key1=600,key2=60'' = Some ks \<and> Lookup ks ''key2'' = Some \<lparr>ki_KeyID = ''key2'', RequestsPerMin = 60\<rparr>"
proof -
  have "keys_text [(''key1'', 600), (''key2'', 60)] = ''key1=600,key2=60''" by code_simp
  then show ?thesis using key_flag_roundtrip [of "[(''key1'', 600), (''key2'', 60)]"] by (auto simp: key_ok_def)
qed

end
