(* ===== verification/Wiring.thy ===== *)
theory Wiring
  imports Agent_Steps Fleet_Metrics Scaler Provisioner Request_Admin
begin

text \<open>
  How the programs are put together: the command lines of the two worker programs
  (\<^verbatim>\<open>worker/cmd/mock/main.go\<close>, \<^verbatim>\<open>worker/cmd/ollama/main.go\<close>), and what the two \<^verbatim>\<open>main\<close> functions of the
  control plane and of the request plane build from their flags (\<^verbatim>\<open>control-plane/cmd/server/main.go\<close>,
  \<^verbatim>\<open>request-plane/cmd/server/main.go\<close>), with the status line the control plane prints. The
  life of the processes is in \<open>Processes\<close>; the other log lines are left out.
\<close>

section \<open>Command lines\<close>

text \<open>
  The \<^verbatim>\<open>flag\<close> package: one or two dashes, a value after \<^verbatim>\<open>=\<close> or as the next argument, boolean
  flags without one; the first argument that is no flag ends the parsing; an unknown flag or
  a missing value ends the program (\<open>None\<close>).
\<close>

datatype flag_kind = BoolFlag | ValueFlag

fun parse_flags :: "(string \<Rightarrow> flag_kind option) \<Rightarrow> string list \<Rightarrow> (string \<times> string) list option" where
  "parse_flags kind [] = Some []"
| "parse_flags kind (s # args) =
     (if length s < 2 \<or> hd s \<noteq> CHR ''-'' \<or> s = ''--'' then Some []
      else
        let name = (if s ! 1 = CHR ''-'' then drop 2 s else tl s)
        in if hd name = CHR ''-'' \<or> hd name = CHR ''='' then None
           else case split2 (CHR ''='') name of
                  Some (n, v) \<Rightarrow>
                    (case kind n of None \<Rightarrow> None | Some _ \<Rightarrow> map_option (Cons (n, v)) (parse_flags kind args))
                | None \<Rightarrow>
                    (case kind name of
                       None \<Rightarrow> None
                     | Some BoolFlag \<Rightarrow> map_option (Cons (name, ''true'')) (parse_flags kind args)
                     | Some ValueFlag \<Rightarrow>
                         (case args of
                            [] \<Rightarrow> None
                          | v # rest \<Rightarrow> map_option (Cons (name, v)) (parse_flags kind rest))))"

definition flag_value :: "(string \<times> string) list \<Rightarrow> string \<Rightarrow> string \<Rightarrow> string" where
  "flag_value kvs name def = (case map_of (rev kvs) name of None \<Rightarrow> def | Some v \<Rightarrow> v)"

text \<open>Numbers and durations are read by functions of \<^verbatim>\<open>strconv\<close> and \<^verbatim>\<open>time\<close>; an unreadable text ends the program.\<close>

record flag_texts =
  tx_uint :: "string \<Rightarrow> uint64 option"
  tx_float :: "string \<Rightarrow> float64 option"
  tx_duration :: "string \<Rightarrow> duration option"

definition parse_bool :: "string \<Rightarrow> bool option" where
  "parse_bool s =
     (if s \<in> {''1'', ''t'', ''T'', ''TRUE'', ''true'', ''True''} then Some True
      else if s \<in> {''0'', ''f'', ''F'', ''FALSE'', ''false'', ''False''} then Some False else None)"

definition all_ok :: "(string \<Rightarrow> 'a option) \<Rightarrow> (string \<times> string) list \<Rightarrow> string \<Rightarrow> bool" where
  "all_ok read kvs name = (\<forall>kv \<in> set kvs. fst kv = name \<longrightarrow> read (snd kv) \<noteq> None)"

definition typed_flag :: "(string \<Rightarrow> 'a option) \<Rightarrow> (string \<times> string) list \<Rightarrow> string \<Rightarrow> 'a \<Rightarrow> 'a" where
  "typed_flag read kvs name def = (case map_of (rev kvs) name of None \<Rightarrow> def | Some v \<Rightarrow> the (read v))"

definition mock_kind :: "string \<Rightarrow> flag_kind option" where
  "mock_kind name =
     (if name = ''crash'' then Some BoolFlag
      else if name \<in> {''control-plane'', ''id'', ''addr'', ''models'', ''backend'', ''provider'', ''hardware'', ''vram'',
                       ''cost-per-hour'', ''model-load-time'', ''report-load-every''} then Some ValueFlag
      else None)"

definition mock_flags_of :: "flag_texts \<Rightarrow> string list \<Rightarrow> mock_flags option" where
  "mock_flags_of tx args =
     (case parse_flags mock_kind args of
        None \<Rightarrow> None
      | Some kvs \<Rightarrow>
          if all_ok (tx_uint tx) kvs ''vram'' \<and> all_ok (tx_float tx) kvs ''cost-per-hour'' \<and> all_ok parse_bool kvs ''crash'' \<and>
             all_ok (tx_duration tx) kvs ''model-load-time'' \<and> all_ok (tx_duration tx) kvs ''report-load-every''
          then Some \<lparr>mf_cp = flag_value kvs ''control-plane'' ''localhost:50051'',
                     mf_id = flag_value kvs ''id'' ''mock-worker-1'', mf_addr = flag_value kvs ''addr'' ''localhost:8080'',
                     mf_models = flag_value kvs ''models'' ''llama3.2:3b'', mf_backend = flag_value kvs ''backend'' ''mock'',
                     mf_provider = flag_value kvs ''provider'' ''local'', mf_hardware = flag_value kvs ''hardware'' ''cpu'',
                     mf_vram = typed_flag (tx_uint tx) kvs ''vram'' 0,
                     mf_cost = typed_flag (tx_float tx) kvs ''cost-per-hour'' (Fin 0),
                     mf_crash = typed_flag parse_bool kvs ''crash'' False,
                     mf_modelLoadTime = typed_flag (tx_duration tx) kvs ''model-load-time'' (3 * Second),
                     mf_reportLoadEvery = typed_flag (tx_duration tx) kvs ''report-load-every'' (10 * Second)\<rparr>
          else None)"

definition ollama_kind :: "string \<Rightarrow> flag_kind option" where
  "ollama_kind name =
     (if name \<in> {''control-plane'', ''id'', ''ollama-addr'', ''provider'', ''hardware'', ''vram'', ''cost-per-hour'',
                  ''report-load-every''} then Some ValueFlag
      else None)"

definition ollama_flags_of :: "flag_texts \<Rightarrow> string list \<Rightarrow> ollama_flags option" where
  "ollama_flags_of tx args =
     (case parse_flags ollama_kind args of
        None \<Rightarrow> None
      | Some kvs \<Rightarrow>
          if all_ok (tx_uint tx) kvs ''vram'' \<and> all_ok (tx_float tx) kvs ''cost-per-hour'' \<and>
             all_ok (tx_duration tx) kvs ''report-load-every''
          then Some \<lparr>of_cp = flag_value kvs ''control-plane'' ''localhost:50051'',
                     of_id = flag_value kvs ''id'' ''ollama-worker-1'',
                     of_ollamaAddr = flag_value kvs ''ollama-addr'' ''localhost:11434'',
                     of_provider = flag_value kvs ''provider'' ''local'', of_hardware = flag_value kvs ''hardware'' ''cpu'',
                     of_vram = typed_flag (tx_uint tx) kvs ''vram'' 0,
                     of_cost = typed_flag (tx_float tx) kvs ''cost-per-hour'' (Fin 0),
                     of_reportLoadEvery = typed_flag (tx_duration tx) kvs ''report-load-every'' (10 * Second)\<rparr>
          else None)"

section \<open>The control plane\<close>

record control_flags =
  cf_grpcAddr :: string
  cf_httpAddr :: string
  cf_adminAddr :: string
  cf_minHealthy :: int
  cf_deadGrace :: duration
  cf_dockerImage :: string
  cf_dockerCPAddr :: string

definition default_control_flags :: control_flags where
  "default_control_flags =
     \<lparr>cf_grpcAddr = '':50051'', cf_httpAddr = '':8080'', cf_adminAddr = '':9090'', cf_minHealthy = 1, cf_deadGrace = DefaultDeadGrace, cf_dockerImage = '''',
      cf_dockerCPAddr = ''host.docker.internal:50051''\<rparr>"

record control_plane =
  cp_registry :: Registry
  cp_router :: Router
  cp_scaler :: Scaler
  cp_provisioner :: "DockerProvisioner option"

definition control_plane_main :: "control_flags \<Rightarrow> control_plane" where
  "control_plane_main f =
     (let opts = [WithMinHealthy (cf_minHealthy f), WithDeadGrace (cf_deadGrace f)];
          dp = (if cf_dockerImage f \<noteq> ''''
                then Some \<lparr>Image = cf_dockerImage f, ControlPlane = cf_dockerCPAddr f, ExtraArgs = [], dp_run = None\<rparr> else None);
          opts' = (if dp = None then opts else opts @ [WithOnWorkerEvicted])
      in \<lparr>cp_registry = New DefaultDeadTimeout, cp_router = SetRequestHook (Router_New False),
          cp_scaler = Scaler_New opts', cp_provisioner = dp\<rparr>)"

text \<open>The status printer, once per tick: nothing for an empty fleet, else the count and a line per worker.\<close>

record status_line =
  sl_WorkerId :: string
  sl_State :: string
  sl_QueueDepth :: uint32
  sl_RequestsPerSec :: float64
  sl_AvgLatencyMs :: float64
  sl_vramMB :: uint64

definition status_line_of :: "WorkerEntry \<Rightarrow> status_line" where
  "status_line_of w =
     \<lparr>sl_WorkerId = WorkerId (Info w), sl_State = state_String (State w), sl_QueueDepth = QueueDepth (Load w),
      sl_RequestsPerSec = RequestsPerSec (Load w), sl_AvgLatencyMs = AvgLatencyMs (Load w),
      sl_vramMB = VramUsedBytes (Load w) div 1024 div 1024\<rparr>"

definition fleet_status :: "Registry \<Rightarrow> string list \<Rightarrow> (nat \<times> status_line list) option" where
  "fleet_status r ks =
     (let ws = ListWorkers r ks in if ws = [] then None else Some (length ws, map status_line_of ws))"

text \<open>
  What the evictions of a sweep have the provisioner do, in order: the lines it prints and the
  commands it gives to \<^verbatim>\<open>docker\<close>; \<open>ms i\<close> is the clock, in milliseconds, at the \<open>i\<close>-th.
\<close>

fun replace_all ::
  "docker \<Rightarrow> DockerProvisioner \<Rightarrow> (nat \<Rightarrow> int) \<Rightarrow> evictions \<Rightarrow> string list list \<Rightarrow>
     (panic + provision_log) list \<times> string list list" where
  "replace_all docker p ms [] cmds = ([], cmds)"
| "replace_all docker p ms ((wid, models) # evs) cmds =
     (let (l, cmds') = OnEvicted docker p (ms 0) wid models cmds;
          (ls, cmds'') = replace_all docker p (\<lambda>i. ms (Suc i)) evs cmds'
      in (l # ls, cmds''))"

definition replacements ::
  "docker \<Rightarrow> control_plane \<Rightarrow> (nat \<Rightarrow> int) \<Rightarrow> evictions \<Rightarrow> (panic + provision_log) list \<times> string list list" where
  "replacements docker cp ms evs =
     (case cp_provisioner cp of None \<Rightarrow> ([], []) | Some p \<Rightarrow> replace_all docker p ms evs [])"

section \<open>The request plane\<close>

record request_flags =
  rf_listenAddr :: string
  rf_adminAddr :: string
  rf_upstream :: string
  rf_queueCap :: int
  rf_concurrency :: int
  rf_waitTimeout :: duration
  rf_sloFallback :: duration
  rf_maxWaitHigh :: duration
  rf_maxWaitNormal :: duration
  rf_maxWaitLow :: duration
  rf_maxAttempts :: int
  rf_fallbackMap :: string
  rf_apiKeys :: string

definition default_request_flags :: request_flags where
  "default_request_flags =
     \<lparr>rf_listenAddr = '':9000'', rf_adminAddr = '':9001'', rf_upstream = ''http://localhost:8080'', rf_queueCap = 1000, rf_concurrency = 10,
      rf_waitTimeout = 30 * Second, rf_sloFallback = 2 * Second, rf_maxWaitHigh = 5 * Second,
      rf_maxWaitNormal = 15 * Second, rf_maxWaitLow = 60 * Second, rf_maxAttempts = 2,
      rf_fallbackMap = '''', rf_apiKeys = ''''\<rparr>"

record request_plane =
  rp_gateway :: Gateway
  rp_dispatcher :: Dispatcher
  rp_keyStore :: "KeyStore option"

definition request_plane_main :: "request_flags \<Rightarrow> panic + request_plane" where
  "request_plane_main f =
     (case Queue_New (rf_queueCap f) of
        Inl p \<Rightarrow> Inl p
      | Inr q \<Rightarrow>
          (let d = Dispatcher_New (rf_upstream f) (rf_concurrency f)
                     [WithMaxAttempts (rf_maxAttempts f), WithFallbacks (parseFallbackMap (rf_fallbackMap f))];
               tracker = NewLatencyTracker (rf_sloFallback f);
               estimator = NewEstimator (rf_concurrency f);
               policy = [PriorityHigh \<mapsto> rf_maxWaitHigh f, PriorityNormal \<mapsto> rf_maxWaitNormal f, PriorityLow \<mapsto> rf_maxWaitLow f];
               gwOpts = [WithSLO tracker estimator, WithBackpressure policy, WithRequestHook];
               keyStore = parseAPIKeys (rf_apiKeys f);
               gwOpts' = (case keyStore of None \<Rightarrow> gwOpts | Some ks \<Rightarrow> gwOpts @ [WithAuth ks NewRateLimiter])
           in Inr \<lparr>rp_gateway = Gateway_New q (rf_waitTimeout f) gwOpts', rp_dispatcher = d, rp_keyStore = keyStore\<rparr>))"

text \<open>
  The admin handler shares the queue, the key store, the limiter and the counters with the
  gateway, so that it sees the gateway's current state; the counters are what the hook
  made of the requests so far.
\<close>

definition admin_view :: "request_plane \<Rightarrow> admin_handler" where
  "admin_view rp =
     \<lparr>ah_q = g_queue (rp_gateway rp), ah_stats = fold Hook (g_hookCalls (rp_gateway rp)) NewStats,
      ah_keyStore = rp_keyStore rp,
      ah_rateLimiter = (case rp_keyStore rp of None \<Rightarrow> Some NewRateLimiter | Some _ \<Rightarrow> g_rateLimiter (rp_gateway rp))\<rparr>"

section \<open>Replacements\<close>

lemma mock_flags_provisioned:
  assumes "ExtraArgs p = []"
  shows "mock_flags_of tx (drop 6 (provision_args p nid models)) =
    Some \<lparr>mf_cp = ControlPlane p, mf_id = nid, mf_addr = ''localhost:8080'', mf_models = join_with (CHR '','') models,
          mf_backend = ''mock'', mf_provider = ''local'', mf_hardware = ''cpu'', mf_vram = 0, mf_cost = Fin 0, mf_crash = False,
          mf_modelLoadTime = 3 * Second, mf_reportLoadEvery = 10 * Second\<rparr>"
proof -
  have "parse_flags mock_kind (drop 6 (provision_args p nid models)) =
      Some [(''control-plane'', ControlPlane p), (''id'', nid), (''models'', join_with (CHR '','') models)]"
    by (simp add: provision_args_def assms split2_def mock_kind_def)
  then show ?thesis by (simp add: mock_flags_of_def all_ok_def flag_value_def typed_flag_def)
qed

lemma control_plane_docker:
  assumes "cf_dockerImage f \<noteq> ''''"
  shows "hasOnEvicted (cp_scaler (control_plane_main f))"
    and "cp_provisioner (control_plane_main f) =
      Some \<lparr>Image = cf_dockerImage f, ControlPlane = cf_dockerCPAddr f, ExtraArgs = [], dp_run = None\<rparr>"
  using assms by (simp_all add: control_plane_main_def Scaler_New_def WithOnWorkerEvicted_def WithMinHealthy_def
      WithDeadGrace_def Let_def)

lemma replace_all_docker:
  assumes "dp_run p = None"
  shows "replace_all docker p ms evs cmds =
    (map (\<lambda>i. Inr (outcome_log docker (replacement_id (ms i) (fst (evs ! i))) (fst (evs ! i)) (snd (evs ! i))
        (provision_args p (replacement_id (ms i) (fst (evs ! i))) (snd (evs ! i))))) [0..<length evs],
     cmds @ map (\<lambda>i. provision_args p (replacement_id (ms i) (fst (evs ! i))) (snd (evs ! i))) [0..<length evs])"
  by (induction evs arbitrary: ms cmds)
     (auto simp: OnEvicted_docker [OF assms] map_upt_Suc simp del: upt_Suc)

section \<open>Properties\<close>

text \<open>
  C32: Every evicted worker is replaced, at an address where nobody serves. With a Docker image
  configured, a sweep gives \<^verbatim>\<open>docker\<close> one command per expired worker, none of them panics, and each
  is reported as started or, with the command's error and output, as failed. The worker program
  started by the command registers with the configured control plane under a fresh id (the old
  one with a suffix) and with exactly the models of the evicted worker, if it had any and no
  name contains a comma. But the command does not say where the new worker listens, so it
  registers with the default address \<^verbatim>\<open>localhost:8080\<close>, which for the router is its own default
  port.
\<close>

theorem evicted_worker_is_replaced:
  assumes "keyed_registry r" and "range_order (workers r) ks" and "cf_dockerImage f \<noteq> ''''"
    and "Sweep (cp_scaler (control_plane_main f)) (\<lambda>_. t) (\<lambda>_. id) ks ks' ms r = (r', evs, warns)"
    and "replacements docker (control_plane_main f) clk evs = (logs, cmds)"
    and "workers r wid = Some e" and "expired (cp_scaler (control_plane_main f)) t e"
    and "ModelsLoaded (Info e) \<noteq> []" and "\<forall>m \<in> set (ModelsLoaded (Info e)). CHR '','' \<notin> set m"
  shows "length cmds = card {wid. \<exists>e. workers r wid = Some e \<and> expired (cp_scaler (control_plane_main f)) t e} \<and>
    length logs = length cmds \<and> (\<forall>l \<in> set logs. \<not> isl l) \<and>
    (\<exists>i n mf. i < length cmds \<and> logs ! i = Inr (outcome_log docker (wid @ ''-r'' @ Itoa n) wid (ModelsLoaded (Info e)) (cmds ! i)) \<and>
      mock_flags_of tx (drop 6 (cmds ! i)) = Some mf \<and> mf_cp mf = cf_dockerCPAddr f \<and>
      WorkerId (mock_info mf) = wid @ ''-r'' @ Itoa n \<and> WorkerId (mock_info mf) \<noteq> wid \<and>
      ModelsLoaded (mock_info mf) = ModelsLoaded (Info e) \<and> Address (mock_info mf) = ''localhost:8080'')"
proof -
  let ?cp = "control_plane_main f"
  let ?p = "\<lparr>Image = cf_dockerImage f, ControlPlane = cf_dockerCPAddr f, ExtraArgs = [], dp_run = None\<rparr>"
  let ?call = "(wid, ModelsLoaded (Info e))"
  note docker = control_plane_docker [OF assms(3)]
  have evs: "evs = map (\<lambda>e. (WorkerId (Info e), ModelsLoaded (Info e))) (filter (expired (cp_scaler ?cp) t) (ListWorkers r ks))"
    using quiet_sweep(2) [OF assms(1,2,4)] docker(1) by (simp add: callback_calls_def)
  have "e \<in> set (filter (expired (cp_scaler ?cp) t) (ListWorkers r ks))" and wid: "WorkerId (Info e) = wid"
    using assms(1,2,6,7) by (auto simp: ListWorkers_def set_range_values range_order_def keyed_registry_def)
  then have "?call \<in> set evs" unfolding evs by force
  then obtain i where i: "i < length evs" "evs ! i = ?call" by (auto simp: in_set_conv_nth)
  have all: "replace_all docker ?p clk evs [] = (logs, cmds)"
    using assms(5) docker(2) by (simp add: replacements_def)
  have "dp_run ?p = None" by simp
  from all [unfolded replace_all_docker [OF this]] have doc:
    "logs = map (\<lambda>i. Inr (outcome_log docker (replacement_id (clk i) (fst (evs ! i))) (fst (evs ! i)) (snd (evs ! i))
      (provision_args ?p (replacement_id (clk i) (fst (evs ! i))) (snd (evs ! i))))) [0..<length evs]"
    "cmds = map (\<lambda>i. provision_args ?p (replacement_id (clk i) (fst (evs ! i))) (snd (evs ! i))) [0..<length evs]"
    by simp_all
  have "length evs = card {wid. \<exists>e. workers r wid = Some e \<and> expired (cp_scaler ?cp) t e}"
    by (simp add: evs ListWorkers_def length_filter_range_values [OF assms(2)])
  moreover have "\<forall>l \<in> set logs. \<not> isl l" by (simp add: doc(1))
  moreover have "cmds ! i = provision_args ?p (replacement_id (clk i) wid) (ModelsLoaded (Info e))"
    and "logs ! i = Inr (outcome_log docker (replacement_id (clk i) wid) wid (ModelsLoaded (Info e)) (cmds ! i))"
    using i by (simp_all add: doc)
  moreover have "split_on (CHR '','') (join_with (CHR '','') (ModelsLoaded (Info e))) = ModelsLoaded (Info e)"
    by (rule split_join [OF assms(8,9)])
  ultimately show ?thesis using i(1)
    by (intro conjI exI [of _ i] exI [of _ "clk i smod 100000"])
       (auto simp: doc(1) doc(2) mock_flags_provisioned mock_info_def replacement_id_def)
qed

definition demo_control_flags :: control_flags where
  "demo_control_flags = default_control_flags\<lparr>cf_dockerImage := ''llm-worker:latest'', cf_deadGrace := 5\<rparr>"

definition demo_docker :: docker where
  "demo_docker args = (None, ''f00d'')"

theorem evicted_worker_is_replaced_witness:
  "\<exists>r' evs warns logs cmds i mf.
     Sweep (cp_scaler (control_plane_main demo_control_flags)) (\<lambda>_. 20) (\<lambda>_. id) [''w'', ''v''] [] [] demo_fleet = (r', evs, warns) \<and>
     replacements demo_docker (control_plane_main demo_control_flags) (\<lambda>_. 1700000012345) evs = (logs, cmds) \<and>
     i < length cmds \<and> length logs = length cmds \<and>
     mock_flags_of \<lparr>tx_uint = (\<lambda>_. None), tx_float = (\<lambda>_. None), tx_duration = (\<lambda>_. None)\<rparr> (drop 6 (cmds ! i)) = Some mf \<and>
     ModelsLoaded (mock_info mf) = [''m''] \<and> Address (mock_info mf) = ''localhost:8080''"
proof -
  let ?s = "cp_scaler (control_plane_main demo_control_flags)"
  let ?e = "demo_entry\<lparr>State := DEAD, MarkedDeadAt := 12\<rparr>"
  let ?tx = "\<lparr>tx_uint = (\<lambda>_. None), tx_float = (\<lambda>_. None), tx_duration = (\<lambda>_. None)\<rparr>"
  obtain r' evs warns where s: "Sweep ?s (\<lambda>_. 20) (\<lambda>_. id) [''w'', ''v''] [] [] demo_fleet = (r', evs, warns)"
    by (metis prod_cases3)
  obtain logs cmds where re: "replacements demo_docker (control_plane_main demo_control_flags) (\<lambda>_. 1700000012345) evs = (logs, cmds)"
    by fastforce
  have img: "cf_dockerImage demo_control_flags \<noteq> ''''" by (simp add: demo_control_flags_def)
  have "deadGrace ?s = 5"
    by (simp add: control_plane_main_def demo_control_flags_def default_control_flags_def Scaler_New_def WithOnWorkerEvicted_def
        WithMinHealthy_def WithDeadGrace_def Let_def)
  then have ex: "expired ?s 20 ?e" by (simp add: expired_def time_sub_def sat64_def min_int64_def max_int64_def)
  have m: "ModelsLoaded (Info ?e) = [''m'']" by (simp add: demo_entry_def demo_info_def)
  from evicted_worker_is_replaced [OF demo_fleet_ok img s re demo_fleet_entries(1) ex, of ?tx] m
  obtain i mf where "i < length cmds" "length logs = length cmds"
    "mock_flags_of ?tx (drop 6 (cmds ! i)) = Some mf" "ModelsLoaded (mock_info mf) = [''m'']" "Address (mock_info mf) = ''localhost:8080''"
    by auto
  with s re show ?thesis by blast
qed

end
