(* ===== verification/End_To_End.thy ===== *)
theory End_To_End
  imports Wiring
begin

text \<open>
  The two planes connected: the dispatcher's upstream is the control plane's router. The
  router's answer travels back over HTTP: a handler that panics before it has written
  anything closes the connection, and a handler that returns ends its response properly,
  also if what it relayed had broken off, so that the caller cannot tell.
\<close>

section \<open>The router as upstream\<close>

definition upstream_request :: "bytes \<Rightarrow> http_request" where
  "upstream_request body =
     \<lparr>Method = ''POST'', Path = ''/v1/chat/completions'', Header = [''Content-Type'' \<mapsto> ''application/json''],
      Body = Some body\<rparr>"

text \<open>What the caller of a server makes of a response whose handler has returned.\<close>

definition client_view :: "response \<Rightarrow> upstream_response" where
  "client_view w =
     \<lparr>us_status = (case rstatus w of None \<Rightarrow> 200 | Some c \<Rightarrow> c), us_ctype = header_get (rhdr w) ''Content-Type'',
      us_chunks = rbody w, us_broken = False\<rparr>"

definition router_answer :: "route_result \<Rightarrow> do_result" where
  "router_answer R =
     (case rr_panic R of Some _ \<Rightarrow> Unreachable | None \<Rightarrow> Got (client_view (rr_response R)))"

text \<open>The state of the control plane when the \<open>n\<close>-th call of the dispatcher arrives.\<close>

record plane_state =
  ps_registry :: Registry
  ps_order :: "string list"
  ps_router :: Router
  ps_reads :: "nat \<Rightarrow> (string \<Rightarrow> int) \<times> (string \<Rightarrow> int)"
  ps_workers :: "nat \<Rightarrow> string \<Rightarrow> do_result"

definition routed :: "(bytes \<Rightarrow> json option) \<Rightarrow> plane_state \<Rightarrow> bytes \<Rightarrow> route_result" where
  "routed parse ps body =
     ServeHTTP parse (ps_reads ps) (ps_workers ps) (ps_registry ps) (ps_order ps) (ps_router ps) (upstream_request body)"

definition routed_net :: "(bytes \<Rightarrow> json option) \<Rightarrow> (nat \<Rightarrow> plane_state) \<Rightarrow> net" where
  "routed_net parse ps = (\<lambda>n target body. router_answer (routed parse (ps n) body))"

text \<open>The workers that serve a model when a call arrives, all of them up.\<close>

definition serving :: "plane_state \<Rightarrow> string \<Rightarrow> WorkerEntry list" where
  "serving ps model = HealthyWorkersForModel (ps_registry ps) (ps_order ps) model"

definition worker_url :: "WorkerEntry \<Rightarrow> string" where
  "worker_url e = ''http://'' @ Address (Info e) @ ''/v1/chat/completions''"

definition fleet_up :: "plane_state \<Rightarrow> string \<Rightarrow> bool" where
  "fleet_up ps model \<longleftrightarrow>
     serving ps model \<noteq> [] \<and> costs_ordered (serving ps model) \<and> stable_reads (ps_reads ps) \<and>
     final_statuses (ps_workers ps) \<and>
     (\<forall>e \<in> set (serving ps model). case ps_workers ps 1 (worker_url e) of
        Got up \<Rightarrow> \<not> isRetryableStatus (us_status up) | _ \<Rightarrow> False)"

lemma final_statusesD:
  assumes "final_statuses net" and "net a target = Got up"
  shows "200 \<le> us_status up" and "us_status up \<le> 999"
  using spec [OF spec [OF assms(1) [unfolded final_statuses_def], of a], of target] assms(2) by simp_all

lemma router_relays_first:
  assumes "fleet_up ps model" and "routable parse (upstream_request body) model"
  obtains e up where "e \<in> set (serving ps model)" "ps_workers ps 1 (worker_url e) = Got up"
    "200 \<le> us_status up" "us_status up \<le> 999" "\<not> isRetryableStatus (us_status up)"
    "rr_panic (routed parse ps body) = None" "rr_response (routed parse ps body) = relay up new_response"
    "rr_sent (routed parse ps body) = [proxy_request (upstream_request body) (worker_url e) body]"
    "hookCalls (rr_router (routed parse ps body)) = hookCalls (ps_router ps) @
       (if hasHook (ps_router ps) then [(model, if us_broken up then ''error'' else ''success'')] else [])"
proof -
  let ?ws = "serving ps model"
  let ?req = "upstream_request body"
  have ne: "?ws \<noteq> []" and up: "\<forall>e \<in> set ?ws. case ps_workers ps 1 (worker_url e) of
      Got up \<Rightarrow> \<not> isRetryableStatus (us_status up) | _ \<Rightarrow> False"
    using assms(1) by (simp_all add: fleet_up_def)
  have "0 < min (length ?ws) 3" using ne by simp
  then obtain n where n: "min (length ?ws) 3 = Suc n" using gr0_implies_Suc by blast
  have url: "target_of ?req e = worker_url e" for e by (simp add: upstream_request_def worker_url_def)
  have eq: "routed parse ps body =
      route_attempts (ps_reads ps) (ps_workers ps) ?req body model ?ws (Suc n) 1 [] [] (ps_router ps) new_response"
  proof -
    have "routed parse ps body = handleInference parse (ps_reads ps) (ps_workers ps) (ps_registry ps) (ps_order ps) (ps_router ps) ?req"
      by (simp add: routed_def ServeHTTP_def upstream_request_def)
    also have "\<dots> = route_attempts (ps_reads ps) (ps_workers ps) ?req (the (Body ?req)) model ?ws (min (length ?ws) 3) 1 [] [] (ps_router ps) new_response"
      using ne by (simp add: handleInference_routable [OF assms(2)] serving_def Let_def)
    finally show ?thesis unfolding n by (simp add: upstream_request_def)
  qed
  have np: "rr_panic (route_attempts (ps_reads ps) (ps_workers ps) ?req body model ?ws (Suc n) 1 [] [] (ps_router ps) new_response) = None"
    using assms(1) by (intro route_attempts_no_panic) (simp_all add: fleet_up_def)
  show thesis
  proof (cases rule: route_attempts_Suc [of "[]" ?ws "ps_reads ps" "ps_workers ps" ?req body model n 1 "[]" "ps_router ps" new_response])
    case none
    then show thesis using ne by simp
  next
    case (panic p)
    then show thesis using np by simp
  next
    case (answer e c u)
    have w: "ps_workers ps 1 (worker_url e) = Got u" using answer(3) by (simp only: url)
    have "final_statuses (ps_workers ps)" using assms(1) by (simp add: fleet_up_def)
    note status = final_statusesD [OF this w]
    have "\<not> isRetryableStatus (us_status u)" using bspec [OF up answer(1)] w by simp
    then show thesis
      using answer(1) w status eq [unfolded answer(6) url] by (intro that [of e u]) simp_all
  next
    case (retry e c)
    then show thesis using up unfolding url by (auto simp: failed_def)
  qed
qed

section \<open>From the gateway's queue and back\<close>

lemma admitted_request:
  assumes "admit parse t1 t2 g r = (Enqueued req w, g')"
  shows "Body r = Some (rq_Body req)" and "rq_Model req \<noteq> ''''" and "rstatus w = None" and "rbody w = []"
    and "routable parse (upstream_request (rq_Body req)) (rq_Model req)"
    and "g_hasHook g' = g_hasHook g" and "g_hookCalls g' = g_hookCalls g"
proof -
  obtain g1 keyID body model stream where q: "has_payload parse r body model stream"
      "authenticate t1 g r new_response = (Inr keyID, g1)"
      "enqueue t2 g1 r body model stream keyID new_response = (Enqueued req w, g')"
    by (cases rule: admit_cases [of r parse t1 t2 g]) (use assms in auto)
  note e = enqueue_cases [OF q(3)]
  have req: "rq_Body req = body" "rq_Model req = model" using e by (simp_all add: new_request_def)
  show "rstatus w = None" using e by simp
  show "g_hasHook g' = g_hasHook g" "g_hookCalls g' = g_hookCalls g"
    using authenticate_frame(6,7) [OF q(2)] e by simp_all
  show "rbody w = []"
    using q(3) by (auto simp: enqueue_def Let_def estimate_header_def split: if_splits option.splits prod.splits)
  obtain j where j: "Body r = Some body" "parse body = Some j" "unmarshal_payload j = Some (model, stream)" "model \<noteq> ''''"
    using q(1) by (auto simp: has_payload_def bind_eq_Some_conv)
  then show "Body r = Some (rq_Body req)" "rq_Model req \<noteq> ''''" by (simp_all add: req)
  show "routable parse (upstream_request (rq_Body req)) (rq_Model req)"
    unfolding req using unmarshal_payload_object [OF j(3,4)] j by (auto simp: routable_def upstream_request_def)
qed

text \<open>What the dispatcher delivers for a worker's answer.\<close>

definition delivered_result :: "Request \<Rightarrow> upstream_response \<Rightarrow> Result \<times> bytes list" where
  "delivered_result req up =
     (if rq_Stream req then (commit_result up (rq_Model req), streamBody (us_chunks up))
      else (zero_result\<lparr>StatusCode := us_status up, rs_Body := concat (us_chunks up), ServedModel := rq_Model req\<rparr>, []))"

lemma dispatch_first_answer:
  assumes "0 < maxAttempts d" and "net 0 (upstream_target d) (rq_Body req) = Got up"
    and "\<not> us_broken up" and "\<not> isRetryableStatus (us_status up)"
  shows "dispatch parse render net d req = (Inr (delivered_result req up), [made_call d (rq_Body req) (rq_Model req)])"
proof -
  obtain n where n: "nat (maxAttempts d) = Suc n" using assms(1) gr0_implies_Suc [of "nat (maxAttempts d)"] by auto
  show ?thesis
    using assms(2-4)
    by (auto simp: dispatch_def dispatchStream_def dispatchBuffered_def chain_def body_for_def n attempt_def stream_attempt_def
        delivered_result_def Let_def)
qed

lemma streamBody_concat: "concat (streamBody reads) = concat reads"
  by (induction reads) (auto simp: streamBody_def)

lemma delivered_result_simps:
  "StatusCode (fst (delivered_result req up)) = us_status up" "rs_Err (fst (delivered_result req up)) = None"
  "ServedModel (fst (delivered_result req up)) = rq_Model req"
  "concat (if Streaming (fst (delivered_result req up)) then snd (delivered_result req up)
     else [rs_Body (fst (delivered_result req up))]) = concat (us_chunks up)"
  by (simp_all add: delivered_result_def commit_result_def zero_result_def streamBody_concat)

lemma fold_write_rhdr: "rhdr (fold write_body bs w) = rhdr w"
  by (induction bs arbitrary: w) simp_all

lemma finish_relays:
  assumes "rs_Err result = None" and "200 \<le> StatusCode result" and "StatusCode result \<le> 999"
    and "rstatus w = None" and "rbody w = []" and "ServedModel result \<noteq> ''''"
  shows "\<exists>v g1. finish err_text (ResultIn result now chunks) g req w =
      \<lparr>gr_panic = None, gr_gateway = gateway_hook (rq_Model req) (is_success result) g1, gr_response = v\<rparr> \<and>
    g_hasHook g1 = g_hasHook g \<and> g_hookCalls g1 = g_hookCalls g \<and> rstatus v = Some (StatusCode result) \<and>
    rbody v = (if Streaming result then chunks else [rs_Body result]) \<and>
    rhdr v ''X-Served-Model'' = Some (ServedModel result)"
proof -
  obtain g1 w1 where w1: "record_wait g req now w = (g1, w1)" by fastforce
  note frame = record_wait_frame [OF w1]
  let ?res = "if Streaming result then streamResponse w1 result chunks else bufferedResponse w1 result"
  have st: "rstatus w1 = None" "rbody w1 = []" using frame assms(4,5) by simp_all
  have "\<exists>v. ?res = Inr v \<and> rstatus v = Some (StatusCode result) \<and>
      rbody v = (if Streaming result then chunks else [rs_Body result]) \<and> rhdr v ''X-Served-Model'' = Some (ServedModel result)"
    using assms(2,3,6) st
    by (auto simp: streamResponse_def bufferedResponse_def WriteHeader_def served_header_def Let_def fold_write_body fold_write_rhdr)
  then obtain v where v: "?res = Inr v" "rstatus v = Some (StatusCode result)"
      "rbody v = (if Streaming result then chunks else [rs_Body result])" "rhdr v ''X-Served-Model'' = Some (ServedModel result)"
    by blast
  have "finish err_text (ResultIn result now chunks) g req w =
      \<lparr>gr_panic = None, gr_gateway = gateway_hook (rq_Model req) (is_success result) g1, gr_response = v\<rparr>"
    using assms(1) v(1) by (simp add: finish_def w1)
  then show ?thesis using frame v by auto
qed

text \<open>What the gateway's \<^verbatim>\<open>select\<close> sees when the dispatcher is in time.\<close>

definition answered_by ::
  "(bytes \<Rightarrow> json option) \<Rightarrow> (json \<Rightarrow> bytes) \<Rightarrow> (nat \<Rightarrow> plane_state) \<Rightarrow> Dispatcher \<Rightarrow> time \<Rightarrow> Request \<Rightarrow> wait_outcome" where
  "answered_by parse render ps d now req =
     (case fst (dispatch parse render (routed_net parse ps) d req) of
        Inl _ \<Rightarrow> TimedOut
      | Inr (result, chunks) \<Rightarrow> ResultIn result now chunks)"

text \<open>The whole way of one admitted request, complete or broken off.\<close>

lemma request_round_trip:
  assumes "admit parse t1 t2 g r = (Enqueued req w, g')" and "fleet_up (ps 0) (rq_Model req)" and "0 < maxAttempts d" and "hook_stable others"
  obtains e up v g1 where
    "e \<in> set (serving (ps 0) (rq_Model req))" "ps_workers (ps 0) 1 (worker_url e) = Got up"
    "rr_sent (routed parse (ps 0) (rq_Body req)) =
       [proxy_request (upstream_request (rq_Body req)) (worker_url e) (rq_Body req)]"
    "hookCalls (rr_router (routed parse (ps 0) (rq_Body req))) = hookCalls (ps_router (ps 0)) @
       (if hasHook (ps_router (ps 0)) then [(rq_Model req, if us_broken up then ''error'' else ''success'')] else [])"
    "gateway_handleInference parse err_text t1 t2 others (answered_by parse render ps d now) g r =
       \<lparr>gr_panic = None,
        gr_gateway = gateway_hook (rq_Model req) (200 \<le> us_status up \<and> us_status up < 300) g1, gr_response = v\<rparr>"
    "g_hasHook g1 = g_hasHook g" "g_hookCalls g1 = g_hookCalls g"
    "rstatus v = Some (us_status up)" "concat (rbody v) = concat (us_chunks up)"
    "rhdr v ''X-Served-Model'' = Some (rq_Model req)"
proof -
  note adm = admitted_request [OF assms(1)]
  obtain e up where e: "e \<in> set (serving (ps 0) (rq_Model req))" "ps_workers (ps 0) 1 (worker_url e) = Got up"
    "200 \<le> us_status up" "us_status up \<le> 999" "\<not> isRetryableStatus (us_status up)"
    "rr_panic (routed parse (ps 0) (rq_Body req)) = None"
    "rr_response (routed parse (ps 0) (rq_Body req)) = relay up new_response"
    "rr_sent (routed parse (ps 0) (rq_Body req)) =
       [proxy_request (upstream_request (rq_Body req)) (worker_url e) (rq_Body req)]"
    "hookCalls (rr_router (routed parse (ps 0) (rq_Body req))) = hookCalls (ps_router (ps 0)) @
       (if hasHook (ps_router (ps 0)) then [(rq_Model req, if us_broken up then ''error'' else ''success'')] else [])"
    by (rule router_relays_first [OF assms(2) adm(5)])
  define seen where "seen = \<lparr>us_status = us_status up, us_ctype = header_get (rhdr (relay up new_response)) ''Content-Type'',
    us_chunks = us_chunks up, us_broken = False\<rparr>"
  have "routed_net parse ps 0 (upstream_target d) (rq_Body req) = Got seen"
    using e(3) by (simp add: routed_net_def router_answer_def client_view_def e(6,7) relay_status relay_body seen_def)
  then have "dispatch parse render (routed_net parse ps) d req =
      (Inr (delivered_result req seen), [made_call d (rq_Body req) (rq_Model req)])"
    using e(5) by (intro dispatch_first_answer [OF assms(3)]) (simp_all add: seen_def)
  then have out: "answered_by parse render ps d now req =
      ResultIn (fst (delivered_result req seen)) now (snd (delivered_result req seen))"
    by (simp add: answered_by_def case_prod_beta)
  obtain v g1 where v: "finish err_text (ResultIn (fst (delivered_result req seen)) now (snd (delivered_result req seen))) (others g') req w =
      \<lparr>gr_panic = None, gr_gateway = gateway_hook (rq_Model req) (is_success (fst (delivered_result req seen))) g1, gr_response = v\<rparr>"
    "g_hasHook g1 = g_hasHook (others g')" "g_hookCalls g1 = g_hookCalls (others g')"
    "rstatus v = Some (StatusCode (fst (delivered_result req seen)))"
    "rbody v = (if Streaming (fst (delivered_result req seen)) then snd (delivered_result req seen)
       else [rs_Body (fst (delivered_result req seen))])"
    "rhdr v ''X-Served-Model'' = Some (ServedModel (fst (delivered_result req seen)))"
    using finish_relays [of "fst (delivered_result req seen)" w err_text now "snd (delivered_result req seen)" "others g'" req]
      e(3,4) adm(2-4) by (auto simp: delivered_result_simps seen_def)
  have succ: "is_success (fst (delivered_result req seen)) \<longleftrightarrow> 200 \<le> us_status up \<and> us_status up < 300"
    by (simp add: is_success_def delivered_result_simps seen_def)
  have "gateway_handleInference parse err_text t1 t2 others (answered_by parse render ps d now) g r =
      \<lparr>gr_panic = None, gr_gateway = gateway_hook (rq_Model req) (200 \<le> us_status up \<and> us_status up < 300) g1, gr_response = v\<rparr>"
    using v(1) by (simp add: gateway_handleInference_def assms(1) out succ)
  moreover have "concat (rbody v) = concat (us_chunks up)" "rstatus v = Some (us_status up)"
    "rhdr v ''X-Served-Model'' = Some (rq_Model req)"
    using v(4-6) delivered_result_simps(4) [of req seen] by (simp_all add: delivered_result_simps seen_def)
  ultimately show thesis
    using e adm(6,7) v(2,3) assms(4) by (intro that [of e up g1 v]) (simp_all add: hook_stable_def)
qed

end
