(* ===== verification/Platform.thy ===== *)
theory Platform
  imports Request_Plane_Progress Router_Concurrency End_To_End
begin

text \<open>
  The two planes and the fleet as one concurrent system. The request plane is that of
  \<open>Request_Plane\<close>, but a dispatch is no longer one step: each of its HTTP calls is a request to the
  router, whose handler goes through the steps of \<open>Router_Concurrency\<close> while everything else goes
  on; the workers it may try are those the registry of \<open>Registry_Steps\<close> gives when
  the handler asks. The router also serves requests of others.

  The HTTP call between the planes can fail on its own: the request cannot be built, the
  connection is refused or lost, the client's timeout expires, or the response breaks off. What a worker
  answers is open, as in \<open>Router_Concurrency\<close>.
\<close>

section \<open>Entering the router\<close>

text \<open>
  The beginning of the router's \<^verbatim>\<open>handleInference\<close>: the checks, the lookup in the registry, and either a
  response or the state in which the loop over the workers begins.
\<close>

definition router_begin ::
  "(bytes \<Rightarrow> json option) \<Rightarrow> Registry \<Rightarrow> string list \<Rightarrow> http_request \<Rightarrow> response + task" where
  "router_begin parse rg ks req =
     (let w = new_response
      in if Method req \<noteq> ''POST'' then Inl (http_Error ''method not allowed'' 405 w)
         else case Body req of
           None \<Rightarrow> Inl (http_Error ''failed to read request body'' 400 w)
         | Some body \<Rightarrow>
             (case Option.bind (parse body) (unmarshal_string_field ''model'') of
                None \<Rightarrow> Inl (http_Error ''request body must contain a valid 'model' field'' 400 w)
              | Some model \<Rightarrow>
                  if model = '''' then Inl (http_Error ''request body must contain a valid 'model' field'' 400 w)
                  else
                    let ws = HealthyWorkersForModel rg ks model
                    in if ws = [] then Inl (http_Error (''no healthy workers available for model '' @ quoted model) 503 w)
                       else Inr (start_task req body model ws)))"

text \<open>With the loop it makes up the handler.\<close>

lemma router_begin_pieces:
  "handleInference parse reads net rg ks r req =
     (case router_begin parse rg ks req of
        Inl w \<Rightarrow> \<lparr>rr_panic = None, rr_router = r, rr_response = w, rr_sent = [], rr_tried = []\<rparr>
      | Inr t \<Rightarrow> route_attempts reads net (tk_req t) (tk_body t) (tk_model t) (tk_workers t) (tk_left t) 1
                  (tk_tried t) (tk_sent t) r (tk_response t))"
  by (simp add: handleInference_def router_begin_def reject_def start_task_def Let_def split: option.split)

lemma router_begin_task:
  assumes "router_begin parse rg ks req = Inr t"
  obtains body model where "Method req = ''POST''" "Body req = Some body" "routable parse req model"
    "HealthyWorkersForModel rg ks model \<noteq> []" "t = start_task req body model (HealthyWorkersForModel rg ks model)"
  using assms
  by (auto simp: router_begin_def routable_def Let_def bind_eq_Some_conv split: if_splits option.splits)

lemma router_begin_refusal:
  assumes "router_begin parse rg ks req = Inl w"
  shows "rstatus w \<in> {Some 405, Some 400, Some 503}"
  using assms by (auto simp: router_begin_def Let_def split: if_splits option.splits)

section \<open>A dispatch, call by call\<close>

text \<open>
  One HTTP call of a dispatch: the body it sent, the router's request it became (none if the
  router refused it at once, or was not reached), and what it gave.
\<close>

record exchange =
  ex_body :: bytes
  ex_task :: "nat option"
  ex_answer :: do_result

text \<open>
  The dispatcher is deterministic: the answers so far determine the next call. They are played back
  to it, and the call it makes after the last of them is the next one.
\<close>

definition replay :: "exchange list \<Rightarrow> net" where
  "replay xs = (\<lambda>n _ _. if n < length xs then ex_answer (xs ! n) else BuildError)"

definition next_call ::
  "(bytes \<Rightarrow> json option) \<Rightarrow> (json \<Rightarrow> bytes) \<Rightarrow> Dispatcher \<Rightarrow> Request \<Rightarrow> exchange list \<Rightarrow> bytes option" where
  "next_call parse render d req xs =
     (let calls = snd (dispatch parse render (replay xs) d req)
      in if length xs < length calls then Some (uc_body (calls ! length xs)) else None)"

section \<open>The system\<close>

text \<open>
  \<open>pf_calls j\<close> is the router's request that pool goroutine \<open>j\<close> waits for. Two components only record:
  \<open>pf_exchanges\<close> the finished calls of the dispatch of each request, by its id, and
  \<open>pf_hops\<close> which worker gave what to each of the router's requests.
\<close>

record platform =
  pf_plane :: plane
  pf_router :: rsys
  pf_fleet :: fleet
  pf_calls :: "nat \<Rightarrow> nat option"
  pf_exchanges :: "string \<Rightarrow> exchange list"
  pf_hops :: "nat \<Rightarrow> (WorkerEntry \<times> do_result) list"

definition set_call :: "platform \<Rightarrow> nat \<Rightarrow> nat option \<Rightarrow> platform" where
  "set_call s j c = s\<lparr>pf_calls := (pf_calls s)(j := c)\<rparr>"

definition exchanged :: "platform \<Rightarrow> Request \<Rightarrow> exchange \<Rightarrow> platform" where
  "exchanged s req x = s\<lparr>pf_exchanges := (pf_exchanges s)(rq_ID req := pf_exchanges s (rq_ID req) @ [x])\<rparr>"

definition add_task :: "platform \<Rightarrow> nat \<Rightarrow> task \<Rightarrow> platform" where
  "add_task s n t = s\<lparr>pf_router := (pf_router s)\<lparr>rs_tasks := (rs_tasks (pf_router s))(n \<mapsto> t)\<rparr>\<rparr>"

text \<open>What the dispatcher gets for a call whose handler has ended: after a panic the server closes the connection.\<close>

definition task_answer :: "task \<Rightarrow> do_result option" where
  "task_answer t =
     (case tk_phase t of
        Done _ \<Rightarrow> Some (Got (client_view (tk_response t)))
      | Crashed _ _ \<Rightarrow> Some Unreachable
      | _ \<Rightarrow> None)"

definition note_hop :: "task \<Rightarrow> do_result \<Rightarrow> (WorkerEntry \<times> do_result) list \<Rightarrow> (WorkerEntry \<times> do_result) list" where
  "note_hop t res hops = (case tk_phase t of Proxying e \<Rightarrow> hops @ [(e, res)] | _ \<Rightarrow> hops)"

text \<open>What the end of a dispatch does in the request plane.\<close>

definition after_dispatch :: "plane \<Rightarrow> nat \<Rightarrow> nat \<Rightarrow> Request \<Rightarrow> panic + Result \<times> bytes list \<Rightarrow> plane" where
  "after_dispatch p j k req out =
     (case out of
        Inl e \<Rightarrow> set_pool p j (Panicked e)
      | Inr (result, chunks) \<Rightarrow>
          set_wires (set_pool p j (if rq_Stream req then Pumping k req chunks else Looping)) req
            (\<lambda>v. v\<lparr>wr_result := Some result, wr_sent := Some (result, chunks)\<rparr>))"

definition asks :: "(bytes \<Rightarrow> json option) \<Rightarrow> (json \<Rightarrow> bytes) \<Rightarrow> Dispatcher \<Rightarrow> platform \<Rightarrow> nat \<Rightarrow> Request \<Rightarrow> bytes \<Rightarrow> bool" where
  "asks parse render d s j req body \<longleftrightarrow>
     (\<exists>k. pl_pool (pf_plane s) j = Serving k req) \<and> pf_calls s j = None \<and>
     next_call parse render d req (pf_exchanges s (rq_ID req)) = Some body"

definition waits :: "platform \<Rightarrow> nat \<Rightarrow> Request \<Rightarrow> nat \<Rightarrow> task \<Rightarrow> bool" where
  "waits s j req n t \<longleftrightarrow>
     (\<exists>k. pl_pool (pf_plane s) j = Serving k req) \<and> pf_calls s j = Some n \<and> rs_tasks (pf_router s) n = Some t"

datatype platform_event =
    FPlane plane_event | FFleet reg_event | FAdvance nat do_result | FDirect nat
  | FCall nat | FRefused nat | FNoCall nat | FLost nat | FReturn nat | FBreak nat | FDispatch nat

inductive platform_step ::
  "(bytes \<Rightarrow> json option) \<Rightarrow> (json \<Rightarrow> bytes) \<Rightarrow> (dispatch_error \<Rightarrow> string) \<Rightarrow> Dispatcher \<Rightarrow>
     platform \<Rightarrow> platform_event \<Rightarrow> platform \<Rightarrow> bool"
  for parse render err_text d where
  f_plane: "\<lbrakk>plane_step parse render err_text d (pf_plane s) e p; \<forall>j. e \<noteq> PDispatch j\<rbrakk> \<Longrightarrow>
    platform_step parse render err_text d s (FPlane e) (s\<lparr>pf_plane := p\<rparr>)"
| f_fleet: "reg_step (pf_fleet s) e f \<Longrightarrow> platform_step parse render err_text d s (FFleet e) (s\<lparr>pf_fleet := f\<rparr>)"
| f_advance: "\<lbrakk>rs_tasks (pf_router s) n = Some t; advance res (rs_router (pf_router s)) t = Some (r', t')\<rbrakk> \<Longrightarrow>
    platform_step parse render err_text d s (FAdvance n res)
      (s\<lparr>pf_router := \<lparr>rs_router = r', rs_tasks = (rs_tasks (pf_router s))(n \<mapsto> t')\<rparr>,
         pf_hops := (pf_hops s)(n := note_hop t res (pf_hops s n))\<rparr>)"
| f_direct: "\<lbrakk>rs_tasks (pf_router s) n = None; range_order (workers (reg (pf_fleet s))) ks;
      router_begin parse (reg (pf_fleet s)) ks req = Inr t\<rbrakk> \<Longrightarrow>
    platform_step parse render err_text d s (FDirect n) (add_task s n t)"
| f_call: "\<lbrakk>asks parse render d s j req body; rs_tasks (pf_router s) n = None;
      range_order (workers (reg (pf_fleet s))) ks;
      router_begin parse (reg (pf_fleet s)) ks (upstream_request body) = Inr t\<rbrakk> \<Longrightarrow>
    platform_step parse render err_text d s (FCall j) (set_call (add_task s n t) j (Some n))"
| f_refused: "\<lbrakk>asks parse render d s j req body; range_order (workers (reg (pf_fleet s))) ks;
      router_begin parse (reg (pf_fleet s)) ks (upstream_request body) = Inl w\<rbrakk> \<Longrightarrow>
    platform_step parse render err_text d s (FRefused j)
      (exchanged s req \<lparr>ex_body = body, ex_task = None, ex_answer = Got (client_view w)\<rparr>)"
| f_nocall: "\<lbrakk>asks parse render d s j req body; res = BuildError \<or> res = Unreachable\<rbrakk> \<Longrightarrow>
    platform_step parse render err_text d s (FNoCall j)
      (exchanged s req \<lparr>ex_body = body, ex_task = None, ex_answer = res\<rparr>)"
| f_lost: "waits s j req n t \<Longrightarrow>
    platform_step parse render err_text d s (FLost j)
      (exchanged (set_call s j None) req \<lparr>ex_body = tk_body t, ex_task = Some n, ex_answer = Unreachable\<rparr>)"
| f_return: "\<lbrakk>waits s j req n t; task_answer t = Some res\<rbrakk> \<Longrightarrow>
    platform_step parse render err_text d s (FReturn j)
      (exchanged (set_call s j None) req \<lparr>ex_body = tk_body t, ex_task = Some n, ex_answer = res\<rparr>)"
| f_break: "\<lbrakk>waits s j req n t; rstatus (tk_response t) \<noteq> None; prefix cs (us_chunks (client_view (tk_response t)))\<rbrakk> \<Longrightarrow>
    platform_step parse render err_text d s (FBreak j)
      (exchanged (set_call s j None) req
        \<lparr>ex_body = tk_body t, ex_task = Some n,
         ex_answer = Got ((client_view (tk_response t))\<lparr>us_chunks := cs, us_broken := True\<rparr>)\<rparr>)"
| f_dispatch: "\<lbrakk>pl_pool (pf_plane s) j = Serving k req; pf_calls s j = None;
      next_call parse render d req (pf_exchanges s (rq_ID req)) = None; wr_result (wires_of (pf_plane s) req) = None;
      out = fst (dispatch parse render (replay (pf_exchanges s (rq_ID req))) d req)\<rbrakk> \<Longrightarrow>
    platform_step parse render err_text d s (FDispatch j) (s\<lparr>pf_plane := after_dispatch (pf_plane s) j k req out\<rparr>)"

inductive_cases platform_stepE: "platform_step parse render err_text d s e t"

definition platform_start :: "nat \<Rightarrow> Dispatcher \<Rightarrow> platform \<Rightarrow> bool" where
  "platform_start cap d s \<longleftrightarrow>
     plane_start cap d (pf_plane s) \<and> router_start (pf_router s) \<and> fleet_start (pf_fleet s) \<and>
     pf_calls s = (\<lambda>_. None) \<and> pf_exchanges s = (\<lambda>_. []) \<and> pf_hops s = (\<lambda>_. [])"

section \<open>The parts of the system\<close>

text \<open>What each part of the system goes through is a run of that part alone.\<close>

lemma platform_upds [simp]:
  "pf_plane (set_call s j c) = pf_plane s" "pf_router (set_call s j c) = pf_router s"
  "pf_fleet (set_call s j c) = pf_fleet s" "pf_calls (set_call s j c) = (pf_calls s)(j := c)"
  "pf_exchanges (set_call s j c) = pf_exchanges s" "pf_hops (set_call s j c) = pf_hops s"
  "pf_plane (exchanged s req x) = pf_plane s" "pf_router (exchanged s req x) = pf_router s"
  "pf_fleet (exchanged s req x) = pf_fleet s" "pf_calls (exchanged s req x) = pf_calls s"
  "pf_exchanges (exchanged s req x) = (pf_exchanges s)(rq_ID req := pf_exchanges s (rq_ID req) @ [x])"
  "pf_hops (exchanged s req x) = pf_hops s"
  "pf_plane (add_task s n t) = pf_plane s"
  "pf_router (add_task s n t) = (pf_router s)\<lparr>rs_tasks := (rs_tasks (pf_router s))(n \<mapsto> t)\<rparr>"
  "pf_fleet (add_task s n t) = pf_fleet s" "pf_calls (add_task s n t) = pf_calls s"
  "pf_exchanges (add_task s n t) = pf_exchanges s" "pf_hops (add_task s n t) = pf_hops s"
  by (simp_all add: set_call_def exchanged_def add_task_def)

lemma after_dispatch_step:
  assumes "pl_pool p j = Serving k req" and "wr_result (wires_of p req) = None"
  shows "plane_step parse render err_text d p (PDispatch j) (after_dispatch p j k req (fst (dispatch parse render net d req)))"
proof (cases "fst (dispatch parse render net d req)")
  case (Inl e)
  then show ?thesis using p_panic [OF assms(1) Inl] by (simp add: after_dispatch_def)
next
  case (Inr out)
  then show ?thesis using p_dispatch [OF assms(1) _ assms(2), of parse render net d] by (cases out) (simp add: after_dispatch_def)
qed

lemma begin_arrives:
  assumes "router_begin parse rg ks req = Inr t" and "keyed_registry rg" and "range_order (workers rg) ks"
    and "rs_tasks s n = None"
  shows "route_step s (RArrive n) (s\<lparr>rs_tasks := (rs_tasks s)(n \<mapsto> t)\<rparr>)"
  using assms(1)
proof (rule router_begin_task)
  fix body model
  assume "Body req = Some body" "routable parse req model" "HealthyWorkersForModel rg ks model \<noteq> []"
    and t: "t = start_task req body model (HealthyWorkersForModel rg ks model)"
  then show ?thesis unfolding t using assms(2-4) by (intro route_arrive [OF _ _ _ _ _ refl])
qed

interpretation fleetpart: refinement_map "platform_start cap d" "platform_step parse render err_text d"
    "\<lambda>s. reg_inv (pf_fleet s)" fleet_start reg_step pf_fleet
  for cap d parse render err_text
proof unfold_locales
  show "reg_inv (pf_fleet s)" "fleet_start (pf_fleet s)" if "platform_start cap d s" for s
    using that regsys.start_inv by (auto simp: platform_start_def)
  show same: "pf_fleet t = pf_fleet s \<or> (\<exists>a. reg_step (pf_fleet s) a (pf_fleet t))"
    if "platform_step parse render err_text d s e t" for s e t
    using that by (cases rule: platform_step.cases) auto
  show "reg_inv (pf_fleet t)" if "reg_inv (pf_fleet s)" "platform_step parse render err_text d s e t" for s e t
    using same [OF that(2)] that(1) regsys.step_inv by metis
qed

interpretation planepart: refinement_map "platform_start cap d" "platform_step parse render err_text d"
    "\<lambda>s. reg_inv (pf_fleet s)" "plane_start cap d" "plane_step parse render err_text d" pf_plane
  for cap d parse render err_text
proof unfold_locales
  show "plane_start cap d (pf_plane s)" if "platform_start cap d s" for s using that by (simp add: platform_start_def)
  show "pf_plane t = pf_plane s \<or> (\<exists>a. plane_step parse render err_text d (pf_plane s) a (pf_plane t))"
    if "platform_step parse render err_text d s e t" for s e t
    using that
  proof (cases rule: platform_step.cases)
    case (f_dispatch j k req out)
    then show ?thesis using after_dispatch_step by fastforce
  qed auto
qed

interpretation routerpart: refinement_map "platform_start cap d" "platform_step parse render err_text d"
    "\<lambda>s. reg_inv (pf_fleet s)" router_start route_step pf_router
  for cap d parse render err_text
proof unfold_locales
  show "router_start (pf_router s)" if "platform_start cap d s" for s using that by (simp add: platform_start_def)
  show "pf_router t = pf_router s \<or> (\<exists>a. route_step (pf_router s) a (pf_router t))"
    if "reg_inv (pf_fleet s)" "platform_step parse render err_text d s e t" for s e t
    using that(2)
  proof (cases rule: platform_step.cases)
    case (f_advance n u res r' u')
    then show ?thesis using route_advance by fastforce
  next
    case (f_direct n ks req u)
    then show ?thesis using begin_arrives [OF f_direct(5) reg_inv_keyed [OF that(1)] f_direct(4,3)] by auto
  next
    case (f_call j req body n ks u)
    then show ?thesis using begin_arrives [OF f_call(6) reg_inv_keyed [OF that(1)] f_call(5,4)] by auto
  qed simp_all
qed

end
