(* ===== verification/Platform_Safety.thy ===== *)
theory Platform_Safety
  imports Platform
begin

text \<open>
  The invariant of the whole system: the calls of a dispatch follow its plan (\<open>calls_ok\<close>), each call is
  a request of its own in the router (\<open>waiting_ok\<close>, \<open>exchanges_ok\<close>), what the router answers
  was relayed from a worker that the registry had given as healthy (\<open>path_ok\<close>), and the result that goes to
  the client is that of the last call (\<open>sent_by\<close>).
\<close>

section \<open>The calls of a dispatch\<close>

definition plan_of ::
  "(bytes \<Rightarrow> json option) \<Rightarrow> (json \<Rightarrow> bytes) \<Rightarrow> Dispatcher \<Rightarrow> Request \<Rightarrow> (string \<times> bytes) list" where
  "plan_of parse render d req =
     (case parse (rq_Body req) of Some (JObj ms) \<Rightarrow> plan render d req ms (chain d req) | _ \<Rightarrow> [])"

definition calls_ok ::
  "(bytes \<Rightarrow> json option) \<Rightarrow> (json \<Rightarrow> bytes) \<Rightarrow> Dispatcher \<Rightarrow> Request \<Rightarrow> exchange list \<Rightarrow> bool" where
  "calls_ok parse render d req xs \<longleftrightarrow>
     length xs \<le> length (plan_of parse render d req) \<and>
     map ex_body xs = map snd (take (length xs) (plan_of parse render d req)) \<and>
     (\<forall>x \<in> set (butlast xs). goes_on req (ex_answer x))"

lemma butlast_goes_on:
  "(\<forall>x \<in> set (butlast xs). goes_on req (ex_answer x)) \<longleftrightarrow> (\<forall>n. Suc n < length xs \<longrightarrow> goes_on req (ex_answer (xs ! n)))"
proof -
  have "(\<forall>x \<in> set (butlast xs). P x) \<longleftrightarrow> (\<forall>n < length xs - 1. P (xs ! n))" for P
    by (auto simp: all_set_conv_all_nth nth_butlast)
  then show ?thesis by (auto simp: less_diff_conv)
qed

text \<open>The next call is the next of the plan, as long as every answer so far lets the dispatch go on.\<close>

lemma next_call_plan:
  assumes "parse (rq_Body req) = Some (JObj ms)" and "1 \<le> maxAttempts d" and "P = plan_of parse render d req"
  shows "next_call parse render d req xs = Some body \<longleftrightarrow>
    length xs < length P \<and> (\<forall>x \<in> set xs. goes_on req (ex_answer x)) \<and> body = snd (P ! length xs)"
proof -
  have P: "P = plan render d req ms (chain d req)" using assms(1,3) by (simp add: plan_of_def)
  obtain k where k: "k < length P" "snd (dispatch parse render (replay xs) d req) = logged d (take (Suc k) P)"
    "\<forall>i < k. goes_on req (replay xs i (upstream_target d) (snd (P ! i)))"
    "goes_on req (replay xs k (upstream_target d) (snd (P ! k))) \<Longrightarrow> Suc k = length P"
    using walks_plan [where net = "replay xs" and parse = parse, OF assms(1,2) P] by (metis snd_conv)
  have len: "length (logged d (take (Suc k) P)) = Suc k" using k(1) by (simp add: logged_def)
  have body: "uc_body (logged d (take (Suc k) P) ! n) = snd (P ! n)" if "n \<le> k" for n
    using that k(1) by (simp add: logged_def made_call_def case_prod_beta)
  have nth: "replay xs n u b = ex_answer (xs ! n)" if "n < length xs" for n u b using that by (simp add: replay_def)
  have "length xs \<le> k \<longleftrightarrow> length xs < length P \<and> (\<forall>x \<in> set xs. goes_on req (ex_answer x))"
  proof
    assume le: "length xs \<le> k"
    have "goes_on req (ex_answer (xs ! n))" if "n < length xs" for n using spec [OF k(3), of n] nth [OF that] that le by simp
    then show "length xs < length P \<and> (\<forall>x \<in> set xs. goes_on req (ex_answer x))"
      using le k(1) by (simp add: all_set_conv_all_nth)
  next
    assume r: "length xs < length P \<and> (\<forall>x \<in> set xs. goes_on req (ex_answer x))"
    show "length xs \<le> k"
    proof (rule ccontr)
      assume "\<not> length xs \<le> k"
      then have "k < length xs" by simp
      then have "Suc k = length P" using k(4) nth r by simp
      then show False using r \<open>k < length xs\<close> by simp
    qed
  qed
  then show ?thesis unfolding next_call_def Let_def k(2) len using body by (auto simp: less_Suc_eq_le)
qed

lemma next_call_end:
  assumes "parse (rq_Body req) = Some (JObj ms)" and "1 \<le> maxAttempts d" and "P = plan_of parse render d req"
    and "calls_ok parse render d req xs" and "next_call parse render d req xs = None"
  shows "xs \<noteq> []"
    and "fst (dispatch parse render (replay xs) d req) = Inr (outcome_of req (ex_answer (last xs)) (fst (P ! (length xs - 1))))"
proof -
  have P: "P = plan render d req ms (chain d req)" using assms(1,3) by (simp add: plan_of_def)
  obtain k where k: "k < length P"
    "dispatch parse render (replay xs) d req =
       (Inr (outcome_of req (replay xs k (upstream_target d) (snd (P ! k))) (fst (P ! k))), logged d (take (Suc k) P))"
    "goes_on req (replay xs k (upstream_target d) (snd (P ! k))) \<Longrightarrow> Suc k = length P"
    using walks_plan [where net = "replay xs" and parse = parse, OF assms(1,2) P] by metis
  have "k < length xs"
  proof (rule ccontr)
    assume "\<not> k < length xs"
    then show False using assms(5) k(1) by (auto simp: next_call_def k(2) logged_def)
  qed
  have le: "length xs \<le> length P" using assms(3,4) by (simp add: calls_ok_def)
  have "\<not> Suc k < length xs"
  proof
    assume less: "Suc k < length xs"
    then have "goes_on req (ex_answer (xs ! k))" using assms(4) butlast_goes_on by (auto simp: calls_ok_def)
    then show False using k(3) less le by (simp add: replay_def)
  qed
  then have "length xs = Suc k" using \<open>k < length xs\<close> by simp
  then show "xs \<noteq> []" by auto
  then have "replay xs k u b = ex_answer (last xs)" for u b
    using \<open>length xs = Suc k\<close> by (simp add: replay_def last_conv_nth)
  then show "fst (dispatch parse render (replay xs) d req) = Inr (outcome_of req (ex_answer (last xs)) (fst (P ! (length xs - 1))))"
    using \<open>length xs = Suc k\<close> by (simp add: k(2))
qed

lemma calls_ok_Nil [simp]: "calls_ok parse render d req []"
  by (simp add: calls_ok_def)

lemma calls_ok_snoc:
  assumes "parse (rq_Body req) = Some (JObj ms)" and "1 \<le> maxAttempts d"
    and "calls_ok parse render d req xs" and "next_call parse render d req xs = Some (ex_body x)"
  shows "calls_ok parse render d req (xs @ [x])"
  using assms(3) next_call_plan [where parse = parse, OF assms(1,2) refl, of render xs "ex_body x"] assms(4)
  by (simp add: calls_ok_def take_Suc_conv_app_nth)

section \<open>What leaves what alone\<close>

lemma plane_step_frame:
  assumes "plane_step parse render err_text d p e p'" and "\<forall>j. e \<noteq> PDispatch j"
  shows "pl_pool p j = Serving k r \<Longrightarrow> pl_pool p' j = Serving k r"
    and "wr_sent (pl_wires p' m) = wr_sent (pl_wires p m)"
    and "calls (pl_q p) k = Some (Returned x) \<Longrightarrow> calls (pl_q p') k = Some (Returned x)"
  using assms by (induction rule: plane_step.induct) (auto simp: plane_upds intro: qstep_returned)

lemma after_dispatch_frame [simp]:
  "pl_q (after_dispatch p j k req out) = pl_q p"
  "i \<noteq> j \<Longrightarrow> pl_pool (after_dispatch p j k req out) i = pl_pool p i"
  "m \<noteq> rq_ID req \<Longrightarrow> pl_wires (after_dispatch p j k req out) m = pl_wires p m"
  "wr_sent (pl_wires (after_dispatch p j k req (Inr (result, chunks))) (rq_ID req)) = Some (result, chunks)"
  by (auto simp: after_dispatch_def plane_upds split: sum.split)

lemma advance_frame:
  assumes "advance res r t = Some (r', t')"
  shows "tk_req t' = tk_req t" and "tk_body t' = tk_body t" and "tk_model t' = tk_model t" and "tk_workers t' = tk_workers t"
    and "tk_phase t \<noteq> Done x" and "tk_phase t \<noteq> Crashed y z"
proof -
  have "tk_req t' = tk_req t \<and> tk_body t' = tk_body t \<and> tk_model t' = tk_model t \<and> tk_workers t' = tk_workers t"
  proof (cases "tk_phase t")
    case (Choosing gf1 gf2)
    then have "pick_now gf1 gf2 r t = (r', t')" using assms by (simp add: advance_def)
    then show ?thesis by (cases rule: pick_now_cases) simp_all
  next
    case (Proxying e)
    then have "t' = relay_answer res e t" using assms by (simp add: advance_def)
    then show ?thesis by (cases rule: relay_answer_cases [of res e t]) simp_all
  qed (use assms in \<open>auto simp: advance_def split: list.splits\<close>)
  then show "tk_req t' = tk_req t" "tk_body t' = tk_body t" "tk_model t' = tk_model t" "tk_workers t' = tk_workers t" by auto
  show "tk_phase t \<noteq> Done x" "tk_phase t \<noteq> Crashed y z" using assms by (auto simp: advance_def)
qed

text \<open>Once a status is committed the response is what it is.\<close>

lemma advance_committed:
  assumes "task_ok t" and "advance res r t = Some (r', t')" and "rstatus (tk_response t) \<noteq> None"
  shows "tk_response t' = tk_response t"
proof (cases "tk_phase t")
  case (Choosing gf1 gf2)
  then have "pick_now gf1 gf2 r t = (r', t')" using assms by (simp add: advance_def)
  then show ?thesis by (cases rule: pick_now_cases) simp_all
next
  case (Proxying e)
  then show ?thesis using assms(1,3) by (simp add: task_ok_def)
next
  case Exhausted
  then show ?thesis using assms(1,3) by (simp add: task_ok_def)
qed (use assms(2) in \<open>auto simp: advance_def split: list.splits\<close>)

section \<open>The way through the router\<close>

text \<open>
  The workers a request of the router has tried: those the registry gave as healthy and serving the
  model; each got the request unchanged; all but the last failed; and the response is the last
  one's answer, or the router's own 502.
\<close>

fun chosen :: "phase \<Rightarrow> WorkerEntry option" where
  "chosen (Chosen e) = Some e"
| "chosen (Proxying e) = Some e"
| "chosen _ = None"

definition path_ok :: "task \<Rightarrow> (WorkerEntry \<times> do_result) list \<Rightarrow> bool" where
  "path_ok t hops \<longleftrightarrow>
     (\<forall>e \<in> set (tk_workers t). healthy_state (State e) \<and> tk_model t \<in> set (ModelsLoaded (Info e))) \<and>
     fst ` set hops \<union> set_option (chosen (tk_phase t)) \<subseteq> set (tk_workers t) \<and>
     tk_sent t = map (\<lambda>(e, _). proxy_request (tk_req t) (target_of (tk_req t) e) (tk_body t))
       (filter (\<lambda>(_, res). res \<noteq> BuildError) hops) \<and>
     (\<forall>(e, res) \<in> set (butlast hops). failed res) \<and>
     (case tk_phase t of
        Relayed e retryable err \<Rightarrow>
          if retryable then err \<and> (\<forall>(e, res) \<in> set hops. failed res)
          else \<exists>up. hops \<noteq> [] \<and> last hops = (e, Got up) \<and> tk_response t = relay up new_response
      | Reporting result \<Rightarrow> \<exists>e up. hops \<noteq> [] \<and> last hops = (e, Got up) \<and> tk_response t = relay up new_response
      | Done result \<Rightarrow>
          (\<exists>e up. hops \<noteq> [] \<and> last hops = (e, Got up) \<and> tk_response t = relay up new_response) \<or>
          (\<forall>(e, res) \<in> set hops. failed res) \<and>
            tk_response t = http_Error ''all workers failed or unavailable'' 502 new_response
      | Crashed p wid \<Rightarrow> tk_response t = new_response
      | _ \<Rightarrow> \<forall>(e, res) \<in> set hops. failed res)"

lemma path_ok_start:
  assumes "router_begin parse rg ks req = Inr t" and "range_order (workers rg) ks"
  shows "path_ok t []"
  using assms(1)
proof (rule router_begin_task)
  fix body model
  assume t: "t = start_task req body model (HealthyWorkersForModel rg ks model)"
  show ?thesis using healthy_workers_set [OF assms(2), of model] by (auto simp: path_ok_def t start_task_def)
qed

lemma advance_path:
  assumes "task_ok t" and "advance res r t = Some (r', t')" and "path_ok t hops"
  shows "path_ok t' (note_hop t res hops)"
proof (cases "tk_phase t")
  case (Choosing gf1 gf2)
  then have "pick_now gf1 gf2 r t = (r', t')" using assms(2) by (simp add: advance_def)
  moreover have "tk_response t = new_response" using assms(1) Choosing by (simp add: task_ok_def)
  ultimately show ?thesis
  proof (cases rule: pick_now_cases)
    case (picked e c)
    then show ?thesis using assms(3) Choosing by (auto simp: path_ok_def candidates_def note_hop_def)
  qed (use assms(3) Choosing in \<open>auto simp: path_ok_def note_hop_def\<close>)
next
  case (Proxying e)
  have t': "t' = relay_answer res e t" using assms(2) Proxying by (simp add: advance_def)
  have new: "tk_response t = new_response" using assms(1) Proxying by (simp add: task_ok_def)
  have old: "\<forall>(e, res) \<in> set hops. failed res" using assms(3) Proxying by (simp add: path_ok_def)
  show ?thesis
  proof (cases "failed res")
    case True
    then show ?thesis
      using assms(3) old unfolding t'
      by (auto simp: path_ok_def note_hop_def Proxying relay_answer_def proxy_failed Let_def butlast_append)
  next
    case False
    then obtain up where up: "res = Got up" using not_failed by blast
    show ?thesis
      using assms(3) old unfolding t' up
      by (auto simp: path_ok_def note_hop_def Proxying relay_answer_def new proxy_got Let_def)
  qed
next
  case (Relayed e retryable err)
  then show ?thesis using assms(2,3) by (cases retryable; cases err) (auto simp: path_ok_def note_hop_def advance_def)
next
  case Exhausted
  then have "tk_response t = new_response" using assms(1) by (simp add: task_ok_def)
  then show ?thesis using assms(2,3) Exhausted by (auto simp: path_ok_def note_hop_def advance_def)
qed (use assms(2,3) in \<open>auto simp: path_ok_def note_hop_def advance_def split: list.splits if_splits\<close>)

section \<open>The invariant\<close>

text \<open>
  What a call of the dispatcher gave, given the request of the router it became: after a
  proper end the whole response; a prefix of it if the connection broke.
\<close>

definition answer_from :: "exchange \<Rightarrow> task \<Rightarrow> bool" where
  "answer_from x t \<longleftrightarrow>
     (case ex_answer x of
        BuildError \<Rightarrow> False
      | Unreachable \<Rightarrow> True
      | Got up \<Rightarrow>
          if us_broken up
          then rstatus (tk_response t) = Some (us_status up) \<and> prefix (us_chunks up) (rbody (tk_response t))
          else (\<exists>result. tk_phase t = Done result) \<and> up = client_view (tk_response t))"

definition turned_away :: "do_result \<Rightarrow> bool" where
  "turned_away res \<longleftrightarrow> failed res \<or> (\<exists>up. res = Got up \<and> us_status up \<in> {400, 503} \<and> \<not> us_broken up)"

definition exchange_ok :: "(nat \<rightharpoonup> task) \<Rightarrow> exchange \<Rightarrow> bool" where
  "exchange_ok T x \<longleftrightarrow>
     (case ex_task x of
        None \<Rightarrow> turned_away (ex_answer x)
      | Some n \<Rightarrow> \<exists>t. T n = Some t \<and> tk_req t = upstream_request (ex_body x) \<and> tk_body t = ex_body x \<and> answer_from x t)"

text \<open>The requests of the router that pool goroutines wait for: each goroutine its own.\<close>

definition waiting_ok ::
  "(bytes \<Rightarrow> json option) \<Rightarrow> (json \<Rightarrow> bytes) \<Rightarrow> Dispatcher \<Rightarrow> (nat \<Rightarrow> goroutine) \<Rightarrow> (nat \<rightharpoonup> task) \<Rightarrow>
     (nat \<Rightarrow> nat option) \<Rightarrow> (string \<Rightarrow> exchange list) \<Rightarrow> bool" where
  "waiting_ok parse render d P T C X \<longleftrightarrow>
     (\<forall>j n. C j = Some n \<longrightarrow>
        (\<exists>k r t. P j = Serving k r \<and> T n = Some t \<and> tk_req t = upstream_request (tk_body t) \<and>
           next_call parse render d r (X (rq_ID r)) = Some (tk_body t)) \<and>
        (\<forall>i. C i = Some n \<longrightarrow> i = j) \<and> (\<forall>m. \<forall>x \<in> set (X m). ex_task x \<noteq> Some n))"

text \<open>The finished calls: those of a request that \<^verbatim>\<open>Pop\<close> returned, along its plan, no two of them the same request of the router.\<close>

definition exchanges_ok ::
  "(bytes \<Rightarrow> json option) \<Rightarrow> (json \<Rightarrow> bytes) \<Rightarrow> Dispatcher \<Rightarrow> (nat \<rightharpoonup> pop_call) \<Rightarrow> (nat \<rightharpoonup> task) \<Rightarrow>
     (string \<Rightarrow> exchange list) \<Rightarrow> bool" where
  "exchanges_ok parse render d Q T X \<longleftrightarrow>
     (\<forall>m. X m \<noteq> [] \<longrightarrow> (\<exists>k r. Q k = Some (Returned (Some r)) \<and> rq_ID r = m \<and> calls_ok parse render d r (X m))) \<and>
     (\<forall>m. \<forall>x \<in> set (X m). exchange_ok T x) \<and>
     (\<forall>m i m' i' n. i < length (X m) \<longrightarrow> i' < length (X m') \<longrightarrow>
        ex_task (X m ! i) = Some n \<longrightarrow> ex_task (X m' ! i') = Some n \<longrightarrow> m = m' \<and> i = i')"

definition sent_by ::
  "(bytes \<Rightarrow> json option) \<Rightarrow> (json \<Rightarrow> bytes) \<Rightarrow> Dispatcher \<Rightarrow> (nat \<rightharpoonup> pop_call) \<Rightarrow> (string \<Rightarrow> wires) \<Rightarrow>
     (string \<Rightarrow> exchange list) \<Rightarrow> bool" where
  "sent_by parse render d Q W X \<longleftrightarrow>
     (\<forall>m y. wr_sent (W m) = Some y \<longrightarrow>
        (\<exists>k r. Q k = Some (Returned (Some r)) \<and> rq_ID r = m \<and> X m \<noteq> [] \<and>
           y = outcome_of r (ex_answer (last (X m))) (fst (plan_of parse render d r ! (length (X m) - 1)))))"

definition paths_ok :: "(nat \<rightharpoonup> task) \<Rightarrow> (nat \<Rightarrow> (WorkerEntry \<times> do_result) list) \<Rightarrow> bool" where
  "paths_ok T H \<longleftrightarrow> (\<forall>n. case T n of None \<Rightarrow> H n = [] | Some t \<Rightarrow> path_ok t (H n))"

definition platform_inv ::
  "(bytes \<Rightarrow> json option) \<Rightarrow> (json \<Rightarrow> bytes) \<Rightarrow> nat \<Rightarrow> Dispatcher \<Rightarrow> platform \<Rightarrow> bool" where
  "platform_inv parse render cap d s \<longleftrightarrow>
     plane_inv parse render cap d (pf_plane s) \<and> router_inv (pf_router s) \<and> reg_inv (pf_fleet s) \<and>
     paths_ok (rs_tasks (pf_router s)) (pf_hops s) \<and>
     waiting_ok parse render d (pl_pool (pf_plane s)) (rs_tasks (pf_router s)) (pf_calls s) (pf_exchanges s) \<and>
     exchanges_ok parse render d (calls (pl_q (pf_plane s))) (rs_tasks (pf_router s)) (pf_exchanges s) \<and>
     sent_by parse render d (calls (pl_q (pf_plane s))) (pl_wires (pf_plane s)) (pf_exchanges s)"

lemma platform_invD:
  assumes "platform_inv parse render cap d s"
  shows "plane_inv parse render cap d (pf_plane s)" and "router_inv (pf_router s)" and "reg_inv (pf_fleet s)"
    and "paths_ok (rs_tasks (pf_router s)) (pf_hops s)"
    and "waiting_ok parse render d (pl_pool (pf_plane s)) (rs_tasks (pf_router s)) (pf_calls s) (pf_exchanges s)"
    and "exchanges_ok parse render d (calls (pl_q (pf_plane s))) (rs_tasks (pf_router s)) (pf_exchanges s)"
    and "sent_by parse render d (calls (pl_q (pf_plane s))) (pl_wires (pf_plane s)) (pf_exchanges s)"
  using assms by (simp_all add: platform_inv_def)

lemma waiting_okD:
  assumes "waiting_ok parse render d P T C X" and "C j = Some n"
  shows "\<exists>k r t. P j = Serving k r \<and> T n = Some t \<and> tk_req t = upstream_request (tk_body t) \<and>
      next_call parse render d r (X (rq_ID r)) = Some (tk_body t)"
    and "C i = Some n \<Longrightarrow> i = j" and "x \<in> set (X m) \<Longrightarrow> ex_task x \<noteq> Some n"
  using assms unfolding waiting_ok_def by blast+

lemma exchanges_okD:
  assumes "exchanges_ok parse render d Q T X"
  shows "X m \<noteq> [] \<Longrightarrow> \<exists>k r. Q k = Some (Returned (Some r)) \<and> rq_ID r = m \<and> calls_ok parse render d r (X m)"
    and "x \<in> set (X m) \<Longrightarrow> exchange_ok T x"
  using assms unfolding exchanges_ok_def by blast+

lemma paths_okD:
  assumes "paths_ok T H"
  shows "T n = Some t \<Longrightarrow> path_ok t (H n)" and "T n = None \<Longrightarrow> H n = []"
  using spec [OF assms [unfolded paths_ok_def], of n] by simp_all

lemma paths_ok_upd: "paths_ok T H \<Longrightarrow> path_ok t h \<Longrightarrow> paths_ok (T(n \<mapsto> t)) (H(n := h))"
  unfolding paths_ok_def by (metis fun_upd_apply option.simps(5))

section \<open>Every step keeps it\<close>

subsection \<open>Steps of the router\<close>

text \<open>The tasks grow, and a task that answered stays as it is.\<close>

definition tasks_grow :: "(nat \<rightharpoonup> task) \<Rightarrow> (nat \<rightharpoonup> task) \<Rightarrow> bool" where
  "tasks_grow T T' \<longleftrightarrow>
     (\<forall>n t. T n = Some t \<longrightarrow>
        (\<exists>t'. T' n = Some t' \<and> tk_req t' = tk_req t \<and> tk_body t' = tk_body t \<and> (\<forall>x. answer_from x t \<longrightarrow> answer_from x t')))"

lemma tasks_grow_new: "T n = None \<Longrightarrow> tasks_grow T (T(n \<mapsto> t))"
  by (auto simp: tasks_grow_def)

lemma tasks_grow_advance:
  assumes "task_ok t" and "T n = Some t" and "advance res r t = Some (r', t')"
  shows "tasks_grow T (T(n \<mapsto> t'))"
proof -
  note frame = advance_frame [OF assms(3)]
  have "answer_from x t'" if "answer_from x t" for x
    using that frame(5) advance_committed [OF assms(1,3)] by (auto simp: answer_from_def split: do_result.splits if_splits)
  then show ?thesis using assms(2) frame(1,2) by (auto simp: tasks_grow_def)
qed

lemma exchange_ok_grow: "tasks_grow T T' \<Longrightarrow> exchange_ok T x \<Longrightarrow> exchange_ok T' x"
  unfolding tasks_grow_def exchange_ok_def by (cases "ex_task x") fastforce+

lemma waiting_ok_grow: "tasks_grow T T' \<Longrightarrow> waiting_ok parse render d P T C X \<Longrightarrow> waiting_ok parse render d P T' C X"
  unfolding tasks_grow_def waiting_ok_def by (metis (no_types))

lemma exchanges_ok_grow: "tasks_grow T T' \<Longrightarrow> exchanges_ok parse render d Q T X \<Longrightarrow> exchanges_ok parse render d Q T' X"
  unfolding exchanges_ok_def using exchange_ok_grow by blast

lemma new_task_inv:
  assumes inv: "platform_inv parse render cap d s" and "router_inv (pf_router (add_task s n t))"
    and "rs_tasks (pf_router s) n = None" and "path_ok t []"
  shows "platform_inv parse render cap d (add_task s n t)"
proof -
  note I = platform_invD [OF inv]
  have "pf_hops s n = []" using paths_okD(2) [OF I(4) assms(3)] .
  then have "paths_ok ((rs_tasks (pf_router s))(n \<mapsto> t)) (pf_hops s)"
    using paths_ok_upd [OF I(4) assms(4), of n] by (simp add: fun_upd_idem)
  moreover have "tasks_grow (rs_tasks (pf_router s)) ((rs_tasks (pf_router s))(n \<mapsto> t))" by (rule tasks_grow_new) (rule assms(3))
  ultimately show ?thesis
    using I assms(2) waiting_ok_grow exchanges_ok_grow by (simp add: platform_inv_def)
qed

lemma advance_task_inv:
  assumes inv: "platform_inv parse render cap d s"
    and t: "rs_tasks (pf_router s) n = Some t" "advance res (rs_router (pf_router s)) t = Some (r', t')"
  shows "platform_inv parse render cap d
    (s\<lparr>pf_router := \<lparr>rs_router = r', rs_tasks = (rs_tasks (pf_router s))(n \<mapsto> t')\<rparr>,
       pf_hops := (pf_hops s)(n := note_hop t res (pf_hops s n))\<rparr>)"
proof -
  note I = platform_invD [OF inv]
  have ok: "task_ok t" using I(2) t(1) by (simp add: router_inv_def)
  have "paths_ok ((rs_tasks (pf_router s))(n \<mapsto> t')) ((pf_hops s)(n := note_hop t res (pf_hops s n)))"
    by (rule paths_ok_upd [OF I(4) advance_path [OF ok t(2) paths_okD(1) [OF I(4) t(1)]]])
  moreover have "router_inv \<lparr>rs_router = r', rs_tasks = (rs_tasks (pf_router s))(n \<mapsto> t')\<rparr>"
    by (rule advance_inv [OF I(2) t])
  moreover have "tasks_grow (rs_tasks (pf_router s)) ((rs_tasks (pf_router s))(n \<mapsto> t'))"
    by (rule tasks_grow_advance [where T = "rs_tasks (pf_router s)", OF ok t])
  ultimately show ?thesis
    using I waiting_ok_grow exchanges_ok_grow by (simp add: platform_inv_def)
qed

lemma call_inv:
  assumes inv: "platform_inv parse render cap d s" and "asks parse render d s j req body"
    and "rs_tasks (pf_router s) n = None"
    and t: "router_begin parse (reg (pf_fleet s)) ks (upstream_request body) = Inr t"
    and add: "platform_inv parse render cap d (add_task s n t)"
  shows "platform_inv parse render cap d (set_call (add_task s n t) j (Some n))"
proof -
  note I = platform_invD [OF inv] and A = platform_invD [OF add]
  have body: "tk_req t = upstream_request body" "tk_body t = body"
    using router_begin_task [OF t] by (fastforce simp: start_task_def upstream_request_def)+
  have nobody: "pf_calls s i \<noteq> Some n" for i
    using waiting_okD(1) [OF I(5), of i n] assms(3) by fastforce
  have unused: "ex_task x \<noteq> Some n" if "x \<in> set (pf_exchanges s m)" for x m
    using exchanges_okD(2) [OF I(6) that] assms(3) by (auto simp: exchange_ok_def)
  obtain k where k: "pl_pool (pf_plane s) j = Serving k req" "next_call parse render d req (pf_exchanges s (rq_ID req)) = Some body"
    using assms(2) by (auto simp: asks_def)
  let ?T = "(rs_tasks (pf_router s))(n \<mapsto> t)"
  have "waiting_ok parse render d (pl_pool (pf_plane s)) ?T ((pf_calls s)(j := Some n)) (pf_exchanges s)"
    unfolding waiting_ok_def
  proof (intro allI impI)
    fix i m assume m: "((pf_calls s)(j := Some n)) i = Some m"
    show "(\<exists>k r t'. pl_pool (pf_plane s) i = Serving k r \<and> ?T m = Some t' \<and> tk_req t' = upstream_request (tk_body t') \<and>
         next_call parse render d r (pf_exchanges s (rq_ID r)) = Some (tk_body t')) \<and>
      (\<forall>i'. ((pf_calls s)(j := Some n)) i' = Some m \<longrightarrow> i' = i) \<and> (\<forall>q. \<forall>x \<in> set (pf_exchanges s q). ex_task x \<noteq> Some m)"
    proof (cases "i = j")
      case True
      then show ?thesis using m k body nobody unused by auto
    next
      case False
      then have c: "pf_calls s i = Some m" using m by simp
      then have "m \<noteq> n" using nobody by blast
      then show ?thesis using waiting_okD [OF I(5) c] by auto
    qed
  qed
  then show ?thesis using A by (simp add: platform_inv_def)
qed

subsection \<open>Calls that end\<close>

lemma serving_returned:
  assumes "plane_inv parse render cap d p" and "pl_pool p j = Serving k r"
  shows "calls (pl_q p) k = Some (Returned (Some r))" and "wr_sent (wires_of p r) = None"
    and "\<exists>ms. parse (rq_Body r) = Some (JObj ms)" and "j < nat (concurrency d)"
    and "pl_pool p i = Serving k' r' \<Longrightarrow> rq_ID r' = rq_ID r \<Longrightarrow> i = j"
proof -
  note I = plane_invD [OF assms(1)]
  show k: "calls (pl_q p) k = Some (Returned (Some r))" and "wr_sent (wires_of p r) = None"
    using pool_okD(1) [OF I(8), of j] assms(2) by simp_all
  show "\<exists>ms. parse (rq_Body r) = Some (JObj ms)" by (rule plane_returned(3) [OF assms(1) k])
  show "j < nat (concurrency d)" using pool_okD(6) [OF I(8), of j] assms(2) by simp
  assume i: "pl_pool p i = Serving k' r'" "rq_ID r' = rq_ID r"
  then have "calls (pl_q p) k' = Some (Returned (Some r'))" using pool_okD(1) [OF I(8), of i] by simp
  then have "k' = k" using plane_returned(2) [OF assms(1) k] i(2) by blast
  then show "i = j" using pool_okD(2) [OF I(8), of i k j] i(1) assms(2) by simp
qed

lemma waiting_ok_exchange:
  assumes W: "waiting_ok parse render d P T C X" and "C j = ex_task x"
    and other: "\<And>i k r. P i = Serving k r \<Longrightarrow> i \<noteq> j \<Longrightarrow> rq_ID r \<noteq> m"
  shows "waiting_ok parse render d P T (C(j := None)) (X(m := X m @ [x]))"
  unfolding waiting_ok_def
proof (intro allI impI)
  let ?X = "X(m := X m @ [x])"
  fix i n assume "(C(j := None)) i = Some n"
  then have i: "i \<noteq> j" "C i = Some n" by (auto split: if_splits)
  from waiting_okD(1) [OF W i(2)] obtain k r t where r: "P i = Serving k r" "T n = Some t" "tk_req t = upstream_request (tk_body t)"
    "next_call parse render d r (X (rq_ID r)) = Some (tk_body t)" by blast
  have "?X (rq_ID r) = X (rq_ID r)" using other [OF r(1) i(1)] by simp
  then have "\<exists>k r t. P i = Serving k r \<and> T n = Some t \<and> tk_req t = upstream_request (tk_body t) \<and>
      next_call parse render d r (?X (rq_ID r)) = Some (tk_body t)" using r by metis
  moreover have "\<forall>i'. (C(j := None)) i' = Some n \<longrightarrow> i' = i" using waiting_okD(2) [OF W i(2)] by simp
  moreover have "ex_task x \<noteq> Some n" using waiting_okD(2) [OF W i(2), of j] i(1) assms(2) by auto
  then have "\<forall>q. \<forall>y \<in> set (?X q). ex_task y \<noteq> Some n" using waiting_okD(3) [OF W i(2)] by auto
  ultimately show "(\<exists>k r t. P i = Serving k r \<and> T n = Some t \<and> tk_req t = upstream_request (tk_body t) \<and>
         next_call parse render d r (?X (rq_ID r)) = Some (tk_body t)) \<and>
      (\<forall>i'. (C(j := None)) i' = Some n \<longrightarrow> i' = i) \<and> (\<forall>q. \<forall>y \<in> set (?X q). ex_task y \<noteq> Some n)" by blast
qed

lemma exchanges_ok_exchange:
  assumes E: "exchanges_ok parse render d Q T X" and "Q k = Some (Returned (Some r))" and "rq_ID r = m"
    and "calls_ok parse render d r (X m @ [x])" and "exchange_ok T x"
    and unused: "\<And>n q y. ex_task x = Some n \<Longrightarrow> y \<in> set (X q) \<Longrightarrow> ex_task y \<noteq> Some n"
  shows "exchanges_ok parse render d Q T (X(m := X m @ [x]))"
proof -
  let ?X = "X(m := X m @ [x])"
  have "\<exists>k r. Q k = Some (Returned (Some r)) \<and> rq_ID r = q \<and> calls_ok parse render d r (?X q)" if "?X q \<noteq> []" for q
    using exchanges_okD(1) [OF E, of q] assms(2-4) that by (cases "q = m") auto
  moreover have "\<forall>y \<in> set (?X q). exchange_ok T y" for q using exchanges_okD(2) [OF E] assms(5) by auto
  moreover have "q = q' \<and> i = i'"
    if "i < length (?X q)" "i' < length (?X q')" "ex_task (?X q ! i) = Some n" "ex_task (?X q' ! i') = Some n" for q i q' i' n
  proof -
    have old: "i < length (X q) \<and> ex_task (X q ! i) = Some n \<or> q = m \<and> i = length (X m) \<and> ex_task x = Some n"
      if "i < length (?X q)" "ex_task (?X q ! i) = Some n" for q i
      using that by (auto simp: nth_append less_Suc_eq split: if_splits)
    have "ex_task (X q ! i) \<noteq> Some n" if "ex_task x = Some n" "i < length (X q)" for q i
      using unused [OF that(1)] that(2) nth_mem by blast
    then show ?thesis
      using old [OF that(1,3)] old [OF that(2,4)] E unfolding exchanges_ok_def by blast
  qed
  ultimately show ?thesis unfolding exchanges_ok_def by blast
qed

lemma served_calls_ok:
  assumes inv: "platform_inv parse render cap d s" and j: "pl_pool (pf_plane s) j = Serving k r"
  shows "calls_ok parse render d r (pf_exchanges s (rq_ID r))"
proof (cases "pf_exchanges s (rq_ID r) = []")
  case False
  note I = platform_invD [OF inv] and S = serving_returned [OF platform_invD(1) [OF inv] j]
  from exchanges_okD(1) [OF I(6) False] obtain k' r' where r': "calls (pl_q (pf_plane s)) k' = Some (Returned (Some r'))"
    "rq_ID r' = rq_ID r" "calls_ok parse render d r' (pf_exchanges s (rq_ID r))" by blast
  then have "r' = r" using plane_returned(2) [OF I(1) S(1) r'(1)] S(1) by simp
  then show ?thesis using r'(3) by simp
qed simp

lemma exchange_inv:
  assumes inv: "platform_inv parse render cap d s" and att: "1 \<le> maxAttempts d"
    and j: "pl_pool (pf_plane s) j = Serving k r" and c: "pf_calls s j = ex_task x"
    and call: "next_call parse render d r (pf_exchanges s (rq_ID r)) = Some (ex_body x)"
    and x: "exchange_ok (rs_tasks (pf_router s)) x"
  shows "platform_inv parse render cap d (exchanged (set_call s j None) r x)"
proof -
  note I = platform_invD [OF inv]
  note S = serving_returned [OF I(1) j]
  let ?X = "pf_exchanges s" and ?m = "rq_ID r"
  obtain ms where ms: "parse (rq_Body r) = Some (JObj ms)" using S(3) by blast
  have "calls_ok parse render d r (?X ?m)" by (rule served_calls_ok [OF inv j])
  then have "calls_ok parse render d r (?X ?m @ [x])" by (rule calls_ok_snoc [where parse = parse, OF ms att _ call])
  moreover have "ex_task y \<noteq> Some n" if "ex_task x = Some n" "y \<in> set (?X q)" for n q y
    using waiting_okD(3) [OF I(5), of j n] c that by simp
  ultimately have "exchanges_ok parse render d (calls (pl_q (pf_plane s))) (rs_tasks (pf_router s)) (?X(?m := ?X ?m @ [x]))"
    by (intro exchanges_ok_exchange [OF I(6) S(1) refl _ x])
  moreover have "waiting_ok parse render d (pl_pool (pf_plane s)) (rs_tasks (pf_router s)) ((pf_calls s)(j := None)) (?X(?m := ?X ?m @ [x]))"
    using S(5) by (intro waiting_ok_exchange [OF I(5) c]) blast
  moreover have "sent_by parse render d (calls (pl_q (pf_plane s))) (pl_wires (pf_plane s)) (?X(?m := ?X ?m @ [x]))"
    using I(7) S(2) by (auto simp: sent_by_def)
  ultimately show ?thesis using I(1-4) by (simp add: platform_inv_def)
qed

subsection \<open>Steps of the request plane\<close>

lemma plane_part_inv:
  assumes inv: "platform_inv parse render cap d s"
    and st: "plane_step parse render err_text d (pf_plane s) e p" "\<forall>j. e \<noteq> PDispatch j"
  shows "platform_inv parse render cap d (s\<lparr>pf_plane := p\<rparr>)"
proof -
  note I = platform_invD [OF inv] and F = plane_step_frame [OF st]
  have "plane_inv parse render cap d p" by (rule planesys.step_inv [OF I(1) st(1)])
  moreover have "waiting_ok parse render d (pl_pool p) (rs_tasks (pf_router s)) (pf_calls s) (pf_exchanges s)"
    using I(5) F(1) unfolding waiting_ok_def by blast
  moreover have "exchanges_ok parse render d (calls (pl_q p)) (rs_tasks (pf_router s)) (pf_exchanges s)"
    using I(6) F(3) unfolding exchanges_ok_def by blast
  moreover have "sent_by parse render d (calls (pl_q p)) (pl_wires p) (pf_exchanges s)"
    using I(7) F(2,3) unfolding sent_by_def by metis
  ultimately show ?thesis using I by (simp add: platform_inv_def)
qed

lemma dispatch_part_inv:
  assumes inv: "platform_inv parse render cap d s" and att: "1 \<le> maxAttempts d"
    and j: "pl_pool (pf_plane s) j = Serving k r" and c: "pf_calls s j = None"
    and call: "next_call parse render d r (pf_exchanges s (rq_ID r)) = None"
    and none: "wr_result (wires_of (pf_plane s) r) = None"
    and out: "out = fst (dispatch parse render (replay (pf_exchanges s (rq_ID r))) d r)"
  shows "platform_inv parse render cap d (s\<lparr>pf_plane := after_dispatch (pf_plane s) j k r out\<rparr>)"
proof -
  note I = platform_invD [OF inv]
  note S = serving_returned [OF I(1) j]
  let ?p = "after_dispatch (pf_plane s) j k r out" and ?xs = "pf_exchanges s (rq_ID r)"
  have "plane_inv parse render cap d ?p"
    using planesys.step_inv [OF I(1) after_dispatch_step [OF j none]] unfolding out .
  moreover have "waiting_ok parse render d (pl_pool ?p) (rs_tasks (pf_router s)) (pf_calls s) (pf_exchanges s)"
    using I(5) c after_dispatch_frame(2) [of _ j "pf_plane s" k r out] unfolding waiting_ok_def by (metis option.distinct(1))
  moreover have "sent_by parse render d (calls (pl_q ?p)) (pl_wires ?p) (pf_exchanges s)"
    unfolding sent_by_def
  proof (intro allI impI)
    fix m y assume y: "wr_sent (pl_wires ?p m) = Some y"
    show "\<exists>k r. calls (pl_q ?p) k = Some (Returned (Some r)) \<and> rq_ID r = m \<and> pf_exchanges s m \<noteq> [] \<and>
      y = outcome_of r (ex_answer (last (pf_exchanges s m))) (fst (plan_of parse render d r ! (length (pf_exchanges s m) - 1)))"
    proof (cases "m = rq_ID r")
      case True
      obtain ms where ms: "parse (rq_Body r) = Some (JObj ms)" using S(3) by blast
      note e = next_call_end [where parse = parse, OF ms att refl served_calls_ok [OF inv j] call]
      then have "y = outcome_of r (ex_answer (last ?xs)) (fst (plan_of parse render d r ! (length ?xs - 1)))"
        using y True after_dispatch_frame(4) unfolding out by (metis option.inject surj_pair)
      then show ?thesis using True e(1) S(1) by auto
    next
      case False
      then have "wr_sent (pl_wires (pf_plane s) m) = Some y" using y by simp
      then show ?thesis using I(7) unfolding sent_by_def after_dispatch_frame(1) by blast
    qed
  qed
  ultimately show ?thesis using I by (simp add: platform_inv_def)
qed

subsection \<open>All steps\<close>

text \<open>The number of attempts is at least one; \<open>WithMaxAttempts\<close> and \<open>Dispatcher_New\<close> see to it.\<close>

lemma platform_inv_step:
  assumes inv: "platform_inv parse render cap d s" and att: "1 \<le> maxAttempts d"
    and st: "platform_step parse render err_text d s e s'"
  shows "platform_inv parse render cap d s'"
proof -
  note I = platform_invD [OF inv]
  have add: "platform_inv parse render cap d (add_task s n t)"
    if "rs_tasks (pf_router s) n = None" "range_order (workers (reg (pf_fleet s))) ks"
      "router_begin parse (reg (pf_fleet s)) ks req = Inr t" for n ks req t
  proof (rule new_task_inv [OF inv _ that(1)])
    show "router_inv (pf_router (add_task s n t))"
      using routersys.step_inv [OF I(2) begin_arrives [OF that(3) reg_inv_keyed [OF I(3)] that(2,1)]] by simp
    show "path_ok t []" by (rule path_ok_start [OF that(3,2)])
  qed
  have asked: "platform_inv parse render cap d (exchanged s req x)"
    if a: "asks parse render d s j req (ex_body x)" "ex_task x = None" "turned_away (ex_answer x)" for j req x
  proof -
    obtain k where k: "pl_pool (pf_plane s) j = Serving k req" "pf_calls s j = None"
      "next_call parse render d req (pf_exchanges s (rq_ID req)) = Some (ex_body x)"
      using a(1) by (auto simp: asks_def)
    have "set_call s j None = s" using k(2) by (simp add: set_call_def fun_upd_idem)
    then show ?thesis
      using exchange_inv [OF inv att k(1) _ k(3)] k(2) a(2,3) by (simp add: exchange_ok_def)
  qed
  have waited: "platform_inv parse render cap d (exchanged (set_call s j None) req x)"
    if w: "waits s j req n t" and x: "ex_body x = tk_body t" "ex_task x = Some n" "answer_from x t" for j req n t x
  proof -
    obtain k where k: "pl_pool (pf_plane s) j = Serving k req" "pf_calls s j = Some n" "rs_tasks (pf_router s) n = Some t"
      using w by (auto simp: waits_def)
    from waiting_okD(1) [OF I(5) k(2)] have "tk_req t = upstream_request (tk_body t)"
      "next_call parse render d req (pf_exchanges s (rq_ID req)) = Some (tk_body t)" using k by auto
    then show ?thesis using k x by (intro exchange_inv [OF inv att k(1)]) (simp_all add: exchange_ok_def)
  qed
  show ?thesis
    using st
  proof (cases rule: platform_step.cases)
    case (f_plane e p)
    then show ?thesis using plane_part_inv [OF inv] by blast
  next
    case (f_fleet e f)
    have "reg_inv f" using regsys.step_inv [OF I(3)] f_fleet(3) by blast
    then show ?thesis using I f_fleet(2) by (simp add: platform_inv_def)
  next
    case (f_advance n t res r' t')
    then show ?thesis using advance_task_inv [OF inv] by blast
  next
    case (f_direct n ks req t)
    then show ?thesis using add by blast
  next
    case (f_call j req body n ks t)
    then show ?thesis using call_inv [OF inv f_call(3,4,6)] add by blast
  next
    case (f_refused j req body ks w)
    have "rstatus w = Some 400 \<or> rstatus w = Some 503"
      using f_refused(5) by (auto simp: router_begin_def upstream_request_def Let_def split: if_splits option.splits)
    then show ?thesis using asked f_refused(2,3) by (auto simp: turned_away_def client_view_def)
  next
    case (f_nocall j req body res)
    then show ?thesis using asked by (auto simp: turned_away_def failed_def)
  next
    case (f_lost j req n t)
    then show ?thesis using waited by (simp add: answer_from_def)
  next
    case (f_return j req n t res)
    then have "answer_from \<lparr>ex_body = tk_body t, ex_task = Some n, ex_answer = res\<rparr> t"
      by (auto simp: task_answer_def answer_from_def client_view_def split: phase.splits)
    then show ?thesis using waited [OF f_return(3)] f_return(2) by simp
  next
    case (f_break j req n t cs)
    then have "answer_from \<lparr>ex_body = tk_body t, ex_task = Some n,
        ex_answer = Got ((client_view (tk_response t))\<lparr>us_chunks := cs, us_broken := True\<rparr>)\<rparr> t"
      by (auto simp: answer_from_def client_view_def)
    then show ?thesis using waited [OF f_break(3)] f_break(2) by simp
  next
    case (f_dispatch j k req out)
    then show ?thesis using dispatch_part_inv [OF inv att] by blast
  qed
qed

text \<open>Whatever has happened, the parts fit together.\<close>

interpretation platformsys: inductive_invariant "platform_start cap d" "platform_step parse render err_text d"
    "\<lambda>s. 1 \<le> maxAttempts d \<longrightarrow> platform_inv parse render cap d s"
  for cap d parse render err_text
proof unfold_locales
  show "1 \<le> maxAttempts d \<longrightarrow> platform_inv parse render cap d s" if s: "platform_start cap d s" for s
  proof -
    have "plane_inv parse render cap d (pf_plane s)" "router_inv (pf_router s)" "reg_inv (pf_fleet s)"
      using s planesys.start_inv routersys.start_inv regsys.start_inv by (auto simp: platform_start_def)
    moreover have "rs_tasks (pf_router s) = Map.empty" "pl_wires (pf_plane s) = (\<lambda>_. fresh_wires)"
      using s by (simp_all add: platform_start_def router_start_def plane_start_def)
    ultimately show ?thesis
      using s by (simp add: platform_inv_def platform_start_def paths_ok_def waiting_ok_def exchanges_ok_def sent_by_def)
  qed
qed (use platform_inv_step in blast)

section \<open>Where a success comes from\<close>

lemma relayed_or_502:
  assumes "task_ok t" and "path_ok t hops" and "rstatus (tk_response t) \<noteq> None \<or> (\<exists>result. tk_phase t = Done result)"
  shows "(\<exists>e up. hops \<noteq> [] \<and> last hops = (e, Got up) \<and> tk_response t = relay up new_response) \<or>
    rstatus (tk_response t) = Some 502"
proof (cases "silent (tk_phase t)")
  case True
  then have "tk_response t = new_response" using assms(1) by (simp add: task_ok_def)
  then show ?thesis using assms(3) True by auto
next
  case False
  then show ?thesis using assms(2,3) by (cases "tk_phase t") (auto simp: path_ok_def)
qed

text \<open>
  The call \<open>x\<close> made for the gateway's request \<open>m\<close> was a request of its own in the router; the router sent its body to a
  worker that the registry had given as healthy and serving the model, and passed on what this worker
  answered; \<open>up\<close> is what the dispatcher saw of it.
\<close>

definition served_from :: "platform \<Rightarrow> string \<Rightarrow> exchange \<Rightarrow> upstream_response \<Rightarrow> bool" where
  "served_from s m x up \<longleftrightarrow>
     (\<exists>n t e v. ex_task x = Some n \<and> rs_tasks (pf_router s) n = Some t \<and>
        (\<forall>m' y. y \<in> set (pf_exchanges s m') \<longrightarrow> ex_task y = Some n \<longrightarrow> m' = m) \<and>
        pf_hops s n \<noteq> [] \<and> last (pf_hops s n) = (e, Got v) \<and>
        healthy_state (State e) \<and> tk_model t \<in> set (ModelsLoaded (Info e)) \<and>
        proxy_request (upstream_request (ex_body x)) (worker_url e) (ex_body x) \<in> set (tk_sent t) \<and>
        tk_response t = relay v new_response \<and>
        prefix (us_chunks up) (us_chunks v) \<and> (\<not> us_broken up \<longrightarrow> up = client_view (relay v new_response)))"

lemma success_from_worker:
  assumes inv: "platform_inv parse render cap d s" and mem: "x \<in> set (pf_exchanges s m)"
    and up: "ex_answer x = Got up" "200 \<le> us_status up" "us_status up < 300"
  shows "served_from s m x up"
proof -
  note I = platform_invD [OF inv]
  let ?T = "rs_tasks (pf_router s)" and ?H = "pf_hops s"
  have x: "exchange_ok ?T x" by (rule exchanges_okD(2) [OF I(6) mem])
  then obtain n where n: "ex_task x = Some n"
    using up by (cases "ex_task x") (auto simp: exchange_ok_def turned_away_def failed_def)
  then obtain t where t: "?T n = Some t" "tk_body t = ex_body x" "answer_from x t" "tk_req t = upstream_request (ex_body x)"
    using x by (auto simp: exchange_ok_def)
  have ok: "task_ok t" "path_ok t (?H n)" using I(2) t(1) paths_okD(1) [OF I(4)] by (auto simp: router_inv_def)
  have "rstatus (tk_response t) \<noteq> None \<or> (\<exists>result. tk_phase t = Done result)" "rstatus (tk_response t) \<noteq> Some 502"
    using t(3) up by (auto simp: answer_from_def client_view_def split: if_splits)
  then obtain e v where e: "?H n \<noteq> []" "last (?H n) = (e, Got v)" "tk_response t = relay v new_response"
    using relayed_or_502 [OF ok] by blast
  have hop: "(e, Got v) \<in> set (?H n)" using e(1,2) by (metis last_in_set)
  have url: "target_of (upstream_request b) e = worker_url e" for b by (simp add: upstream_request_def worker_url_def)
  have h: "healthy_state (State e)" "tk_model t \<in> set (ModelsLoaded (Info e))"
    "proxy_request (tk_req t) (target_of (tk_req t) e) (tk_body t) \<in> set (tk_sent t)"
    using ok(2) hop by (force simp: path_ok_def)+
  have "prefix (us_chunks up) (us_chunks v)" "\<not> us_broken up \<longrightarrow> up = client_view (relay v new_response)"
    using t(3) up(1) e(3) by (auto simp: answer_from_def client_view_def relay_body split: if_splits)
  moreover have "\<forall>m' y. y \<in> set (pf_exchanges s m') \<longrightarrow> ex_task y = Some n \<longrightarrow> m' = m"
    using I(6) mem n unfolding exchanges_ok_def in_set_conv_nth by metis
  ultimately show ?thesis unfolding served_from_def using n t(1) e h(1,2) h(3) [unfolded t(2,4) url] by blast
qed

lemma outcome_success:
  assumes "outcome_of r ans m = (res, chunks)" and "is_success res"
  obtains up where "ans = Got up" "us_status up = StatusCode res" "rs_Err res = None"
    "concat (if Streaming res then chunks else [rs_Body res]) = concat (us_chunks up)"
  using assms
  by (cases ans)
     (auto simp: outcome_of_def stream_result_def result_for_def commits_def commit_result_def err_result_def zero_result_def
       is_success_def streamBody_concat split: if_splits)

lemma sent_outcome:
  assumes inv: "platform_inv parse render cap d s" and "r \<in> set (accepted (pl_q (pf_plane s)))"
    and "wr_sent (wires_of (pf_plane s) r) = Some y" and "xs = pf_exchanges s (rq_ID r)"
  shows "xs \<noteq> []" and "calls_ok parse render d r xs"
    and "y = outcome_of r (ex_answer (last xs)) (fst (plan_of parse render d r ! (length xs - 1)))"
proof -
  note I = platform_invD [OF inv]
  have "distinct (map rq_ID (accepted (pl_q (pf_plane s))))" using plane_invD(4) [OF I(1)] by (simp add: ids_ok_def)
  then have same: "r' = r" if "calls (pl_q (pf_plane s)) k = Some (Returned (Some r'))" "rq_ID r' = rq_ID r" for k r'
    using plane_returned(1) [OF I(1) that(1)] assms(2) that(2) by (simp add: distinct_map inj_on_def)
  from I(7) assms(3,4) show xs: "xs \<noteq> []"
    and "y = outcome_of r (ex_answer (last xs)) (fst (plan_of parse render d r ! (length xs - 1)))"
    unfolding sent_by_def using same by metis+
  show "calls_ok parse render d r xs" using exchanges_okD(1) [OF I(6)] xs same unfolding assms(4) by metis
qed

section \<open>Properties\<close>

text \<open>
  C1: The whole system delivers what a healthy worker answered. Any number of clients, the gateway, the queue,
  the pool, the router with its own clients, and the registry with its timers interleave in any way;
  connections between the planes fail or break off at any moment. Then the result a client received is
  that of the last call made for its own request: the calls follow the plan of models and
  repetitions, each with the body the plan says, and all but the last asked for another try. If
  the client was answered with a success, this call was a request of its own in the router,
  used for no other request of the gateway; the router had sent exactly this body to a worker which the
  registry had given as healthy and serving the model; it passed on what that worker answered; and
  what the client got are that worker's bytes, in order and complete unless the connection between
  the planes broke off.
\<close>

theorem answers_come_from_healthy_workers:
  assumes "reach (platform_start cap d) (platform_step parse render err_text d) s" and "1 \<le> maxAttempts d"
    and "pl_clients (pf_plane s) i = Some c" and "cl_phase c = CDone a"
    and "an_req a = Some r" and "an_result a = Some res"
  shows "\<exists>xs chunks. xs = pf_exchanges s (rq_ID r) \<and> xs \<noteq> [] \<and>
    made_for parse (cl_http c) r \<and> calls_ok parse render d r xs \<and>
    (res, chunks) = outcome_of r (ex_answer (last xs)) (fst (plan_of parse render d r ! (length xs - 1))) \<and>
    relays a res chunks \<and>
    (an_success a \<longrightarrow>
      (\<exists>up. ex_answer (last xs) = Got up \<and> served_from s (rq_ID r) (last xs) up \<and>
        (an_panic a = None \<longrightarrow> concat (rbody (an_response a)) = concat (us_chunks up))))"
proof -
  have inv: "platform_inv parse render cap d s" using platformsys.reach_inv [OF assms(1)] assms(2) by blast
  note I = platform_invD [OF inv]
  let ?xs = "pf_exchanges s (rq_ID r)"
  have "client_ok parse (accepted (pl_q (pf_plane s))) (pl_wires (pf_plane s)) (cl_http c) (CDone a)"
    using plane_invD(5) [OF I(1) assms(3)] assms(4) by simp
  then obtain chunks where r: "made_for parse (cl_http c) r" "r \<in> set (accepted (pl_q (pf_plane s)))"
    and chunks: "wr_sent (wires_of (pf_plane s) r) = Some (res, chunks)" "relays a res chunks"
    using assms(5,6) by (auto simp: answer_ok_def)
  note out = sent_outcome [OF inv r(2) chunks(1) refl]
  have "\<exists>up. ex_answer (last ?xs) = Got up \<and> served_from s (rq_ID r) (last ?xs) up \<and>
      (an_panic a = None \<longrightarrow> concat (rbody (an_response a)) = concat (us_chunks up))" if "an_success a"
  proof -
    have ok: "is_success res" using chunks(2) that by (auto simp: relays_def split: option.splits)
    then obtain up where up: "ex_answer (last ?xs) = Got up" "us_status up = StatusCode res" "rs_Err res = None"
      "concat (if Streaming res then chunks else [rs_Body res]) = concat (us_chunks up)"
      using outcome_success [OF out(3) [symmetric]] by blast
    have "served_from s (rq_ID r) (last ?xs) up"
      using out(1) ok up(2) by (intro success_from_worker [OF inv _ up(1)]) (simp_all add: is_success_def)
    then show ?thesis using up chunks(2) by (auto simp: relays_def)
  qed
  then show ?thesis using r(1) chunks(2) out by (intro exI [of _ ?xs] exI [of _ chunks] conjI impI) simp_all
qed

text \<open>
  Where the requests of the router come from: each was sent by another client (\<open>FDirect\<close>), or a goroutine of the
  pool waits for it, or the dispatcher has recorded the end of that call.
\<close>

definition called_for :: "platform \<Rightarrow> nat set \<Rightarrow> bool" where
  "called_for s D \<longleftrightarrow>
     (\<forall>n \<in> dom (rs_tasks (pf_router s)). n \<in> D \<or> (\<exists>j. pf_calls s j = Some n) \<or> (\<exists>m. \<exists>x \<in> set (pf_exchanges s m). ex_task x = Some n))"

lemma called_for_grow:
  assumes "called_for s D" and "D \<subseteq> D'"
    and "\<And>n. n \<in> dom (rs_tasks (pf_router t)) \<Longrightarrow> n \<notin> dom (rs_tasks (pf_router s)) \<Longrightarrow> n \<in> D' \<or> (\<exists>j. pf_calls t j = Some n)"
    and "\<And>j n. pf_calls s j = Some n \<Longrightarrow> pf_calls t j = Some n \<or> (\<exists>m. \<exists>x \<in> set (pf_exchanges t m). ex_task x = Some n)"
    and "\<And>m. set (pf_exchanges s m) \<subseteq> set (pf_exchanges t m)"
  shows "called_for t D'"
  unfolding called_for_def
proof
  fix n assume n: "n \<in> dom (rs_tasks (pf_router t))"
  show "n \<in> D' \<or> (\<exists>j. pf_calls t j = Some n) \<or> (\<exists>m. \<exists>x \<in> set (pf_exchanges t m). ex_task x = Some n)"
  proof (cases "n \<in> dom (rs_tasks (pf_router s))")
    case True
    then have "n \<in> D \<or> (\<exists>j. pf_calls s j = Some n) \<or> (\<exists>m. \<exists>x \<in> set (pf_exchanges s m). ex_task x = Some n)"
      using assms(1) unfolding called_for_def by blast
    then show ?thesis using assms(2,4,5) by blast
  qed (use assms(3) [OF n] in blast)
qed

lemma ended_call:
  assumes "called_for s D" and "waits s j r n t" and "ex_task x = Some n"
  shows "called_for (exchanged (set_call s j None) r x) D"
proof (rule called_for_grow [OF assms(1) order_refl])
  fix i m assume i: "pf_calls s i = Some m"
  show "pf_calls (exchanged (set_call s j None) r x) i = Some m \<or>
    (\<exists>k. \<exists>y \<in> set (pf_exchanges (exchanged (set_call s j None) r x) k). ex_task y = Some m)"
  proof (cases "i = j")
    case True
    then have "ex_task x = Some m" using i assms(2,3) by (simp add: waits_def)
    moreover have "x \<in> set (pf_exchanges (exchanged (set_call s j None) r x) (rq_ID r))" by simp
    ultimately show ?thesis by blast
  qed (use i in simp)
qed auto

lemma called_for_step:
  assumes "platform_step parse render err_text d s e t" and "called_for s D"
  shows "called_for t (D \<union> {n. e = FDirect n})"
  using assms(1)
proof (cases rule: platform_step.cases)
  case (f_call j req body n ks u)
  then have none: "pf_calls s j = None" by (simp add: asks_def)
  show ?thesis unfolding f_call(2) by (rule called_for_grow [OF assms(2)]) (use none in auto)
next
  case (f_lost j req n u)
  then show ?thesis using ended_call [OF assms(2) f_lost(3)] by simp
next
  case (f_return j req n u res)
  then show ?thesis using ended_call [OF assms(2) f_return(3)] by simp
next
  case (f_break j req n u cs)
  then show ?thesis using ended_call [OF assms(2) f_break(3)] by simp
qed (rule called_for_grow [OF assms(2)]; auto)+

lemma called_for_run:
  "run (platform_step parse render err_text d) s es t \<Longrightarrow> called_for s D \<Longrightarrow> called_for t (D \<union> {n. FDirect n \<in> set es})"
proof (induction arbitrary: D rule: run.induct)
  case (run_Cons s e t es u)
  have "called_for u ((D \<union> {n. e = FDirect n}) \<union> {n. FDirect n \<in> set es})"
    by (rule run_Cons.IH [OF called_for_step [OF run_Cons(1,4)]])
  moreover have "(D \<union> {n. e = FDirect n}) \<union> {n. FDirect n \<in> set es} = D \<union> {n. FDirect n \<in> set (e # es)}" by auto
  ultimately show ?case by simp
qed simp

lemma exchanges_within_plan:
  assumes inv: "platform_inv parse render cap d s" and r: "calls (pl_q (pf_plane s)) k = Some (Returned (Some r))"
  shows "length (pf_exchanges s (rq_ID r)) \<le> length (plan_of parse render d r)"
proof (cases "pf_exchanges s (rq_ID r) = []")
  case False
  note I = platform_invD [OF inv]
  from exchanges_okD(1) [OF I(6) False] obtain k' r' where k': "calls (pl_q (pf_plane s)) k' = Some (Returned (Some r'))"
    "rq_ID r' = rq_ID r" "calls_ok parse render d r' (pf_exchanges s (rq_ID r))" by blast
  from plane_returned(2) [OF I(1) r k'(1,2)] k'(1) r have "r' = r" by simp
  then show ?thesis using k'(3) by (simp add: calls_ok_def)
qed simp

text \<open>
  A call the dispatcher gave up: it recorded it as lost, or as broken off, while the router's handler had not ended.
  A request whose handler crashed.
\<close>

definition given_up :: "platform \<Rightarrow> nat \<Rightarrow> bool" where
  "given_up s n \<longleftrightarrow>
     (\<exists>t. rs_tasks (pf_router s) n = Some t \<and> task_answer t = None) \<and>
     (\<exists>m. \<exists>x \<in> set (pf_exchanges s m). ex_task x = Some n \<and>
        (ex_answer x = Unreachable \<or> (\<exists>up. ex_answer x = Got up \<and> us_broken up)))"

definition crashed :: "platform \<Rightarrow> nat \<Rightarrow> bool" where
  "crashed s n \<longleftrightarrow> (\<exists>t p w. rs_tasks (pf_router s) n = Some t \<and> tk_phase t = Crashed p w)"

text \<open>So a request that occupies a slot of a worker has one of four reasons.\<close>

lemma why_occupying:
  assumes inv: "platform_inv parse render cap d s" and "called_for s D" and "n \<in> occupying (pf_router s) wid"
  shows "(\<exists>j. pf_calls s j = Some n) \<or> n \<in> D \<or> given_up s n \<or> crashed s n"
proof -
  obtain t where t: "rs_tasks (pf_router s) n = Some t" "slot (tk_phase t) = Some wid" using assms(3) by (auto simp: occupying_def)
  have "n \<in> dom (rs_tasks (pf_router s))" using t(1) by (rule domI)
  with assms(2) consider "n \<in> D" | j where "pf_calls s j = Some n" | m x where "x \<in> set (pf_exchanges s m)" "ex_task x = Some n"
    unfolding called_for_def by blast
  then show ?thesis
  proof cases
    case (3 m x)
    have "exchange_ok (rs_tasks (pf_router s)) x" by (rule exchanges_okD(2) [OF platform_invD(6) [OF inv] 3(1)])
    then have from_t: "answer_from x t" using 3(2) t(1) by (simp add: exchange_ok_def)
    show ?thesis
    proof (cases "crashed s n")
      case False
      then have none: "task_answer t = None" using t by (auto simp: crashed_def task_answer_def split: phase.splits)
      then have "ex_answer x = Unreachable \<or> (\<exists>up. ex_answer x = Got up \<and> us_broken up)"
        using from_t by (auto simp: answer_from_def task_answer_def split: do_result.splits if_splits)
      then show ?thesis using 3 t(1) none by (auto simp: given_up_def)
    qed simp
  qed auto
qed

text \<open>
  C8: The size of the pool bounds the load on the workers. In every run of the whole system, the pool never waits for
  more calls than it has goroutines, each of them one request of the router, and makes no more calls for a
  request than its plan has. A request that occupies a slot of a worker is one a goroutine waits for, or it was sent
  by another client of the router in this run, or its call was lost or broke off before its
  handler ended (a dispatcher's timeout does not end the handler), or its handler crashed. So a worker's in-flight counter is
  at most the number of goroutines, plus the numbers of requests of these three kinds that are with it.
\<close>

theorem pool_bounds_load:
  assumes "platform_start cap d s0" and "run (platform_step parse render err_text d) s0 es s" and "1 \<le> maxAttempts d"
    and "card (dom (rs_tasks (pf_router s))) < 2 ^ 63" and "with_worker = occupying (pf_router s) wid"
  shows "card {n. \<exists>j. pf_calls s j = Some n} \<le> nat (concurrency d) \<and>
    (\<forall>j n. pf_calls s j = Some n \<longrightarrow> n \<in> dom (rs_tasks (pf_router s)) \<and> (\<forall>i. pf_calls s i = Some n \<longrightarrow> i = j)) \<and>
    (\<forall>k r. calls (pl_q (pf_plane s)) k = Some (Returned (Some r)) \<longrightarrow>
       length (pf_exchanges s (rq_ID r)) \<le> length (plan_of parse render d r)) \<and>
    (\<forall>n \<in> with_worker. (\<exists>j. pf_calls s j = Some n) \<or> FDirect n \<in> set es \<or> given_up s n \<or> crashed s n) \<and>
    getInFlight (rs_router (pf_router s)) wid \<le> int (nat (concurrency d)) +
      int (card {n \<in> with_worker. FDirect n \<in> set es}) + int (card {n \<in> with_worker. given_up s n}) +
      int (card {n \<in> with_worker. crashed s n})"
proof -
  let ?step = "platform_step parse render err_text d"
  have "reach (platform_start cap d) ?step s" by (rule reach_run [OF assms(2) reach.reach_start [of "platform_start cap d", OF assms(1)]])
  then have inv: "platform_inv parse render cap d s" using platformsys.reach_inv assms(3) by blast
  note I = platform_invD [OF inv]
  let ?C = "{n. \<exists>j. pf_calls s j = Some n}" and ?O = with_worker
  let ?D = "{n \<in> ?O. FDirect n \<in> set es}" and ?G = "{n \<in> ?O. given_up s n}" and ?X = "{n \<in> ?O. crashed s n}"
  have busy: "j < nat (concurrency d)" if "pf_calls s j = Some n" for j n
    using waiting_okD(1) [OF I(5) that] serving_returned(4) [OF I(1)] by blast
  then have sub: "?C \<subseteq> (\<lambda>j. the (pf_calls s j)) ` {..<nat (concurrency d)}" by force
  have C: "finite ?C" "card ?C \<le> nat (concurrency d)"
    using finite_subset [OF sub] card_mono [OF _ sub] card_image_le [of "{..<nat (concurrency d)}" "\<lambda>j. the (pf_calls s j)"]
    by simp_all
  have fin: "finite ?O" unfolding assms(5)
    by (rule finite_subset [of _ "dom (rs_tasks (pf_router s))"]) (use I(2) in \<open>auto simp: occupying_def router_inv_def\<close>)
  have "called_for s0 {}" using assms(1) by (simp add: called_for_def platform_start_def router_start_def)
  from called_for_run [OF assms(2) this] have "called_for s {n. FDirect n \<in> set es}" by simp
  from why_occupying [OF inv this] have why: "\<forall>n \<in> ?O. (\<exists>j. pf_calls s j = Some n) \<or> FDirect n \<in> set es \<or> given_up s n \<or> crashed s n"
    unfolding assms(5) by blast
  have "card ?O \<le> card (?C \<union> (?D \<union> (?G \<union> ?X)))" using C(1) fin why by (intro card_mono) auto
  also have "\<dots> \<le> card ?C + (card ?D + (card ?G + card ?X))" by (intro order_trans [OF card_Un_le] add_mono order_refl)
  finally have "card ?O \<le> nat (concurrency d) + card ?D + card ?G + card ?X" using C(2) by linarith
  then have "int (card ?O) \<le> int (nat (concurrency d)) + int (card ?D) + int (card ?G) + int (card ?X)"
    by (simp only: of_nat_add [symmetric] of_nat_le_iff)
  moreover have "length (pf_exchanges s (rq_ID r)) \<le> length (plan_of parse render d r)"
    if "calls (pl_q (pf_plane s)) k = Some (Returned (Some r))" for k r
    by (rule exchanges_within_plan [OF inv that])
  ultimately show ?thesis
    using C(2) why in_flight_counted [OF I(2) assms(4), of wid] waiting_okD(1,2) [OF I(5)] unfolding assms(5) by (fastforce simp: domIff)
qed

end
