(* ===== verification/Platform_Progress.thy ===== *)
theory Platform_Progress
  imports Platform_Safety
begin

text \<open>
  The whole system left to itself. Its internal steps are those of the gateway, the queue, the pool and the
  router, and the calls between the planes; external are the arrival of requests, timeouts and lost
  connections, cancellation, and what happens in the registry. The internal steps cannot go on for
  ever, and where they stop every client has been answered and every request of the router has ended.
\<close>

fun pf_internal :: "platform_event \<Rightarrow> bool" where
  "pf_internal (FPlane e) = internal e"
| "pf_internal (FAdvance _ _) = True"
| "pf_internal (FCall _) = True"
| "pf_internal (FRefused _) = True"
| "pf_internal (FReturn _) = True"
| "pf_internal (FDispatch _) = True"
| "pf_internal _ = False"

text \<open>
  What else may happen without anybody arriving: a wait at the gateway that times out, and a call between the planes that
  cannot be made, is lost or breaks off. The registry's events and the cancellation go on beside them.
\<close>

fun pf_works :: "platform_event \<Rightarrow> bool" where
  "pf_works (FPlane e) = (internal e \<or> (\<exists>i. e = PTimeout i))"
| "pf_works (FDirect _) = False"
| "pf_works (FFleet _) = False"
| "pf_works _ = True"

fun pf_quiet :: "platform_event \<Rightarrow> bool" where
  "pf_quiet (FPlane e) = (e = PCancel)"
| "pf_quiet (FFleet _) = True"
| "pf_quiet _ = False"

lemma pf_events: "pf_internal e \<Longrightarrow> pf_works e" "pf_works e \<or> pf_quiet e \<longleftrightarrow> (\<forall>i. e \<noteq> FPlane (PArrive i)) \<and> (\<forall>n. e \<noteq> FDirect n)"
  by (cases e; simp) (cases e; auto elim: internal.elims)

section \<open>A request in the router comes to an end\<close>

text \<open>
  The steps left: for each try two passes over the workers and a fixed number of further steps.
\<close>

fun phase_work :: "nat \<Rightarrow> phase \<Rightarrow> nat" where
  "phase_work n Trying = 2 * n + 8"
| "phase_work n (Scanning _ xs) = n + length xs + 5"
| "phase_work n (Collecting _ _ xs) = length xs + 4"
| "phase_work n (Choosing _ _) = 3"
| "phase_work n (Chosen _) = 2 * n + 11"
| "phase_work n (Proxying _) = 2 * n + 10"
| "phase_work n (Relayed _ _ _) = 2 * n + 9"
| "phase_work n (Reporting _) = 1"
| "phase_work n Exhausted = 1"
| "phase_work n (Done _) = 0"
| "phase_work n (Crashed _ _) = 0"

definition task_work :: "task \<Rightarrow> nat" where
  "task_work t = tk_left t * (2 * length (tk_workers t) + 20) + phase_work (length (tk_workers t)) (tk_phase t)"

lemma advance_decreases:
  assumes "task_ok t" and "advance res r t = Some (r', t')"
  shows "task_work t' < task_work t"
proof (cases "tk_phase t")
  case (Choosing gf1 gf2)
  then have "pick_now gf1 gf2 r t = (r', t')" using assms(2) by (simp add: advance_def)
  then show ?thesis
  proof (cases rule: pick_now_cases)
    case (picked e c)
    obtain n where "tk_left t = Suc n" using assms(1) Choosing by (cases "tk_left t") (auto simp: task_ok_def)
    then show ?thesis using picked(3) Choosing by (simp add: task_work_def)
  qed (simp add: task_work_def Choosing)
next
  case (Proxying e)
  then have "t' = relay_answer res e t" using assms(2) by (simp add: advance_def)
  then show ?thesis using Proxying by (cases rule: relay_answer_cases [of res e t]) (simp_all add: task_work_def)
next
  case Trying
  have "length (candidates t) \<le> length (tk_workers t)" by (simp add: candidates_def)
  then show ?thesis using assms(2) Trying by (auto simp: advance_def task_work_def)
next
  case (Scanning gf xs)
  have "length (candidates t) \<le> length (tk_workers t)" by (simp add: candidates_def)
  then show ?thesis using assms(2) Scanning by (auto simp: advance_def task_work_def split: list.splits)
qed (use assms(2) in \<open>auto simp: advance_def task_work_def split: list.splits\<close>)

lemma advance_enabled: "task_answer t = None \<Longrightarrow> \<exists>r' t'. advance res r t = Some (r', t')"
  by (cases "tk_phase t") (auto simp: task_answer_def advance_def split: list.splits)

section \<open>The measure\<close>

text \<open>The calls that the dispatch of a goroutine can still make, and whether it waits for one.\<close>

definition call_budget ::
  "(bytes \<Rightarrow> json option) \<Rightarrow> (json \<Rightarrow> bytes) \<Rightarrow> Dispatcher \<Rightarrow> platform \<Rightarrow> nat \<Rightarrow> nat" where
  "call_budget parse render d s j =
     (case pl_pool (pf_plane s) j of
        Serving k r \<Rightarrow>
          2 * (length (plan_of parse render d r) - length (pf_exchanges s (rq_ID r))) + of_bool (pf_calls s j = None)
      | _ \<Rightarrow> 0)"

definition platform_measure ::
  "(bytes \<Rightarrow> json option) \<Rightarrow> (json \<Rightarrow> bytes) \<Rightarrow> Dispatcher \<Rightarrow> platform \<Rightarrow> (nat \<times> nat) \<times> nat \<times> nat" where
  "platform_measure parse render d s =
     (plane_measure (nat (concurrency d)) (pf_plane s),
      \<Sum>j < nat (concurrency d). call_budget parse render d s j,
      \<Sum>n \<in> dom (rs_tasks (pf_router s)). task_work (the (rs_tasks (pf_router s) n)))"

abbreviation smaller :: "(((nat \<times> nat) \<times> nat \<times> nat) \<times> ((nat \<times> nat) \<times> nat \<times> nat)) set" where
  "smaller \<equiv> (less_than <*lex*> less_than) <*lex*> less_than <*lex*> less_than"

lemma call_budget_cong:
  "pf_plane t = pf_plane s \<Longrightarrow> pf_calls t = pf_calls s \<Longrightarrow> pf_exchanges t = pf_exchanges s \<Longrightarrow>
    call_budget parse render d t j = call_budget parse render d s j"
  by (simp only: call_budget_def)

lemma budget_decreases:
  assumes "pf_plane t = pf_plane s" and "j < nat (concurrency d)"
    and "call_budget parse render d t j < call_budget parse render d s j"
    and "\<And>i. i \<noteq> j \<Longrightarrow> call_budget parse render d t i = call_budget parse render d s i"
  shows "(platform_measure parse render d t, platform_measure parse render d s) \<in> smaller"
proof -
  have "(\<Sum>i < nat (concurrency d). call_budget parse render d t i) < (\<Sum>i < nat (concurrency d). call_budget parse render d s i)"
    by (rule sum_decreases [of _ j]) (use assms(2-4) in auto)
  then show ?thesis using assms(1) by (simp add: platform_measure_def)
qed

lemma next_call_length:
  assumes "platform_inv parse render cap d s" and "1 \<le> maxAttempts d" and "pl_pool (pf_plane s) j = Serving k r"
    and "next_call parse render d r (pf_exchanges s (rq_ID r)) = Some body"
  shows "length (pf_exchanges s (rq_ID r)) < length (plan_of parse render d r)"
proof -
  obtain ms where "parse (rq_Body r) = Some (JObj ms)" using serving_returned(3) [OF platform_invD(1) [OF assms(1)] assms(3)] by blast
  from next_call_plan [where parse = parse, OF this assms(2) refl] assms(4) show ?thesis by blast
qed

lemma exchange_decreases:
  assumes inv: "platform_inv parse render cap d s" and att: "1 \<le> maxAttempts d"
    and j: "pl_pool (pf_plane s) j = Serving k r"
    and "next_call parse render d r (pf_exchanges s (rq_ID r)) = Some body"
  shows "(platform_measure parse render d (exchanged (set_call s j None) r x), platform_measure parse render d s) \<in> smaller"
proof (rule budget_decreases [of _ _ j])
  note S = serving_returned [OF platform_invD(1) [OF inv] j]
  let ?t = "exchanged (set_call s j None) r x"
  show "j < nat (concurrency d)" by (rule S(4))
  show "call_budget parse render d ?t j < call_budget parse render d s j"
    using next_call_length [OF inv att j assms(4)] by (simp add: call_budget_def j)
  fix i assume "i \<noteq> j"
  then have "rq_ID r' \<noteq> rq_ID r" if "pl_pool (pf_plane s) i = Serving k' r'" for k' r' using S(5) [OF that] by blast
  then show "call_budget parse render d ?t i = call_budget parse render d s i"
    using \<open>i \<noteq> j\<close> by (auto simp: call_budget_def split: goroutine.split)
qed simp

text \<open>The end of a call that a goroutine waits for, whatever it gives.\<close>

lemma wait_decreases:
  assumes inv: "platform_inv parse render cap d s" and att: "1 \<le> maxAttempts d" and w: "waits s j r n t"
  shows "(platform_measure parse render d (exchanged (set_call s j None) r x), platform_measure parse render d s) \<in> smaller"
proof -
  obtain k where k: "pl_pool (pf_plane s) j = Serving k r" "pf_calls s j = Some n" "rs_tasks (pf_router s) n = Some t"
    using w by (auto simp: waits_def)
  from waiting_okD(1) [OF platform_invD(5) [OF inv] k(2)]
  have "next_call parse render d r (pf_exchanges s (rq_ID r)) = Some (tk_body t)" using k by auto
  then show ?thesis by (rule exchange_decreases [OF inv att k(1)])
qed

lemma platform_step_stays:
  assumes "platform_step parse render err_text d s e t" and "pf_quiet e"
  shows "platform_measure parse render d t = platform_measure parse render d s"
  using assms(1)
proof (cases rule: platform_step.cases)
  case (f_plane e' p)
  then have p: "plane_step parse render err_text d (pf_plane s) PCancel p" using assms(2) by simp
  then have "pl_pool p = pl_pool (pf_plane s)" by (cases rule: plane_step.cases) simp
  then have "call_budget parse render d t j = call_budget parse render d s j" for j
    by (simp add: f_plane(2) call_budget_def split: goroutine.split)
  then show ?thesis using cancel_measure [OF p] by (simp add: f_plane(2) platform_measure_def)
next
  case (f_fleet e' f)
  have "call_budget parse render d t j = call_budget parse render d s j" for j by (rule call_budget_cong) (simp_all add: f_fleet(2))
  then show ?thesis by (simp add: f_fleet(2) platform_measure_def)
qed (use assms(2) in simp_all)

lemma platform_step_decreases:
  assumes inv: "platform_inv parse render cap d s" and att: "1 \<le> maxAttempts d"
    and st: "platform_step parse render err_text d s e s'" and "pf_works e"
  shows "(platform_measure parse render d s', platform_measure parse render d s) \<in> smaller"
  using st
proof (cases rule: platform_step.cases)
  case (f_plane e' p)
  then show ?thesis
    using plane_step_decreases [OF platform_invD(1) [OF inv] f_plane(3)] assms(4) by (simp add: platform_measure_def)
next
  case (f_advance n t res r' t')
  have R: "router_inv (pf_router s)" by (rule platform_invD(2) [OF inv])
  let ?T = "rs_tasks (pf_router s)"
  have dom: "dom (?T(n \<mapsto> t')) = dom ?T" using f_advance(3) by auto
  have "(\<Sum>m \<in> dom ?T. task_work (the ((?T(n \<mapsto> t')) m))) < (\<Sum>m \<in> dom ?T. task_work (the (?T m)))"
    using R f_advance(3) advance_decreases [OF _ f_advance(4)]
    by (intro sum_decreases [of _ n]) (auto simp: router_inv_def)
  moreover have "call_budget parse render d s' j = call_budget parse render d s j" for j
    by (rule call_budget_cong) (simp_all add: f_advance(2))
  ultimately show ?thesis using f_advance(2) dom by (simp add: platform_measure_def)
next
  case (f_call j req body n ks t)
  obtain k where k: "pl_pool (pf_plane s) j = Serving k req" "pf_calls s j = None" using f_call(3) by (auto simp: asks_def)
  show ?thesis unfolding f_call(2)
    by (rule budget_decreases [of _ _ j])
       (use k serving_returned(4) [OF platform_invD(1) [OF inv] k(1)] in \<open>simp_all add: call_budget_def split: goroutine.split\<close>)
next
  case (f_refused j req body ks w)
  then obtain k where k: "pl_pool (pf_plane s) j = Serving k req" "pf_calls s j = None"
    "next_call parse render d req (pf_exchanges s (rq_ID req)) = Some body" by (auto simp: asks_def)
  have "set_call s j None = s" using k(2) by (simp add: set_call_def fun_upd_idem)
  then show ?thesis using exchange_decreases [OF inv att k(1,3)] unfolding f_refused(2) by simp
next
  case (f_nocall j req body res)
  then obtain k where k: "pl_pool (pf_plane s) j = Serving k req" "pf_calls s j = None"
    "next_call parse render d req (pf_exchanges s (rq_ID req)) = Some body" by (auto simp: asks_def)
  have "set_call s j None = s" using k(2) by (simp add: set_call_def fun_upd_idem)
  then show ?thesis using exchange_decreases [OF inv att k(1,3)] unfolding f_nocall(2) by simp
next
  case (f_lost j req n t)
  then show ?thesis using wait_decreases [OF inv att f_lost(3)] by blast
next
  case (f_return j req n t res)
  then show ?thesis using wait_decreases [OF inv att f_return(3)] by blast
next
  case (f_break j req n t cs)
  then show ?thesis using wait_decreases [OF inv att f_break(3)] by blast
next
  case (f_dispatch j k req out)
  then show ?thesis
    using plane_step_decreases [OF platform_invD(1) [OF inv] after_dispatch_step [OF f_dispatch(3,6)]]
    by (simp add: platform_measure_def)
qed (use assms(4) in simp_all)

interpretation platformrest: settling "platform_start cap d" "platform_step parse render err_text d"
    "\<lambda>s. 1 \<le> maxAttempts d \<longrightarrow> platform_inv parse render cap d s"
    "\<lambda>e. 1 \<le> maxAttempts d \<and> pf_works e" pf_quiet "platform_measure parse render d" smaller
  for cap d parse render err_text
proof unfold_locales
  show "wf smaller" by (simp add: wf_lex_prod)
  show "(platform_measure parse render d t, platform_measure parse render d s) \<in> smaller"
    if "1 \<le> maxAttempts d \<longrightarrow> platform_inv parse render cap d s" "platform_step parse render err_text d s e t"
      "1 \<le> maxAttempts d \<and> pf_works e" for s e t
    by (rule platform_step_decreases) (use that in auto)
qed (rule platform_step_stays)

section \<open>Where it stops\<close>

lemma range_order_exists:
  assumes "finite (dom m)"
  obtains ks where "range_order m ks"
  using finite_distinct_list [OF assms] by (auto simp: range_order_def)

lemma fresh_task:
  assumes "router_inv s"
  obtains n where "rs_tasks s n = None"
proof -
  have "finite (dom (rs_tasks s))" using assms by (simp add: router_inv_def)
  then obtain n where "n \<notin> dom (rs_tasks s)" using ex_new_if_finite [OF infinite_UNIV_nat] by blast
  then show thesis using that by blast
qed

text \<open>A dispatch always goes on.\<close>

lemma serving_enabled:
  assumes inv: "platform_inv parse render cap d s" and j: "pl_pool (pf_plane s) j = Serving k r"
  shows "\<exists>e t. pf_internal e \<and> platform_step parse render err_text d s e t"
proof (cases "pf_calls s j")
  case (Some n)
  note I = platform_invD [OF inv]
  from waiting_okD(1) [OF I(5) Some] j obtain t where t: "rs_tasks (pf_router s) n = Some t" by auto
  show ?thesis
  proof (cases "task_answer t")
    case None
    from advance_enabled [OF this] obtain r' t' where "advance Unreachable (rs_router (pf_router s)) t = Some (r', t')" by blast
    then show ?thesis using f_advance [OF t] pf_internal.simps(2) by blast
  next
    case (Some res)
    have "waits s j r n t" using \<open>pf_calls s j = Some n\<close> t j by (simp add: waits_def)
    then show ?thesis using f_return [OF _ Some] pf_internal.simps(5) by blast
  qed
next
  case None
  note I = platform_invD [OF inv]
  show ?thesis
  proof (cases "next_call parse render d r (pf_exchanges s (rq_ID r))")
    case (Some body)
    then have a: "asks parse render d s j r body" using j \<open>pf_calls s j = None\<close> by (simp add: asks_def)
    have "finite (dom (workers (reg (pf_fleet s))))" using I(3) by (simp add: reg_inv_def)
    then obtain ks where ks: "range_order (workers (reg (pf_fleet s))) ks" by (rule range_order_exists)
    obtain n where n: "rs_tasks (pf_router s) n = None" by (rule fresh_task [OF I(2)])
    show ?thesis
    proof (cases "router_begin parse (reg (pf_fleet s)) ks (upstream_request body)")
      case (Inl w)
      then show ?thesis using f_refused [OF a ks] pf_internal.simps(4) by blast
    next
      case (Inr t)
      then show ?thesis using f_call [OF a n ks] pf_internal.simps(3) by blast
    qed
  next
    case n: None
    have "wr_result (wires_of (pf_plane s) r) = None"
      using wire_ok_unsent [OF plane_invD(6) [OF I(1)] serving_returned(2) [OF I(1) j]] by simp
    then show ?thesis using f_dispatch [OF j None n _ refl] pf_internal.simps(6) by blast
  qed
qed

lemma rest_is_stuck:
  assumes inv: "platform_inv parse render cap d s"
    and rest: "\<nexists>e t. pf_internal e \<and> platform_step parse render err_text d s e t"
  shows "stuck parse render err_text d (pf_plane s)"
  unfolding stuck_def
proof (intro allI impI notI)
  fix e p assume e: "internal e" "plane_step parse render err_text d (pf_plane s) e p"
  show False
  proof (cases "\<forall>j. e \<noteq> PDispatch j")
    case True
    then show False using f_plane [OF e(2)] e(1) rest pf_internal.simps(1) by blast
  next
    case False
    then obtain j where j: "e = PDispatch j" by blast
    have "\<exists>k r. pl_pool (pf_plane s) j = Serving k r" using e(2) unfolding j by (cases rule: plane_step.cases) auto
    then obtain k r where "pl_pool (pf_plane s) j = Serving k r" by blast
    then show False using serving_enabled [OF inv] rest by blast
  qed
qed

section \<open>Properties\<close>

text \<open>
  C9: The whole system comes to rest. Take any infinite run from a reachable state, with any number of clients, calls and
  requests of the router under way, in which nobody new arrives at the gateway or at the router. Then
  from some point on nothing happens any more but events of the registry and cancellation: however the
  goroutines of both planes are scheduled, whatever the workers answer, whichever waits time out and however
  often calls between the planes cannot be made, are lost or break off, each request is tried a bounded number of times.
\<close>

theorem platform_rests:
  assumes "reach (platform_start cap d) (platform_step parse render err_text d) (f 0)" and "1 \<le> maxAttempts d"
    and "\<And>n. platform_step parse render err_text d (f n) (es n) (f (Suc n))"
    and "\<And>n. (\<forall>i. es n \<noteq> FPlane (PArrive i)) \<and> (\<forall>m. es n \<noteq> FDirect m)"
  shows "\<exists>n. \<forall>k \<ge> n. es k = FPlane PCancel \<or> (\<exists>ev. es k = FFleet ev)"
proof -
  have kind: "pf_works (es n) \<or> pf_quiet (es n)" for n using assms(4) pf_events(2) by blast
  then obtain n where n: "\<not> pf_works (es k)" if "n \<le> k" for k
    using platformrest.inner_steps_end [OF assms(1,3)] assms(2) by blast
  have "es k = FPlane PCancel \<or> (\<exists>ev. es k = FFleet ev)" if "n \<le> k" for k
    using kind [of k] n [OF that] by (cases "es k") auto
  then show ?thesis by blast
qed

text \<open>
  C2: Where the whole system rests, everybody has been answered. In a reachable state with no internal step left, if the
  pool was not cancelled, has a goroutine, the id counter is not used up and no stream was
  abandoned, then every client of the gateway has its answer, no request is queued, every
  goroutine of the pool waits for the next request, no call is under way, and every request in the
  router has ended.
\<close>

theorem platform_answers_everyone:
  assumes "reach (platform_start cap d) (platform_step parse render err_text d) s" and "1 \<le> maxAttempts d"
    and "\<nexists>e t. pf_internal e \<and> platform_step parse render err_text d s e t"
    and "\<not> pl_cancelled (pf_plane s)" and "0 < concurrency d" and "unat (idCounter (pl_gateway (pf_plane s))) + 1 < 2 ^ 64"
    and "\<forall>i c a. pl_clients (pf_plane s) i = Some c \<longrightarrow> cl_phase c = CDone a \<longrightarrow> \<not> abandoned a"
  shows "(\<forall>i c. pl_clients (pf_plane s) i = Some c \<longrightarrow> (\<exists>a. cl_phase c = CDone a)) \<and>
    waiting (queue (pl_q (pf_plane s))) = [] \<and>
    (\<forall>j < nat (concurrency d). \<exists>k. pl_pool (pf_plane s) j = Popping k \<and> calls (pl_q (pf_plane s)) k = Some Blocked) \<and>
    (\<forall>j. pf_calls s j = None) \<and> (\<forall>n t. rs_tasks (pf_router s) n = Some t \<longrightarrow> task_answer t \<noteq> None)"
proof -
  have inv: "platform_inv parse render cap d s" using platformsys.reach_inv [OF assms(1)] assms(2) by blast
  note I = platform_invD [OF inv]
  have st: "stuck parse render err_text d (pf_plane s)" by (rule rest_is_stuck [OF inv assms(3)])
  note settled = stuck_settled [OF st I(1) assms(4-7)] stuck_blocked [OF st I(1) assms(4,6,7)]
  have "waiting (queue (pl_q (pf_plane s))) = []"
    using settled(2) [of 0] assms(5) plane_invD(1) [OF I(1)] by (auto simp: qinv_def no_lost_wakeup_def)
  moreover have "pf_calls s j = None" for j
    using waiting_okD(1) [OF I(5)] serving_enabled [OF inv] assms(3) by (cases "pf_calls s j") blast+
  moreover have "task_answer t \<noteq> None" if "rs_tasks (pf_router s) n = Some t" for n t
    using advance_enabled f_advance [OF that] pf_internal.simps(2) assms(3) by blast
  ultimately show ?thesis using settled by blast
qed

end
