(* ===== verification/Request_Plane_Demo.thy ===== *)
theory Request_Plane_Demo
  imports Request_Plane_Progress
begin

text \<open>
  A run of the request plane from start to rest, with one client and one goroutine: the
  goroutine finds the queue empty and blocks, the client's push is handed to it, it dispatches
  the request, the client writes the result and is counted, and the goroutine blocks again.
  The properties of the request plane are applied to it.
\<close>

section \<open>The run\<close>

definition rp_up :: Dispatcher where
  "rp_up = Dispatcher_New ''http://router'' 1 []"

definition rp_http :: http_request where
  "rp_http = \<lparr>Method = ''POST'', Path = ''/v1/completions'', Header = Map.empty, Body = Some ''b''\<rparr>"

definition rp_net :: net where
  "rp_net i u b = Got \<lparr>us_status = 200, us_ctype = '''', us_chunks = [''hello''], us_broken = False\<rparr>"

abbreviation rp_step :: "plane \<Rightarrow> plane_event \<Rightarrow> plane \<Rightarrow> bool" where
  "rp_step \<equiv> plane_step demo_body (\<lambda>_. []) (\<lambda>_. []) rp_up"

definition rp_gate :: Gateway where
  "rp_gate = Gateway_New (queue demo_empty) (30 * Second) [WithRequestHook]"

lemma rp_gate_fields [simp]:
  "g_keyStore rp_gate = None" "g_estimator rp_gate = None" "g_tracker rp_gate = None" "g_policy rp_gate = None"
  "idCounter rp_gate = 0" "g_hasHook rp_gate" "g_hookCalls rp_gate = []"
  by (simp_all add: rp_gate_def Gateway_New_def WithRequestHook_def)

definition rp_plane :: "Gateway \<Rightarrow> qsys \<Rightarrow> (nat \<rightharpoonup> client) \<Rightarrow> goroutine \<Rightarrow> (string \<Rightarrow> wires) \<Rightarrow> plane" where
  "rp_plane gw q C g W =
     \<lparr>pl_gateway = gw, pl_q = q, pl_clients = C, pl_pool = (\<lambda>_. Exited)(0 := g), pl_wires = W, pl_cancelled = False\<rparr>"

lemma rp_plane_simps [simp]:
  "pl_gateway (rp_plane gw q C g W) = gw" "pl_q (rp_plane gw q C g W) = q" "pl_clients (rp_plane gw q C g W) = C"
  "pl_pool (rp_plane gw q C g W) 0 = g" "pl_wires (rp_plane gw q C g W) = W" "\<not> pl_cancelled (rp_plane gw q C g W)"
  "(rp_plane gw q C g W)\<lparr>pl_gateway := gw'\<rparr> = rp_plane gw' q C g W"
  "(rp_plane gw q C g W)\<lparr>pl_q := q'\<rparr> = rp_plane gw q' C g W"
  "set_pool (rp_plane gw q C g W) 0 g' = rp_plane gw q C g' W"
  "set_client (rp_plane gw q C g W) i c ph = rp_plane gw q (C(i \<mapsto> c\<lparr>cl_phase := ph\<rparr>)) g W"
  "set_wires (rp_plane gw q C g W) r f = rp_plane gw q C g (W(rq_ID r := f (W (rq_ID r))))"
  by (simp_all add: rp_plane_def set_pool_def set_client_def set_wires_def)

abbreviation no_wires :: "string \<Rightarrow> wires" where
  "no_wires \<equiv> \<lambda>_. fresh_wires"

definition rp_begin :: plane where
  "rp_begin = rp_plane rp_gate demo_empty Map.empty Looping no_wires"

lemma rp_begin_start: "plane_start 1 rp_up rp_begin"
  using demo_empty_start
  by (auto simp: plane_start_def rp_begin_def rp_up_def Dispatcher_New_def) (simp add: rp_plane_def fun_eq_iff)

text \<open>A goroutine that finds nothing blocks.\<close>

lemma idle_run:
  assumes "pl_pool s j = Looping" and "calls (pl_q s) k = None" and "\<forall>p \<in> set popOrder. try_recv (queue (pl_q s)) p = None"
  shows "run (plane_step parse render err_text d) s
    [PCall j, PPop j (QMiss k), PPop j (QMiss k), PPop j (QMiss k), PPop j (QBlock k)]
    (s\<lparr>pl_pool := (pl_pool s)(j := Popping k), pl_q := (pl_q s)\<lparr>calls := (calls (pl_q s))(k \<mapsto> Blocked)\<rparr>\<rparr>)"
proof -
  let ?q = "\<lambda>x. (pl_q s)\<lparr>calls := (calls (pl_q s))(k \<mapsto> x)\<rparr>"
  let ?s = "\<lambda>x. s\<lparr>pl_pool := (pl_pool s)(j := Popping k), pl_q := ?q x\<rparr>"
  have none: "try_recv (queue (pl_q s)) PriorityHigh = None" "try_recv (queue (pl_q s)) PriorityNormal = None"
    "try_recv (queue (pl_q s)) PriorityLow = None"
    using assms(3) by (simp_all add: set_popOrder)
  have call: "plane_step parse render err_text d s (PCall j) (?s (Scan popOrder))"
    using p_call [OF assms(1), of k "?q (Scan popOrder)"] assms(2) by (simp add: qstep_call set_pool_def)
  have miss: "plane_step parse render err_text d (?s (Scan (p # ps))) (PPop j (QMiss k)) (?s (Scan ps))"
    if "try_recv (queue (pl_q s)) p = None" for p ps
    using p_pop [of "?s (Scan (p # ps))" j k "QMiss k" "?q (Scan ps)"] pop_scan_miss [of "?q (Scan (p # ps))" k p ps] that by simp
  have block: "plane_step parse render err_text d (?s (Scan [])) (PPop j (QBlock k)) (?s Blocked)"
    using p_pop [of "?s (Scan [])" j k "QBlock k" "?q Blocked"] pop_block [of "?q (Scan [])" k] assms(3) by simp
  show ?thesis
    unfolding run_Cons_iff run_Nil_iff
    using call [unfolded popOrder_def] miss [OF none(1), of "[PriorityNormal, PriorityLow]"]
      miss [OF none(2), of "[PriorityLow]"] miss [OF none(3), of "[]"] block by blast
qed

definition rp_blocked :: "qsys \<Rightarrow> qsys" where
  "rp_blocked q = q\<lparr>calls := (calls q)(length (returned q) \<mapsto> Blocked)\<rparr>"

lemma rp_empty_recv: "try_recv (queue demo_empty) p = None"
  by (simp add: demo_empty_def Queue_New_def Let_def try_recv_def)

definition idle_events :: "nat \<Rightarrow> plane_event list" where
  "idle_events k = [PCall 0, PPop 0 (QMiss k), PPop 0 (QMiss k), PPop 0 (QMiss k), PPop 0 (QBlock k)]"

lemma rp_idles:
  assumes "calls q k = None" and "k = length (returned q)" and "queue q = queue demo_empty"
  shows "run rp_step (rp_plane gw q C Looping W) (idle_events k) (rp_plane gw (rp_blocked q) C (Popping k) W)"
  using idle_run [of "rp_plane gw q C Looping W" 0 k demo_body "\<lambda>_. []" "\<lambda>_. []" rp_up] assms rp_empty_recv
  by (auto simp: rp_blocked_def rp_plane_def idle_events_def)

text \<open>The client's request, its result and its answer.\<close>

definition rp_made :: Request where
  "rp_made = new_request rp_gate ''b'' ''big'' 0 False '''' 0"

definition rp_result :: Result where
  "rp_result = zero_result\<lparr>StatusCode := 200, rs_Body := ''hello'', ServedModel := ''big''\<rparr>"

lemma rp_dispatched: "fst (dispatch demo_body (\<lambda>_. []) rp_net rp_up rp_made) = Inr (rp_result, [])"
  by (simp add: dispatch_def dispatchBuffered_def chain_def rp_made_def new_request_def rp_up_def Dispatcher_New_def
      body_for_def attempt_def rp_net_def isRetryableStatus_def rp_result_def eval_nat_numeral)

definition rp_response :: response where
  "rp_response = (case bufferedResponse new_response rp_result of Inr w \<Rightarrow> w | Inl _ \<Rightarrow> new_response)"

definition rp_answer :: answer where
  "rp_answer = \<lparr>an_req = Some rp_made, an_result = Some rp_result, an_model = ''big'', an_success = True,
     an_response = rp_response, an_panic = None\<rparr>"

definition rp_in :: "cphase \<Rightarrow> nat \<rightharpoonup> client" where
  "rp_in ph = [0 \<mapsto> \<lparr>cl_http = rp_http, cl_phase = ph\<rparr>]"

lemma rp_in_simps [simp]:
  "rp_in ph 0 = Some \<lparr>cl_http = rp_http, cl_phase = ph\<rparr>"
  "(rp_in ph)(0 \<mapsto> \<lparr>cl_http = rp_http, cl_phase = ph'\<rparr>) = rp_in ph'"
  by (simp_all add: rp_in_def)

abbreviation rp_gate1 :: Gateway where
  "rp_gate1 \<equiv> rp_gate\<lparr>idCounter := 1\<rparr>"

lemma rp_admitted:
  "run rp_step (rp_plane rp_gate q Map.empty g W) [PArrive 0, PBegin 0, PEstimate 0, PNumber 0]
     (rp_plane rp_gate1 q (rp_in (CNumbered rp_made None)) g W)"
proof -
  let ?s = "\<lambda>ph. rp_plane rp_gate q (rp_in ph) g W"
  let ?c = "\<lambda>ph. \<lparr>cl_http = rp_http, cl_phase = ph\<rparr>"
  let ?p = "CParsed ''b'' ''big'' False ''''"
  let ?e = "CEstimated ''b'' ''big'' False '''' None"
  have 1: "rp_step (rp_plane rp_gate q Map.empty g W) (PArrive 0) (?s CArrived)"
    using p_arrive [of "rp_plane rp_gate q Map.empty g W" 0 demo_body "\<lambda>_. []" "\<lambda>_. []" rp_up rp_http]
    by (simp add: rp_plane_def rp_in_def)
  have b: "client_begin demo_body 0 rp_gate rp_http = (?p, rp_gate)"
    by (simp add: client_begin_def rp_http_def authenticate_def demo_body_def unmarshal_payload_def
        unmarshal_string_field_def unmarshal_bool_field_def Let_def same_field_def lower_char_def)
  have 2: "rp_step (?s CArrived) (PBegin 0) (?s ?p)"
    using p_begin [of "?s CArrived" 0 "?c CArrived" demo_body 0 ?p rp_gate] b by simp
  have 3: "rp_step (?s ?p) (PEstimate 0) (?s ?e)"
    using p_estimate [of "?s ?p" 0 "?c ?p" "''b''" "''big''" False "''''"]
    by (simp add: client_estimate_def estimate_wait_def gateway_now_def backpressure_rejects_def Let_def)
  have n: "client_number 0 rp_gate rp_http ''b'' ''big'' False '''' None = (CNumbered rp_made None, rp_gate1)"
    by (simp add: client_number_def rp_made_def parsePriority_def rp_http_def header_get_def Let_def)
  have 4: "rp_step (?s ?e) (PNumber 0) (rp_plane rp_gate1 q (rp_in (CNumbered rp_made None)) g W)"
    using p_number [of "?s ?e" 0 "?c ?e" "''b''" "''big''" False "''''" None 0 "CNumbered rp_made None" rp_gate1] n by simp
  show ?thesis using 1 2 3 4 by (auto simp: run_Cons_iff)
qed

text \<open>The push goes to the waiting call, and the goroutine serves it.\<close>

definition rp_served_q :: qsys where
  "rp_served_q = demo_empty\<lparr>calls := [0 \<mapsto> Returned (Some rp_made)], accepted := [rp_made], returned := [(0, rp_made)]\<rparr>"

definition rp_wires :: "Result option \<Rightarrow> string \<Rightarrow> wires" where
  "rp_wires out = no_wires(rq_ID rp_made := fresh_wires\<lparr>wr_result := out, wr_sent := Some (rp_result, [])\<rparr>)"

lemma rp_push:
  "rp_step (rp_plane rp_gate1 (rp_blocked demo_empty) (rp_in (CNumbered rp_made None)) (Popping 0) no_wires) (PPush 0)
     (rp_plane rp_gate1 rp_served_q (rp_in (CWaiting rp_made new_response)) (Popping 0) no_wires)"
proof -
  let ?s = "rp_plane rp_gate1 (rp_blocked demo_empty) (rp_in (CNumbered rp_made None)) (Popping 0) no_wires"
  have "qstep (pl_q ?s) (QPush rp_made True) rp_served_q"
    using push_handoff [of "rp_blocked demo_empty" 0 rp_made]
    by (simp add: rp_blocked_def rp_served_q_def finish_pop_def demo_empty_def Queue_New_def Let_def
        rp_made_def new_request_def)
  from p_push [OF _ _ this, of 0 "\<lparr>cl_http = rp_http, cl_phase = CNumbered rp_made None\<rparr>" None]
  show ?thesis by (simp add: client_pushed_def estimate_header_def)
qed

abbreviation rp_with :: "cphase \<Rightarrow> goroutine \<Rightarrow> (string \<Rightarrow> wires) \<Rightarrow> plane" where
  "rp_with ph g W \<equiv> rp_plane rp_gate1 rp_served_q (rp_in ph) g W"

abbreviation rp_waits :: cphase where
  "rp_waits \<equiv> CWaiting rp_made new_response"

definition rp_done :: "goroutine \<Rightarrow> plane" where
  "rp_done g = rp_plane (gateway_hook ''big'' True rp_gate1) rp_served_q (rp_in (CDone rp_answer)) g (rp_wires None)"

lemma rp_take: "rp_step (rp_with rp_waits (Popping 0) no_wires) (PTake 0) (rp_with rp_waits (Serving 0 rp_made) no_wires)"
  using p_take [of "rp_with rp_waits (Popping 0) no_wires" 0 0 rp_made] by (simp add: rp_served_q_def)

lemma rp_dispatch:
  "rp_step (rp_with rp_waits (Serving 0 rp_made) no_wires) (PDispatch 0) (rp_with rp_waits Looping (rp_wires (Some rp_result)))"
  using p_dispatch [of "rp_with rp_waits (Serving 0 rp_made) no_wires" 0 0 rp_made, OF _ rp_dispatched]
  by (simp add: rp_wires_def) (simp add: rp_made_def new_request_def)

lemma rp_finish: "run rp_step (rp_with rp_waits Looping (rp_wires (Some rp_result))) [PResult 0, PReport 0] (rp_done Looping)"
proof -
  have r: "client_result (\<lambda>_. []) 0 rp_gate1 rp_made new_response rp_result = (CReporting rp_answer, rp_gate1)"
    by (simp add: client_result_def record_wait_def rp_result_def zero_result_def rp_answer_def rp_response_def
        bufferedResponse_def WriteHeader_def is_success_def rp_made_def new_request_def Let_def)
  have "rp_step (rp_with rp_waits Looping (rp_wires (Some rp_result))) (PResult 0) (rp_with (CReporting rp_answer) Looping (rp_wires None))"
    using p_result [of "rp_with rp_waits Looping (rp_wires (Some rp_result))" 0
        "\<lparr>cl_http = rp_http, cl_phase = rp_waits\<rparr>" rp_made new_response rp_result "\<lambda>_. []" 0 "CReporting rp_answer" rp_gate1] r
    by (simp add: rp_wires_def fresh_wires_def)
  moreover have "rp_step (rp_with (CReporting rp_answer) Looping (rp_wires None)) (PReport 0) (rp_done Looping)"
    using p_report [of "rp_with (CReporting rp_answer) Looping (rp_wires None)" 0
        "\<lparr>cl_http = rp_http, cl_phase = CReporting rp_answer\<rparr>" rp_answer] by (simp add: rp_answer_def rp_done_def)
  ultimately show ?thesis by (auto simp: run_Cons_iff)
qed

definition rp_rest :: plane where
  "rp_rest = rp_plane (gateway_hook ''big'' True rp_gate1) (rp_blocked rp_served_q) (rp_in (CDone rp_answer))
     (Popping 1) (rp_wires None)"

abbreviation rp_reach :: "plane \<Rightarrow> bool" where
  "rp_reach \<equiv> reach (plane_start 1 rp_up) (plane_step demo_body (\<lambda>_. []) (\<lambda>_. []) rp_up)"

lemma rp_queues:
  "calls demo_empty 0 = None" "0 = length (returned demo_empty)"
  "calls rp_served_q 1 = None" "1 = length (returned rp_served_q)" "queue rp_served_q = queue demo_empty"
  by (simp_all add: demo_empty_def rp_served_q_def)

lemma rp_idle_again: "run rp_step (rp_done Looping) (idle_events 1) rp_rest"
  unfolding rp_done_def rp_rest_def by (rule rp_idles [OF rp_queues(3-5)])

lemma rp_rest_run:
  "run rp_step rp_begin
     (idle_events 0 @ [PArrive 0, PBegin 0, PEstimate 0, PNumber 0] @ [PPush 0, PTake 0, PDispatch 0] @
      [PResult 0, PReport 0] @ idle_events 1) rp_rest"
proof -
  have "run rp_step rp_begin (idle_events 0) (rp_plane rp_gate (rp_blocked demo_empty) Map.empty (Popping 0) no_wires)"
    unfolding rp_begin_def by (rule rp_idles [OF rp_queues(1,2) refl])
  moreover have "run rp_step (rp_plane rp_gate1 (rp_blocked demo_empty) (rp_in (CNumbered rp_made None)) (Popping 0) no_wires)
      [PPush 0, PTake 0, PDispatch 0] (rp_with rp_waits Looping (rp_wires (Some rp_result)))"
    using rp_push rp_take rp_dispatch by (auto simp: run_Cons_iff)
  ultimately show ?thesis
    by (intro run_append [OF _ run_append [OF rp_admitted run_append [OF _ run_append [OF rp_finish rp_idle_again]]]])
qed

lemma rp_rest_reach: "rp_reach rp_rest"
  by (rule reach_run [OF rp_rest_run reach.reach_start [of "plane_start 1 rp_up", OF rp_begin_start]])

lemma rp_rest_stuck: "\<nexists>t. internal_step demo_body (\<lambda>_. []) (\<lambda>_. []) rp_up rp_rest t"
proof
  assume "\<exists>t. internal_step demo_body (\<lambda>_. []) (\<lambda>_. []) rp_up rp_rest t"
  then obtain e t where e: "internal e" "rp_step rp_rest e t" by (auto simp: internal_step_def)
  have client: "cl_phase c = CDone rp_answer" if "pl_clients rp_rest i = Some c" for i c
    using that by (auto simp: rp_rest_def rp_in_def split: if_splits)
  have pool: "pl_pool rp_rest j = (if j = 0 then Popping 1 else Exited)" for j
    by (simp add: rp_rest_def rp_plane_def)
  have call: "calls (pl_q rp_rest) 1 = Some Blocked" by (simp add: rp_rest_def rp_blocked_def rp_served_q_def)
  have cancel: "\<not> pl_cancelled rp_rest" by (simp add: rp_rest_def)
  have no_pop: "\<not> qstep (pl_q rp_rest) ev q'" if "ev = QMiss 1 \<or> ev = QBlock 1 \<or> (\<exists>p. ev = QRecv 1 p)" for ev q'
    using that call by (auto elim!: qstep.cases)
  from e(2) show False
    by (cases rule: plane_step.cases) (use e(1) client pool call cancel no_pop in \<open>auto split: if_splits\<close>)
qed

section \<open>The properties on this run\<close>

theorem clients_get_their_own_answers_witness:
  "made_for demo_body rp_http rp_made \<and> rstatus (an_response rp_answer) = Some 200 \<and> rbody (an_response rp_answer) = [''hello''] \<and>
   (\<exists>f es. f 0 = rp_begin \<and> state_path rp_step f es \<and> f (length es) = rp_rest \<and>
      (\<exists>!n. n < length es \<and> dispatches (f n) (es ! n) rp_made) \<and>
      (\<exists>n chunks. delivers (f n) (es ! n) (f (Suc n)) rp_made rp_result chunks))"
proof -
  obtain f es where f: "f 0 = rp_begin" "state_path rp_step f es" "f (length es) = rp_rest"
    using run_path [OF rp_rest_run] by blast
  have c: "pl_clients rp_rest 0 = Some \<lparr>cl_http = rp_http, cl_phase = CDone rp_answer\<rparr>" by (simp add: rp_rest_def)
  have a: "an_req rp_answer = Some rp_made" "an_result rp_answer = Some rp_result" "an_panic rp_answer = None"
    by (simp_all add: rp_answer_def)
  have r: "rs_Err rp_result = None" "StatusCode rp_result = 200" "\<not> Streaming rp_result" "rs_Body rp_result = ''hello''"
    by (simp_all add: rp_result_def zero_result_def)
  have "plane_start 1 rp_up (f 0)" using rp_begin_start by (simp only: f(1))
  from clients_get_their_own_answers [where f = f, OF this f(2) f(3) [symmetric] c, of rp_answer]
  have "made_for demo_body rp_http rp_made" "\<exists>!n. n < length es \<and> dispatches (f n) (es ! n) rp_made"
    "\<exists>n chunks. delivers (f n) (es ! n) (f (Suc n)) rp_made rp_result chunks \<and> relays rp_answer rp_result chunks"
    by (simp_all add: a) blast
  then show ?thesis using f by (auto simp: a r relays_def)
qed

theorem every_client_counted_once_witness:
  "mset (g_hookCalls (pl_gateway rp_rest)) = {#(''big'', True)#}"
proof -
  have "g_hasHook (pl_gateway rp_rest)" by (simp add: rp_rest_def gateway_hook_def)
  from every_client_counted_once [OF rp_rest_reach this]
  show ?thesis by (simp add: rp_rest_def rp_in_def reports_of_def rp_answer_def)
qed

theorem request_plane_rests_witness:
  "\<nexists>f. f 0 = rp_rest \<and> (\<forall>n. internal_step demo_body (\<lambda>_. []) (\<lambda>_. []) rp_up (f n) (f (Suc n)))"
  by (rule request_plane_rests [OF rp_rest_reach])

theorem request_plane_answers_everyone_witness:
  "\<exists>a. an_success a \<and> pl_clients rp_rest 0 = Some \<lparr>cl_http = rp_http, cl_phase = CDone a\<rparr> \<and>
     waiting (queue (pl_q rp_rest)) = []"
proof -
  have "\<forall>i c a. pl_clients rp_rest i = Some c \<longrightarrow> cl_phase c = CDone a \<longrightarrow> \<not> abandoned a"
    by (auto simp: rp_rest_def rp_in_def abandoned_def rp_answer_def split: if_splits)
  moreover have "0 < concurrency rp_up" by (simp add: rp_up_def Dispatcher_New_def)
  moreover have "unat (idCounter (pl_gateway rp_rest)) + 1 < 2 ^ 64" by (simp add: rp_rest_def gateway_hook_def)
  moreover have "\<not> pl_cancelled rp_rest" by (simp add: rp_rest_def)
  ultimately have "waiting (queue (pl_q rp_rest)) = []"
    using request_plane_answers_everyone [OF rp_rest_reach rp_rest_stuck] by blast
  then show ?thesis by (intro exI [of _ rp_answer]) (simp add: rp_rest_def rp_answer_def)
qed

end
