(* ===== verification/Platform_Demo.thy ===== *)
theory Platform_Demo
  imports Platform_Progress Request_Plane_Demo
begin

text \<open>
  A run of the whole system from start to rest: a worker registers and becomes ready, a client's request is
  admitted and popped, its dispatch becomes a request of the router, which goes to that worker,
  and the worker's answer comes back to the client. The properties of the system are applied to it.
\<close>

section \<open>The fleet\<close>

definition pd_info :: WorkerInfo where
  "pd_info = (demo_info ''w'')\<lparr>ModelsLoaded := [''big'']\<rparr>"

definition pd_entry :: WorkerEntry where
  "pd_entry = \<lparr>Info = pd_info, State = READY, LastHeartbeat = 2, RegisteredAt = 1,
     Load = zero_load ''w'', DrainRequested = False, MarkedDeadAt = 0, deadlineTimer = 0\<rparr>"

definition pd_registered :: Registry where
  "pd_registered = snd (Register (New 10) pd_info 1 1)"

definition pd_fleet :: fleet where
  "pd_fleet = \<lparr>reg = snd (Heartbeat pd_registered \<lparr>hb_WorkerId = ''w'', hb_State = READY\<rparr> 2 2), clock = 2\<rparr>"

lemma pd_fleet_run:
  "run reg_step demo_start
     [ERegister pd_info 1 1, EStore (new_entry (New 10) pd_info 1), EHeartbeat \<lparr>hb_WorkerId = ''w'', hb_State = READY\<rparr> 2 2] pd_fleet"
proof -
  have "run reg_step demo_start [ERegister pd_info 1 1, EStore (new_entry (New 10) pd_info 1)] \<lparr>reg = pd_registered, clock = 1\<rparr>"
    using register_run [of demo_start 1 pd_info] by (simp add: demo_start_def New_def pd_registered_def pd_info_def demo_info_def)
  moreover have "reg_step \<lparr>reg = pd_registered, clock = 1\<rparr> (EHeartbeat \<lparr>hb_WorkerId = ''w'', hb_State = READY\<rparr> 2 2) pd_fleet"
    using step_heartbeat [of "\<lparr>reg = pd_registered, clock = 1\<rparr>" 2 2] by (simp add: pd_fleet_def)
  ultimately show ?thesis by (auto simp: run_Cons_iff)
qed

lemma pd_workers: "workers (reg pd_fleet) = [''w'' \<mapsto> pd_entry]"
  by (simp add: pd_fleet_def pd_registered_def Register_eq new_entry_def AfterFunc_def pd_info_def demo_info_def New_def Let_def
      Heartbeat_def validTransition.simps pd_entry_def timer_Reset_def)

section \<open>Runs of the parts\<close>

abbreviation pd_step :: "platform \<Rightarrow> platform_event \<Rightarrow> platform \<Rightarrow> bool" where
  "pd_step \<equiv> platform_step demo_body (\<lambda>_. []) (\<lambda>_. []) rp_up"

abbreviation pd_reach :: "platform \<Rightarrow> bool" where
  "pd_reach \<equiv> reach (platform_start 1 rp_up) pd_step"

lemma plane_run_lifts:
  assumes "run rp_step p es p'" and "\<forall>e \<in> set es. \<forall>j. e \<noteq> PDispatch j"
    and "pd_reach (s\<lparr>pf_plane := p\<rparr>)"
  shows "pd_reach (s\<lparr>pf_plane := p'\<rparr>)"
  using assms
proof (induction rule: run.induct)
  case (run_Cons p e q es p')
  have "pd_step (s\<lparr>pf_plane := p\<rparr>) (FPlane e) (s\<lparr>pf_plane := q\<rparr>)"
    using f_plane [of demo_body "\<lambda>_. []" "\<lambda>_. []" rp_up "s\<lparr>pf_plane := p\<rparr>" e q] run_Cons(1,4) by simp
  then show ?case using reach.reach_step [OF run_Cons(5)] run_Cons(3,4) by simp
qed simp

lemma fleet_run_lifts:
  assumes "run reg_step f es f'" and "pd_reach (s\<lparr>pf_fleet := f\<rparr>)"
  shows "pd_reach (s\<lparr>pf_fleet := f'\<rparr>)"
  using assms
proof (induction rule: run.induct)
  case (run_Cons f e g es f')
  have "pd_step (s\<lparr>pf_fleet := f\<rparr>) (FFleet e) (s\<lparr>pf_fleet := g\<rparr>)"
    using f_fleet [of "s\<lparr>pf_fleet := f\<rparr>" e g] run_Cons(1) by simp
  then show ?case using reach.reach_step [OF run_Cons(4)] run_Cons(3) by simp
qed simp

text \<open>The only request of the router goes on for \<open>n\<close> steps; the workers answer with \<open>res\<close>.\<close>

fun drive :: "do_result \<Rightarrow> nat \<Rightarrow> Router \<times> task \<times> (WorkerEntry \<times> do_result) list \<Rightarrow>
    Router \<times> task \<times> (WorkerEntry \<times> do_result) list" where
  "drive res 0 x = x"
| "drive res (Suc n) (r, t, h) =
     (case advance res r t of None \<Rightarrow> (r, t, h) | Some (r', t') \<Rightarrow> drive res n (r', t', note_hop t res h))"

definition pd_with :: "platform \<Rightarrow> Router \<times> task \<times> (WorkerEntry \<times> do_result) list \<Rightarrow> platform" where
  "pd_with s = (\<lambda>(r, t, h). s\<lparr>pf_router := \<lparr>rs_router = r, rs_tasks = [0 \<mapsto> t]\<rparr>, pf_hops := (\<lambda>_. [])(0 := h)\<rparr>)"

lemma drive_lifts: "pd_reach (pd_with s x) \<Longrightarrow> pd_reach (pd_with s (drive res n x))"
proof (induction res n x rule: drive.induct)
  case (2 res n r t h)
  show ?case
  proof (cases "advance res r t")
    case (Some y)
    obtain r' t' where y: "y = (r', t')" by fastforce
    have "pd_step (pd_with s (r, t, h)) (FAdvance 0 res) (pd_with s (r', t', note_hop t res h))"
      using f_advance [of "pd_with s (r, t, h)" 0 t res r' t'] Some y by (simp add: pd_with_def)
    then show ?thesis using 2 Some y reach.reach_step [OF 2(2)] by simp
  qed (use 2 in simp)
qed simp

lemma drive_body: "drive res n (r, t, h) = (r', t', h') \<Longrightarrow> tk_body t' = tk_body t"
  by (induction n arbitrary: r t h) (auto split: option.splits prod.splits dest: advance_frame(2))

section \<open>The run\<close>

definition pd_up :: upstream_response where
  "pd_up = \<lparr>us_status = 200, us_ctype = '''', us_chunks = [''hello''], us_broken = False\<rparr>"

definition pd_task :: task where
  "pd_task = start_task (upstream_request ''b'') ''b'' ''big'' [pd_entry]"

definition pd_routed :: "Router \<times> task \<times> (WorkerEntry \<times> do_result) list" where
  "pd_routed = drive (Got pd_up) 6 (Router_New True, pd_task, [])"

lemma pd_routed_done:
  "\<exists>r t. pd_routed = (r, t, [(pd_entry, Got pd_up)]) \<and> task_answer t = Some (Got pd_up) \<and> tk_body t = ''b''"
  by (simp add: pd_routed_def numeral_eq_Suc advance_def pd_task_def start_task_def candidates_def pick_now_def pickWorker_def
      relay_answer_def proxy_got relay_def note_hop_def task_answer_def client_view_def pd_up_def new_response_def
      set_header_def commit_status_def write_body_def header_get_def)

definition pd_state :: "plane \<Rightarrow> (nat \<Rightarrow> nat option) \<Rightarrow> exchange list \<Rightarrow> platform" where
  "pd_state p C xs =
     \<lparr>pf_plane = p, pf_router = \<lparr>rs_router = Router_New True, rs_tasks = Map.empty\<rparr>, pf_fleet = pd_fleet, pf_calls = C,
      pf_exchanges = (\<lambda>_. [])(rq_ID rp_made := xs), pf_hops = (\<lambda>_. [])\<rparr>"

lemma pd_started: "pd_reach (pd_state rp_begin (\<lambda>_. None) [])"
proof -
  let ?s = "pd_state rp_begin (\<lambda>_. None) []"
  have "platform_start 1 rp_up (?s\<lparr>pf_fleet := demo_start\<rparr>)"
    using rp_begin_start demo_start_ok by (auto simp: platform_start_def pd_state_def router_start_def fun_eq_iff)
  then have "pd_reach (?s\<lparr>pf_fleet := demo_start\<rparr>)" by (rule reach.reach_start)
  from fleet_run_lifts [OF pd_fleet_run this] show ?thesis by (simp add: pd_state_def)
qed

lemma pd_quiet: "pd_reach (pd_state p C xs) \<Longrightarrow> run rp_step p es p' \<Longrightarrow> \<forall>e \<in> set es. \<forall>j. e \<noteq> PDispatch j \<Longrightarrow> pd_reach (pd_state p' C xs)"
  using plane_run_lifts [of p es p' "pd_state p C xs"] by (simp add: pd_state_def)

lemma pd_quiet_with:
  "pd_reach (pd_with (pd_state p C xs) x) \<Longrightarrow> run rp_step p es p' \<Longrightarrow> \<forall>e \<in> set es. \<forall>j. e \<noteq> PDispatch j \<Longrightarrow>
    pd_reach (pd_with (pd_state p' C xs) x)"
  using plane_run_lifts [of p es p' "pd_with (pd_state p C xs) x"] by (simp add: pd_state_def pd_with_def split: prod.split_asm)

abbreviation pd_serving :: plane where
  "pd_serving \<equiv> rp_with rp_waits (Serving 0 rp_made) no_wires"

lemma pd_serving_reach: "pd_reach (pd_state pd_serving (\<lambda>_. None) [])"
proof -
  have "pd_reach (pd_state (rp_plane rp_gate demo_empty Map.empty Looping no_wires) (\<lambda>_. None) [])"
    using pd_started by (simp only: rp_begin_def)
  note idle = pd_quiet [OF this rp_idles [OF rp_queues(1,2) refl]]
  have "pd_reach (pd_state (rp_plane rp_gate1 (rp_blocked demo_empty) (rp_in (CNumbered rp_made None)) (Popping 0) no_wires) (\<lambda>_. None) [])"
    by (rule pd_quiet [OF idle rp_admitted]) (simp_all add: idle_events_def)
  then show ?thesis
    by (rule pd_quiet [where es = "[PPush 0, PTake 0]"]) (use rp_push rp_take in \<open>auto simp: run_Cons_iff\<close>)
qed

definition pd_exchange :: exchange where
  "pd_exchange = \<lparr>ex_body = ''b'', ex_task = Some 0, ex_answer = Got pd_up\<rparr>"

lemma pd_calls:
  "next_call demo_body (\<lambda>_. []) rp_up rp_made [] = Some ''b''"
  "next_call demo_body (\<lambda>_. []) rp_up rp_made [pd_exchange] = None"
  "fst (dispatch demo_body (\<lambda>_. []) (replay [pd_exchange]) rp_up rp_made) = Inr (rp_result, [])"
  by (simp_all add: next_call_def dispatch_def dispatchBuffered_def chain_def rp_made_def new_request_def rp_up_def Dispatcher_New_def
      body_for_def attempt_def replay_def isRetryableStatus_def rp_result_def made_call_def pd_exchange_def pd_up_def
      Let_def eval_nat_numeral)

lemma pd_routes: "router_begin demo_body (reg pd_fleet) [''w''] (upstream_request ''b'') = Inr pd_task"
  by (simp add: router_begin_def upstream_request_def demo_body_def unmarshal_string_field_def same_field_def lower_char_def
      HealthyWorkersForModel_def range_values_def map_filter_simps pd_workers pd_entry_def pd_info_def healthy_state_def
      pd_task_def Let_def)

abbreviation pd_waiting :: "nat \<Rightarrow> nat option" where
  "pd_waiting \<equiv> (\<lambda>_. None)(0 := Some 0)"

lemma pd_called: "pd_reach (pd_with (pd_state pd_serving pd_waiting []) (Router_New True, pd_task, []))"
proof -
  let ?s = "pd_state pd_serving (\<lambda>_. None) []"
  have "asks demo_body (\<lambda>_. []) rp_up ?s 0 rp_made ''b''" using pd_calls(1) by (simp add: asks_def pd_state_def)
  moreover have "range_order (workers (reg (pf_fleet ?s))) [''w'']" by (simp add: pd_state_def pd_workers range_order_def)
  moreover have "rs_tasks (pf_router ?s) 0 = None" by (simp add: pd_state_def)
  moreover have "router_begin demo_body (reg (pf_fleet ?s)) [''w''] (upstream_request ''b'') = Inr pd_task"
    using pd_routes by (simp add: pd_state_def)
  ultimately have "pd_step ?s (FCall 0) (set_call (add_task ?s 0 pd_task) 0 (Some 0))" by (intro f_call)
  moreover have "set_call (add_task ?s 0 pd_task) 0 (Some 0) = pd_with (pd_state pd_serving pd_waiting []) (Router_New True, pd_task, [])"
    by (simp add: set_call_def add_task_def pd_state_def pd_with_def fun_eq_iff)
  ultimately show ?thesis using reach.reach_step [OF pd_serving_reach] by metis
qed

lemma pd_answered: "pd_reach (pd_with (pd_state pd_serving (\<lambda>_. None) [pd_exchange]) pd_routed)"
proof -
  let ?s = "pd_with (pd_state pd_serving pd_waiting []) pd_routed"
  have "pd_reach ?s" unfolding pd_routed_def by (rule drive_lifts [OF pd_called])
  moreover obtain r t where t: "pd_routed = (r, t, [(pd_entry, Got pd_up)])" "task_answer t = Some (Got pd_up)" "tk_body t = ''b''"
    using pd_routed_done by blast
  have "waits ?s 0 rp_made 0 t" by (simp add: waits_def t(1) pd_with_def pd_state_def)
  from f_return [OF this t(2)] have "pd_step ?s (FReturn 0) (pd_with (pd_state pd_serving (\<lambda>_. None) [pd_exchange]) pd_routed)"
    by (simp add: t(1,3) pd_with_def pd_state_def exchanged_def set_call_def pd_exchange_def fun_upd_idem)
  ultimately show ?thesis by (rule reach.reach_step)
qed

definition pd_rest :: platform where
  "pd_rest = pd_with (pd_state rp_rest (\<lambda>_. None) [pd_exchange]) pd_routed"

lemma pd_rest_reach: "pd_reach pd_rest"
proof -
  let ?s = "\<lambda>p. pd_with (pd_state p (\<lambda>_. None) [pd_exchange]) pd_routed"
  have "pd_step (?s pd_serving) (FDispatch 0) (?s (rp_with rp_waits Looping (rp_wires (Some rp_result))))"
  proof -
    have s: "pf_plane (?s p) = p" "pf_calls (?s p) = (\<lambda>_. None)" "pf_exchanges (?s p) (rq_ID rp_made) = [pd_exchange]"
      "(?s p)\<lparr>pf_plane := p'\<rparr> = ?s p'" for p p'
      by (simp_all add: pd_with_def pd_state_def case_prod_beta)
    have "after_dispatch pd_serving 0 0 rp_made (Inr (rp_result, [])) = rp_with rp_waits Looping (rp_wires (Some rp_result))"
      by (simp add: after_dispatch_def rp_wires_def) (simp add: rp_made_def new_request_def)
    then show ?thesis
      using f_dispatch [of "?s pd_serving" 0 0 rp_made demo_body "\<lambda>_. []" rp_up, unfolded s, OF _ _ pd_calls(2) _ refl] pd_calls(3)
      by simp
  qed
  from pd_quiet_with [OF reach.reach_step [OF pd_answered this] rp_finish]
  have "pd_reach (?s (rp_done Looping))" by simp
  from pd_quiet_with [OF this rp_idle_again] show ?thesis by (simp add: pd_rest_def idle_events_def)
qed

lemma pd_rest_simps:
  "pf_plane pd_rest = rp_rest" "pf_calls pd_rest j = None" "pf_exchanges pd_rest (rq_ID rp_made) = [pd_exchange]"
  by (simp_all add: pd_rest_def pd_with_def pd_state_def case_prod_beta)

lemma pd_rest_router:
  "\<exists>r t. pf_router pd_rest = \<lparr>rs_router = r, rs_tasks = [0 \<mapsto> t]\<rparr> \<and> task_answer t = Some (Got pd_up)"
proof -
  obtain r t where t: "pd_routed = (r, t, [(pd_entry, Got pd_up)])" "task_answer t = Some (Got pd_up)"
    using pd_routed_done by blast
  then have "pf_router pd_rest = \<lparr>rs_router = r, rs_tasks = [0 \<mapsto> t]\<rparr>"
    by (simp add: pd_rest_def pd_with_def t(1))
  with t(2) show ?thesis by blast
qed

lemma rp_up_attempts: "1 \<le> maxAttempts rp_up"
  by (simp add: rp_up_def Dispatcher_New_def)

lemma pd_rest_stuck: "\<nexists>e t. pf_internal e \<and> pd_step pd_rest e t"
proof
  assume "\<exists>e t. pf_internal e \<and> pd_step pd_rest e t"
  then obtain e t where e: "pf_internal e" "pd_step pd_rest e t" by blast
  obtain r u where u: "pf_router pd_rest = \<lparr>rs_router = r, rs_tasks = [0 \<mapsto> u]\<rparr>" "task_answer u = Some (Got pd_up)"
    using pd_rest_router by blast
  then have still: "advance res rt u = None" for res rt
    by (cases "tk_phase u") (auto simp: task_answer_def advance_def)
  have pool: "pl_pool rp_rest j \<noteq> Serving k q" for j k q by (simp add: rp_rest_def rp_plane_def)
  from e(2) show False
  proof (cases rule: platform_step.cases)
    case (f_plane e' p)
    then show False using rp_rest_stuck e(1) by (auto simp: internal_step_def pd_rest_simps(1))
  next
    case (f_advance n t res r' t')
    then show False using u(1) still by (auto split: if_splits)
  qed (use e(1) pool pd_rest_simps(2) in \<open>auto simp: asks_def waits_def pd_rest_simps(1)\<close>)
qed

section \<open>The properties on this run\<close>

lemma pd_client: "pl_clients (pf_plane pd_rest) 0 = Some \<lparr>cl_http = rp_http, cl_phase = CDone rp_answer\<rparr>"
  by (simp add: pd_rest_simps(1) rp_rest_def)

theorem answers_come_from_healthy_workers_witness:
  "served_from pd_rest (rq_ID rp_made) pd_exchange pd_up \<and> concat (rbody (an_response rp_answer)) = ''hello''"
proof -
  have a: "an_req rp_answer = Some rp_made" "an_result rp_answer = Some rp_result" "an_panic rp_answer = None" "an_success rp_answer"
    by (simp_all add: rp_answer_def)
  have "cl_phase \<lparr>cl_http = rp_http, cl_phase = CDone rp_answer\<rparr> = CDone rp_answer" by simp
  from answers_come_from_healthy_workers [OF pd_rest_reach rp_up_attempts pd_client this a(1,2)] a(3,4)
  obtain up where "ex_answer pd_exchange = Got up" "served_from pd_rest (rq_ID rp_made) pd_exchange up"
    "concat (rbody (an_response rp_answer)) = concat (us_chunks up)"
    by (auto simp: pd_rest_simps(3))
  moreover have "ex_answer pd_exchange = Got pd_up" "concat (us_chunks pd_up) = ''hello''"
    by (simp_all add: pd_exchange_def pd_up_def)
  ultimately show ?thesis by simp
qed

text \<open>The worker is serving the only call of the pool: the bound is reached.\<close>

definition pd_flying :: platform where
  "pd_flying = pd_with (pd_state pd_serving pd_waiting []) (drive (Got pd_up) 3 (Router_New True, pd_task, []))"

lemma pd_flying_simps:
  "\<exists>r t. drive (Got pd_up) 3 (Router_New True, pd_task, []) = (r, t, []) \<and> tk_phase t = Proxying pd_entry \<and> getInFlight r ''w'' = 1"
  by (simp add: numeral_eq_Suc advance_def pd_task_def start_task_def candidates_def pick_now_def pickWorker_def
      note_hop_def inc_def counter64_def Router_New_def getInFlight_def pd_entry_def pd_info_def demo_info_def Let_def)

theorem pool_bounds_load_witness:
  "\<exists>s0 es. platform_start 1 rp_up s0 \<and> run pd_step s0 es pd_flying \<and>
    getInFlight (rs_router (pf_router pd_flying)) ''w'' = 1 \<and> 0 \<in> occupying (pf_router pd_flying) ''w'' \<and>
    card {n. \<exists>j. pf_calls pd_flying j = Some n} \<le> 1 \<and>
    getInFlight (rs_router (pf_router pd_flying)) ''w'' \<le> 1 +
      int (card {n \<in> occupying (pf_router pd_flying) ''w''. FDirect n \<in> set es}) +
      int (card {n \<in> occupying (pf_router pd_flying) ''w''. given_up pd_flying n}) +
      int (card {n \<in> occupying (pf_router pd_flying) ''w''. crashed pd_flying n})"
proof -
  obtain r t where d: "drive (Got pd_up) 3 (Router_New True, pd_task, []) = (r, t, [])" "tk_phase t = Proxying pd_entry"
    "getInFlight r ''w'' = 1" using pd_flying_simps by blast
  have router: "pf_router pd_flying = \<lparr>rs_router = r, rs_tasks = [0 \<mapsto> t]\<rparr>" by (simp add: pd_flying_def pd_with_def d(1))
  have "pd_reach pd_flying" unfolding pd_flying_def by (rule drive_lifts [OF pd_called])
  then obtain s0 es where run: "platform_start 1 rp_up s0" "run pd_step s0 es pd_flying" by (rule reach_runs)
  have "card (dom (rs_tasks (pf_router pd_flying))) < 2 ^ 63" by (simp add: router)
  moreover have "concurrency rp_up = 1" by (simp add: rp_up_def Dispatcher_New_def)
  moreover have "0 \<in> occupying (pf_router pd_flying) ''w''" using d(2) by (simp add: occupying_def router pd_entry_def pd_info_def demo_info_def)
  ultimately show ?thesis
    using pool_bounds_load [OF run rp_up_attempts _ refl, of "''w''"] run d(3) by (intro exI [of _ s0] exI [of _ es]) (simp add: router)
qed

text \<open>The connection of that call is lost, and then nothing happens but the ticking of the clock.\<close>

definition pd_lost :: platform where
  "pd_lost = exchanged (set_call pd_flying 0 None) rp_made \<lparr>ex_body = ''b'', ex_task = Some 0, ex_answer = Unreachable\<rparr>"

definition pd_states :: "nat \<Rightarrow> platform" where
  "pd_states n = (case n of 0 \<Rightarrow> pd_flying | Suc _ \<Rightarrow> pd_lost)"

definition pd_events :: "nat \<Rightarrow> platform_event" where
  "pd_events n = (case n of 0 \<Rightarrow> FLost 0 | Suc _ \<Rightarrow> FFleet (ETick (clock pd_fleet)))"

lemma pd_infinite: "pd_step (pd_states n) (pd_events n) (pd_states (Suc n))"
proof (cases n)
  case 0
  obtain r t where d: "drive (Got pd_up) 3 (Router_New True, pd_task, []) = (r, t, [])" using pd_flying_simps by blast
  have "tk_body t = ''b''" using drive_body [of "Got pd_up" 3 "Router_New True" pd_task "[]"] d by (simp add: pd_task_def start_task_def)
  moreover have "waits pd_flying 0 rp_made 0 t" by (simp add: waits_def pd_flying_def d pd_with_def pd_state_def)
  ultimately show ?thesis using f_lost [of pd_flying 0 rp_made 0 t] 0 by (simp add: pd_states_def pd_events_def pd_lost_def)
next
  case (Suc m)
  have c: "pf_fleet pd_lost = pd_fleet" by (simp add: pd_lost_def pd_flying_def pd_with_def pd_state_def case_prod_beta)
  have "reg_step (pf_fleet pd_lost) (ETick (clock pd_fleet)) (pf_fleet pd_lost)"
    using step_tick [of pd_fleet "clock pd_fleet"] by (simp add: c)
  from f_fleet [OF this] show ?thesis using Suc by (simp add: pd_states_def pd_events_def)
qed

theorem platform_rests_witness:
  "pd_events 0 = FLost 0 \<and> (\<exists>n. \<forall>k. pd_events (n + k) = FPlane PCancel \<or> (\<exists>ev. pd_events (n + k) = FFleet ev))"
proof -
  have "pd_reach (pd_states 0)" unfolding pd_states_def pd_flying_def nat.case by (rule drive_lifts [OF pd_called])
  moreover have "(\<forall>i. pd_events n \<noteq> FPlane (PArrive i)) \<and> (\<forall>m. pd_events n \<noteq> FDirect m)" for n
    by (cases n) (simp_all add: pd_events_def)
  ultimately obtain n where "\<forall>k \<ge> n. pd_events k = FPlane PCancel \<or> (\<exists>ev. pd_events k = FFleet ev)"
    using platform_rests [where f = pd_states and es = pd_events, OF _ rp_up_attempts pd_infinite] by blast
  then have "\<forall>k. pd_events (n + k) = FPlane PCancel \<or> (\<exists>ev. pd_events (n + k) = FFleet ev)" by simp
  then show ?thesis by (auto simp: pd_events_def)
qed

theorem platform_answers_everyone_witness:
  "waiting (queue (pl_q (pf_plane pd_rest))) = [] \<and> pf_calls pd_rest 0 = None \<and>
   (\<exists>t. rs_tasks (pf_router pd_rest) 0 = Some t \<and> task_answer t \<noteq> None)"
proof -
  obtain t where "rs_tasks (pf_router pd_rest) 0 = Some t" using pd_rest_router by fastforce
  moreover have "\<forall>i c a. pl_clients (pf_plane pd_rest) i = Some c \<longrightarrow> cl_phase c = CDone a \<longrightarrow> \<not> abandoned a"
    by (auto simp: pd_rest_simps(1) rp_rest_def rp_in_def abandoned_def rp_answer_def split: if_splits)
  moreover have "0 < concurrency rp_up" by (simp add: rp_up_def Dispatcher_New_def)
  moreover have "unat (idCounter (pl_gateway (pf_plane pd_rest))) + 1 < 2 ^ 64" "\<not> pl_cancelled (pf_plane pd_rest)"
    by (simp_all add: pd_rest_simps(1) rp_rest_def gateway_hook_def)
  ultimately show ?thesis
    using platform_answers_everyone [OF pd_rest_reach rp_up_attempts pd_rest_stuck] by blast
qed

end
