(* ===== verification/Processes.thy ===== *)
theory Processes
  imports Platform_Demo
begin

text \<open>
  The life of the two server processes, from \<^verbatim>\<open>main\<close>'s first goroutine to the exit code:
  \<^verbatim>\<open>request-plane/cmd/server/main.go\<close> around the concurrent request plane, and
  \<^verbatim>\<open>control-plane/cmd/server/main.go\<close> around the concurrent router. The pieces of the standard
  library they use are modelled as far as they are used: \<^verbatim>\<open>ListenAndServe\<close> and \<^verbatim>\<open>Close\<close> of an HTTP
  server, the context a signal cancels, and \<^verbatim>\<open>log.Fatalf\<close>, which exits with 1. A second signal does
  nothing, since the context keeps receiving signals to the end. When a process has exited, nothing
  moves any more.
\<close>

section \<open>An HTTP server\<close>

text \<open>
  \<^verbatim>\<open>ListenAndServe\<close> gives up if the server is closed already, binds its address, and accepts connections
  until it is closed or accepting fails; it looks again for a close before it accepts.
\<close>

datatype serve_error = ErrServerClosed | ServeFailed string

datatype serving = Starting | Binding | Accepting | Served serve_error

record http_server =
  sv_closed :: bool
  sv_opened :: bool
  sv_serving :: serving

definition new_server :: http_server where
  "new_server = \<lparr>sv_closed = False, sv_opened = False, sv_serving = Starting\<rparr>"

inductive serve_step :: "http_server \<Rightarrow> http_server \<Rightarrow> bool" where
  serve_bind: "\<lbrakk>sv_serving v = Starting; \<not> sv_closed v\<rbrakk> \<Longrightarrow> serve_step v (v\<lparr>sv_serving := Binding\<rparr>)"
| serve_accept: "\<lbrakk>sv_serving v = Binding; \<not> sv_closed v\<rbrakk> \<Longrightarrow>
    serve_step v (v\<lparr>sv_serving := Accepting, sv_opened := True\<rparr>)"
| serve_bind_fails: "sv_serving v = Binding \<Longrightarrow> serve_step v (v\<lparr>sv_serving := Served (ServeFailed e)\<rparr>)"
| serve_accept_fails: "\<lbrakk>sv_serving v = Accepting; \<not> sv_closed v\<rbrakk> \<Longrightarrow>
    serve_step v (v\<lparr>sv_serving := Served (ServeFailed e)\<rparr>)"
| serve_closed: "\<lbrakk>sv_serving v \<in> {Starting, Binding, Accepting}; sv_closed v\<rbrakk> \<Longrightarrow>
    serve_step v (v\<lparr>sv_serving := Served ErrServerClosed\<rparr>)"

inductive_cases serve_stepE: "serve_step v v'"

fun serve_left :: "serving \<Rightarrow> nat" where
  "serve_left Starting = 3"
| "serve_left Binding = 2"
| "serve_left Accepting = 1"
| "serve_left (Served e) = 0"

definition serve_failed :: "http_server \<Rightarrow> bool" where
  "serve_failed v \<longleftrightarrow> (\<exists>e. sv_serving v = Served (ServeFailed e))"

definition server_ok :: "http_server \<Rightarrow> bool" where
  "server_ok v \<longleftrightarrow> (sv_serving v = Served ErrServerClosed \<longrightarrow> sv_closed v)"

lemma new_server_ok [simp]: "server_ok new_server" "\<not> sv_closed new_server" "sv_serving new_server = Starting"
  by (simp_all add: server_ok_def new_server_def)

lemma serve_keeps:
  assumes "serve_step v v'"
  shows "server_ok v'" "sv_closed v' = sv_closed v" "serve_left (sv_serving v') < serve_left (sv_serving v)"
  using assms by (auto simp: server_ok_def elim!: serve_stepE)

lemma serve_moves:
  assumes "sv_closed v"
  obtains v' where "serve_step v v'" "sv_serving v' = Served ErrServerClosed" | e where "sv_serving v = Served e"
  using serve_closed [OF _ assms] by (cases "sv_serving v") auto

section \<open>The request plane's process\<close>

text \<open>
  The goroutine that waits for the context closes first the gateway's server (its listener, then its
  connections), then the admin server. Its state: waiting, woken, and what it has closed.
\<close>

datatype closer = AwaitsSignal | Woken | ListenerClosed | ConnsClosed | AdminClosed

fun closer_left :: "closer \<Rightarrow> nat" where
  "closer_left AwaitsSignal = 4"
| "closer_left Woken = 3"
| "closer_left ListenerClosed = 2"
| "closer_left ConnsClosed = 1"
| "closer_left AdminClosed = 0"

text \<open>
  \<open>pl_cancelled\<close> of the plane is that the context is cancelled. \<open>qp_answered\<close> are the clients that have
  received the whole of their response: it leaves the server when the handler is done, as
  long as its connection is open.
\<close>

record request_process =
  qp_plane :: plane
  qp_srv :: http_server
  qp_adminSrv :: http_server
  qp_closer :: closer
  qp_answered :: "nat set"
  qp_exit :: "nat option"

definition connected :: "request_process \<Rightarrow> bool" where
  "connected s \<longleftrightarrow> sv_opened (qp_srv s) \<and> qp_closer s \<notin> {ConnsClosed, AdminClosed}"

datatype process_event =
    QPlane plane_event | QDeliver nat | QSignal | QWake | QCloseListener | QCloseConns | QCloseAdmin
  | QServe | QAdminServe | QReturn | QFatal | QAdminFatal | QCrash

inductive process_step ::
  "(bytes \<Rightarrow> json option) \<Rightarrow> (json \<Rightarrow> bytes) \<Rightarrow> (dispatch_error \<Rightarrow> string) \<Rightarrow> Dispatcher \<Rightarrow>
     request_process \<Rightarrow> process_event \<Rightarrow> request_process \<Rightarrow> bool"
  for parse render err_text d where
  q_plane: "\<lbrakk>qp_exit s = None; plane_step parse render err_text d (qp_plane s) e p; e \<noteq> PCancel;
      (\<exists>i. e = PArrive i) \<longrightarrow> connected s\<rbrakk> \<Longrightarrow>
    process_step parse render err_text d s (QPlane e) (s\<lparr>qp_plane := p\<rparr>)"
| q_deliver: "\<lbrakk>qp_exit s = None; pl_clients (qp_plane s) i = Some c; cl_phase c = CDone a; connected s\<rbrakk> \<Longrightarrow>
    process_step parse render err_text d s (QDeliver i) (s\<lparr>qp_answered := insert i (qp_answered s)\<rparr>)"
| q_signal: "\<lbrakk>qp_exit s = None; plane_step parse render err_text d (qp_plane s) PCancel p\<rbrakk> \<Longrightarrow>
    process_step parse render err_text d s QSignal (s\<lparr>qp_plane := p\<rparr>)"
| q_wake: "\<lbrakk>qp_exit s = None; qp_closer s = AwaitsSignal; pl_cancelled (qp_plane s)\<rbrakk> \<Longrightarrow>
    process_step parse render err_text d s QWake (s\<lparr>qp_closer := Woken\<rparr>)"
| q_close_listener: "\<lbrakk>qp_exit s = None; qp_closer s = Woken\<rbrakk> \<Longrightarrow>
    process_step parse render err_text d s QCloseListener
      (s\<lparr>qp_closer := ListenerClosed, qp_srv := (qp_srv s)\<lparr>sv_closed := True\<rparr>\<rparr>)"
| q_close_conns: "\<lbrakk>qp_exit s = None; qp_closer s = ListenerClosed\<rbrakk> \<Longrightarrow>
    process_step parse render err_text d s QCloseConns (s\<lparr>qp_closer := ConnsClosed\<rparr>)"
| q_close_admin: "\<lbrakk>qp_exit s = None; qp_closer s = ConnsClosed\<rbrakk> \<Longrightarrow>
    process_step parse render err_text d s QCloseAdmin
      (s\<lparr>qp_closer := AdminClosed, qp_adminSrv := (qp_adminSrv s)\<lparr>sv_closed := True\<rparr>\<rparr>)"
| q_serve: "\<lbrakk>qp_exit s = None; serve_step (qp_srv s) v\<rbrakk> \<Longrightarrow>
    process_step parse render err_text d s QServe (s\<lparr>qp_srv := v\<rparr>)"
| q_admin_serve: "\<lbrakk>qp_exit s = None; serve_step (qp_adminSrv s) v\<rbrakk> \<Longrightarrow>
    process_step parse render err_text d s QAdminServe (s\<lparr>qp_adminSrv := v\<rparr>)"
| q_return: "\<lbrakk>qp_exit s = None; sv_serving (qp_srv s) = Served ErrServerClosed\<rbrakk> \<Longrightarrow>
    process_step parse render err_text d s QReturn (s\<lparr>qp_exit := Some 0\<rparr>)"
| q_fatal: "\<lbrakk>qp_exit s = None; serve_failed (qp_srv s)\<rbrakk> \<Longrightarrow>
    process_step parse render err_text d s QFatal (s\<lparr>qp_exit := Some 1\<rparr>)"
| q_admin_fatal: "\<lbrakk>qp_exit s = None; serve_failed (qp_adminSrv s)\<rbrakk> \<Longrightarrow>
    process_step parse render err_text d s QAdminFatal (s\<lparr>qp_exit := Some 1\<rparr>)"
| q_crash: "\<lbrakk>qp_exit s = None; pl_pool (qp_plane s) j = Panicked p\<rbrakk> \<Longrightarrow>
    process_step parse render err_text d s QCrash (s\<lparr>qp_exit := Some 2\<rparr>)"

inductive_cases process_stepE: "process_step parse render err_text d s e t"

text \<open>
  The process from the point where \<^verbatim>\<open>main\<close> has built its parts and starts its goroutines. What can happen
  before is in \<open>request_plane_main\<close>: a negative queue capacity panics there, which ends the process
  with 2. A signal before \<^verbatim>\<open>signal.NotifyContext\<close> ends it as the runtime does and is not considered.
\<close>

definition process_start :: "nat \<Rightarrow> Dispatcher \<Rightarrow> request_process \<Rightarrow> bool" where
  "process_start cap d s \<longleftrightarrow>
     plane_start cap d (qp_plane s) \<and> qp_srv s = new_server \<and> qp_adminSrv s = new_server \<and>
     qp_closer s = AwaitsSignal \<and> qp_answered s = {} \<and> qp_exit s = None"

section \<open>What the process keeps\<close>

definition process_inv :: "request_process \<Rightarrow> bool" where
  "process_inv s \<longleftrightarrow>
     server_ok (qp_srv s) \<and> server_ok (qp_adminSrv s) \<and>
     (qp_closer s \<noteq> AwaitsSignal \<longrightarrow> pl_cancelled (qp_plane s)) \<and>
     (sv_closed (qp_srv s) \<longleftrightarrow> closer_left (qp_closer s) \<le> 2) \<and>
     (sv_closed (qp_adminSrv s) \<longleftrightarrow> qp_closer s = AdminClosed) \<and>
     (\<forall>i \<in> qp_answered s. \<exists>c a. pl_clients (qp_plane s) i = Some c \<and> cl_phase c = CDone a) \<and>
     (case qp_exit s of
        None \<Rightarrow> True
      | Some n \<Rightarrow> (n = 0 \<and> sv_serving (qp_srv s) = Served ErrServerClosed) \<or>
          (n = 1 \<and> (serve_failed (qp_srv s) \<or> serve_failed (qp_adminSrv s))) \<or>
          (n = 2 \<and> (\<exists>j p. pl_pool (qp_plane s) j = Panicked p)))"

lemma cancelled_stays: "plane_step parse render err_text d s e t \<Longrightarrow> pl_cancelled s \<Longrightarrow> pl_cancelled t"
  by (erule plane_step.cases) (auto simp: set_client_def set_pool_def set_wires_def)

lemma process_cancelled:
  "process_step parse render err_text d s e t \<Longrightarrow> pl_cancelled (qp_plane s) \<Longrightarrow> pl_cancelled (qp_plane t)"
  by (erule process_step.cases) (auto dest: cancelled_stays)

lemma done_stays:
  assumes "plane_step parse render err_text d s e t" and "pl_clients s i = Some c" and "cl_phase c = CDone a"
  shows "pl_clients t i = Some c"
  using assms by (cases rule: plane_step.cases) (auto simp: set_client_def set_pool_def set_wires_def)

lemma close_ok [simp]: "server_ok (v\<lparr>sv_closed := True\<rparr>)"
  by (simp add: server_ok_def)

lemma process_step_inv:
  assumes "process_step parse render err_text d s e t" and "process_inv s"
  shows "process_inv t"
  using assms(1)
proof (cases rule: process_step.cases)
  case (q_plane e' p)
  then show ?thesis
    using assms(2) cancelled_stays [OF q_plane(4)] done_stays [OF q_plane(4)] by (fastforce simp: process_inv_def)
next
  case (q_signal p)
  then show ?thesis
    using assms(2) cancelled_stays [OF q_signal(4)] done_stays [OF q_signal(4)] by (fastforce simp: process_inv_def)
next
  case (q_serve v)
  then show ?thesis using assms(2) serve_keeps [OF q_serve(4)] by (simp add: process_inv_def)
next
  case (q_admin_serve v)
  then show ?thesis using assms(2) serve_keeps [OF q_admin_serve(4)] by (simp add: process_inv_def)
qed (use assms(2) in \<open>auto simp: process_inv_def\<close>)

interpretation procsys: refinement_map "process_start cap d" "process_step parse render err_text d" process_inv
    "plane_start cap d" "plane_step parse render err_text d" qp_plane
  for cap d parse render err_text
proof unfold_locales
  show "process_inv s" "plane_start cap d (qp_plane s)" if "process_start cap d s" for s
    using that by (simp_all add: process_start_def process_inv_def)
  show "process_inv t" if "process_inv s" "process_step parse render err_text d s e t" for s e t
    using process_step_inv that by blast
  show "qp_plane t = qp_plane s \<or> (\<exists>a. plane_step parse render err_text d (qp_plane s) a (qp_plane t))"
    if "process_step parse render err_text d s e t" for s e t
    using that by (cases rule: process_step.cases) auto
qed

section \<open>Shutting down\<close>

fun shutdown_event :: "process_event \<Rightarrow> bool" where
  "shutdown_event QWake = True"
| "shutdown_event QCloseListener = True"
| "shutdown_event QCloseConns = True"
| "shutdown_event QCloseAdmin = True"
| "shutdown_event QServe = True"
| "shutdown_event QReturn = True"
| "shutdown_event QFatal = True"
| "shutdown_event QAdminFatal = True"
| "shutdown_event QCrash = True"
| "shutdown_event _ = False"

definition shutdown_left :: "request_process \<Rightarrow> nat" where
  "shutdown_left s = (if qp_exit s = None then Suc (closer_left (qp_closer s) + serve_left (sv_serving (qp_srv s))) else 0)"

lemma shutdown_left_bound: "shutdown_left s \<le> 8"
proof -
  have "closer_left (qp_closer s) \<le> 4" by (cases "qp_closer s") simp_all
  moreover have "serve_left (sv_serving (qp_srv s)) \<le> 3" by (cases "sv_serving (qp_srv s)") simp_all
  ultimately show ?thesis by (simp add: shutdown_left_def)
qed

lemma shutdown_left_step:
  assumes "process_step parse render err_text d s e t"
  shows "shutdown_left t + (if shutdown_event e then 1 else 0) \<le> shutdown_left s"
  using assms
proof (cases rule: process_step.cases)
  case (q_serve v)
  then show ?thesis using serve_keeps(3) [OF q_serve(4)] by (simp add: shutdown_left_def)
qed (auto simp: shutdown_left_def)

lemma shutdown_steps_bounded:
  "run (process_step parse render err_text d) s es t \<Longrightarrow> length (filter shutdown_event es) + shutdown_left t \<le> shutdown_left s"
proof (induction rule: run.induct)
  case (run_Cons s e t es u)
  then show ?case using shutdown_left_step [OF run_Cons(1)] by (auto split: if_splits)
qed simp

text \<open>While the process has not exited after a signal, one of the goroutines of the shutdown can go on, whatever the clients do.\<close>

lemma shutdown_moves:
  assumes "process_inv s" and "pl_cancelled (qp_plane s)" and "qp_exit s = None"
  shows "\<exists>e t. shutdown_event e \<and> process_step parse render err_text d s e t \<and> qp_plane t = qp_plane s \<and>
    qp_answered t = qp_answered s \<and> (serve_failed (qp_srv t) \<longleftrightarrow> serve_failed (qp_srv s)) \<and>
    (qp_exit t = None \<or> qp_exit t = Some (if serve_failed (qp_srv s) then 1 else 0))"
    (is "\<exists>e t. ?P e t")
proof (cases "closer_left (qp_closer s) \<le> 2")
  case False
  then consider "qp_closer s = AwaitsSignal" | "qp_closer s = Woken" by (cases "qp_closer s") auto
  then show ?thesis
  proof cases
    case 1
    then have "?P QWake (s\<lparr>qp_closer := Woken\<rparr>)" using q_wake assms by auto
    then show ?thesis by blast
  next
    case 2
    then have "?P QCloseListener (s\<lparr>qp_closer := ListenerClosed, qp_srv := (qp_srv s)\<lparr>sv_closed := True\<rparr>\<rparr>)"
      using q_close_listener assms by (auto simp: serve_failed_def)
    then show ?thesis by blast
  qed
next
  case True
  then have "sv_closed (qp_srv s)" using assms(1) by (simp add: process_inv_def)
  then show ?thesis
  proof (cases rule: serve_moves)
    case (1 v)
    then have "?P QServe (s\<lparr>qp_srv := v\<rparr>)"
      using q_serve [OF assms(3) 1(1)] assms(3) by (auto simp: serve_failed_def elim: serve_stepE)
    then show ?thesis by blast
  next
    case (2 e)
    show ?thesis
    proof (cases e)
      case ErrServerClosed
      then have "?P QReturn (s\<lparr>qp_exit := Some 0\<rparr>)" using q_return assms(3) 2 by (auto simp: serve_failed_def)
      then show ?thesis by blast
    next
      case (ServeFailed m)
      then have "?P QFatal (s\<lparr>qp_exit := Some 1\<rparr>)" using q_fatal assms(3) 2 by (auto simp: serve_failed_def)
      then show ?thesis by blast
    qed
  qed
qed

lemma shutdown_ends:
  assumes "process_inv s" and "pl_cancelled (qp_plane s)" and "qp_exit s = None"
  shows "\<exists>es t. run (process_step parse render err_text d) s es t \<and> length es \<le> shutdown_left s \<and>
    qp_exit t = Some (if serve_failed (qp_srv s) then 1 else 0) \<and> qp_plane t = qp_plane s \<and> qp_answered t = qp_answered s"
  using assms
proof (induction "shutdown_left s" arbitrary: s rule: less_induct)
  case less
  obtain e t where t: "shutdown_event e" "process_step parse render err_text d s e t" "qp_plane t = qp_plane s"
    "qp_answered t = qp_answered s" "serve_failed (qp_srv t) \<longleftrightarrow> serve_failed (qp_srv s)"
    "qp_exit t = None \<or> qp_exit t = Some (if serve_failed (qp_srv s) then 1 else 0)"
    using shutdown_moves [OF less(2-4)] by metis
  have left: "shutdown_left t < shutdown_left s" using shutdown_left_step [OF t(2)] t(1) by simp
  show ?case
  proof (cases "qp_exit t")
    case None
    obtain es u where "run (process_step parse render err_text d) t es u" "length es \<le> shutdown_left t"
      "qp_exit u = Some (if serve_failed (qp_srv s) then 1 else 0)" "qp_plane u = qp_plane s" "qp_answered u = qp_answered s"
      using less(1) [OF left process_step_inv [OF t(2) less(2)] _ None] less(3) t(3-5) by auto
    then show ?thesis using run_Cons [of "process_step parse render err_text d", OF t(2)] left
      by (intro exI [of _ "e # es"] exI [of _ u]) auto
  next
    case (Some n)
    then show ?thesis using run_Cons [of "process_step parse render err_text d", OF t(2) run_Nil] t left
      by (intro exI [of _ "[e]"] exI [of _ t]) auto
  qed
qed

text \<open>
  C20: What the exit code of the request plane's process says. In every reachable state of the process:
  it has exited with 0 only after a signal, when the gateway's server had been closed; with 1
  only if one of its two servers failed to listen or to accept; and no other way, since no goroutine
  of the pool ever panics. A client that has received its response has the complete one of a
  handler that was done.
\<close>

theorem request_plane_exit_codes:
  assumes "reach (process_start cap d) (process_step parse render err_text d) s"
  shows "(case qp_exit s of
      None \<Rightarrow> True
    | Some n \<Rightarrow> (n = 0 \<and> pl_cancelled (qp_plane s) \<and> sv_closed (qp_srv s)) \<or>
        (n = 1 \<and> (serve_failed (qp_srv s) \<or> serve_failed (qp_adminSrv s)))) \<and>
    (\<forall>i \<in> qp_answered s. \<exists>c a. pl_clients (qp_plane s) i = Some c \<and> cl_phase c = CDone a)"
proof -
  have I: "process_inv s" by (rule procsys.reach_inv [OF assms])
  have "plane_inv parse render cap d (qp_plane s)" by (rule planesys.reach_inv [OF procsys.reach_abs [OF assms]])
  then have "pl_pool (qp_plane s) j \<noteq> Panicked p" for j p
    using pool_okD(1) [OF plane_invD(8)] by (metis goroutine_ok.simps(4))
  moreover have "closer_left (qp_closer s) \<le> 2 \<Longrightarrow> pl_cancelled (qp_plane s)"
    using I by (cases "qp_closer s") (auto simp: process_inv_def)
  ultimately show ?thesis using I by (auto simp: process_inv_def server_ok_def split: option.splits)
qed

text \<open>
  C19: After a signal the request plane's process exits, and waits for nobody. From every reachable state in which the signal has arrived
  and the process runs: a run of at most eight steps leads to its exit, with 0 unless its server had failed,
  in which no client gets an answer and no request makes progress, so that a client that had none stays without;
  and however the clients and the pool go on, every run has at most eight steps of the shutdown, and where the process has
  not exited another one is possible.
\<close>

theorem shutdown_waits_for_nobody:
  assumes "reach (process_start cap d) (process_step parse render err_text d) s"
    and "pl_cancelled (qp_plane s)" and "qp_exit s = None"
  shows "(\<exists>es t. run (process_step parse render err_text d) s es t \<and> length es \<le> 8 \<and>
      qp_exit t = Some (if serve_failed (qp_srv s) then 1 else 0) \<and> qp_plane t = qp_plane s \<and> qp_answered t = qp_answered s) \<and>
    (\<forall>es t. run (process_step parse render err_text d) s es t \<longrightarrow>
      length (filter shutdown_event es) \<le> 8 \<and>
      (qp_exit t = None \<longrightarrow> (\<exists>e u. shutdown_event e \<and> process_step parse render err_text d t e u)))"
proof (intro conjI allI impI)
  have I: "process_inv s" by (rule procsys.reach_inv [OF assms(1)])
  show "\<exists>es t. run (process_step parse render err_text d) s es t \<and> length es \<le> 8 \<and>
      qp_exit t = Some (if serve_failed (qp_srv s) then 1 else 0) \<and> qp_plane t = qp_plane s \<and> qp_answered t = qp_answered s"
    using shutdown_ends [OF I assms(2,3)] shutdown_left_bound [of s] le_trans by metis
  fix es t
  assume r: "run (process_step parse render err_text d) s es t"
  show "length (filter shutdown_event es) \<le> 8" using shutdown_steps_bounded [OF r] shutdown_left_bound [of s] by simp
  assume "qp_exit t = None"
  moreover have "pl_cancelled (qp_plane t)"
    using r assms(2) by (induction rule: run.induct) (auto dest: process_cancelled)
  ultimately show "\<exists>e u. shutdown_event e \<and> process_step parse render err_text d t e u"
    using shutdown_moves [OF procsys.run_inv [OF r I]] by blast
qed

section \<open>The control plane's process\<close>

text \<open>
  \<^verbatim>\<open>main\<close> binds the gRPC address, starts the router's and the admin API's servers, which nobody ever
  closes, starts the goroutine that waits for a signal and then calls \<^verbatim>\<open>GracefulStop\<close>, and calls \<^verbatim>\<open>Serve\<close>; nothing keeps the
  goroutine from being faster than the call. \<open>kp_rpcs\<close> are the RPCs in progress; what they do to the
  registry is in \<open>Registry_Steps\<close>. The gRPC library is an argument: \<open>ret late stopped rpcs err\<close> is that \<^verbatim>\<open>Serve\<close> may return
  now with that error (\<open>None\<close> for \<^verbatim>\<open>nil\<close>), \<open>late\<close> telling that the server was stopped when it was called.
\<close>

datatype serve_call = NotCalled | Called bool | Returned_with bool "string option"

record control_process =
  kp_bound :: bool
  kp_router :: rsys
  kp_http :: http_server
  kp_admin :: http_server
  kp_rpcs :: "nat set"
  kp_signalled :: bool
  kp_stopped :: bool
  kp_serve :: serve_call
  kp_exit :: "nat option"

type_synonym grpc_serve = "bool \<Rightarrow> bool \<Rightarrow> nat set \<Rightarrow> string option \<Rightarrow> bool"

datatype control_event =
    KBind | KBindFails | KRouter revent | KRpc nat | KRpcEnd nat | KSignal | KStop
  | KHttp | KAdmin | KFatal | KCall | KServe "string option" | KExit

inductive control_step :: "grpc_serve \<Rightarrow> control_process \<Rightarrow> control_event \<Rightarrow> control_process \<Rightarrow> bool"
  for ret where
  k_bind: "\<lbrakk>kp_exit s = None; \<not> kp_bound s\<rbrakk> \<Longrightarrow> control_step ret s KBind (s\<lparr>kp_bound := True\<rparr>)"
| k_bind_fails: "\<lbrakk>kp_exit s = None; \<not> kp_bound s\<rbrakk> \<Longrightarrow> control_step ret s KBindFails (s\<lparr>kp_exit := Some 1\<rparr>)"
| k_router: "\<lbrakk>kp_exit s = None; route_step (kp_router s) e r; sv_opened (kp_http s)\<rbrakk> \<Longrightarrow>
    control_step ret s (KRouter e) (s\<lparr>kp_router := r\<rparr>)"
| k_rpc: "\<lbrakk>kp_exit s = None; kp_serve s = Called False; \<not> kp_stopped s; n \<notin> kp_rpcs s\<rbrakk> \<Longrightarrow>
    control_step ret s (KRpc n) (s\<lparr>kp_rpcs := insert n (kp_rpcs s)\<rparr>)"
| k_rpc_end: "\<lbrakk>kp_exit s = None; n \<in> kp_rpcs s\<rbrakk> \<Longrightarrow> control_step ret s (KRpcEnd n) (s\<lparr>kp_rpcs := kp_rpcs s - {n}\<rparr>)"
| k_signal: "\<lbrakk>kp_exit s = None; kp_bound s\<rbrakk> \<Longrightarrow> control_step ret s KSignal (s\<lparr>kp_signalled := True\<rparr>)"
| k_stop: "\<lbrakk>kp_exit s = None; kp_signalled s; \<not> kp_stopped s\<rbrakk> \<Longrightarrow> control_step ret s KStop (s\<lparr>kp_stopped := True\<rparr>)"
| k_http: "\<lbrakk>kp_exit s = None; kp_bound s; serve_step (kp_http s) v\<rbrakk> \<Longrightarrow> control_step ret s KHttp (s\<lparr>kp_http := v\<rparr>)"
| k_admin: "\<lbrakk>kp_exit s = None; kp_bound s; serve_step (kp_admin s) v\<rbrakk> \<Longrightarrow> control_step ret s KAdmin (s\<lparr>kp_admin := v\<rparr>)"
| k_fatal: "\<lbrakk>kp_exit s = None; sv_serving (kp_http s) = Served e \<or> sv_serving (kp_admin s) = Served e\<rbrakk> \<Longrightarrow>
    control_step ret s KFatal (s\<lparr>kp_exit := Some 1\<rparr>)"
| k_call: "\<lbrakk>kp_exit s = None; kp_bound s; kp_serve s = NotCalled\<rbrakk> \<Longrightarrow>
    control_step ret s KCall (s\<lparr>kp_serve := Called (kp_stopped s)\<rparr>)"
| k_serve: "\<lbrakk>kp_exit s = None; kp_serve s = Called late; ret late (kp_stopped s) (kp_rpcs s) err\<rbrakk> \<Longrightarrow>
    control_step ret s (KServe err) (s\<lparr>kp_serve := Returned_with late err\<rparr>)"
| k_exit: "\<lbrakk>kp_exit s = None; kp_serve s = Returned_with late err\<rbrakk> \<Longrightarrow>
    control_step ret s KExit (s\<lparr>kp_exit := Some (if err = None then 0 else 1)\<rparr>)"

inductive_cases control_stepE: "control_step ret s e t"

definition control_start :: "control_process \<Rightarrow> bool" where
  "control_start s \<longleftrightarrow>
     \<not> kp_bound s \<and> router_start (kp_router s) \<and> kp_http s = new_server \<and> kp_admin s = new_server \<and>
     kp_rpcs s = {} \<and> \<not> kp_signalled s \<and> \<not> kp_stopped s \<and> kp_serve s = NotCalled \<and> kp_exit s = None"

text \<open>
  What is documented of \<^verbatim>\<open>Serve\<close> and \<^verbatim>\<open>GracefulStop\<close>: \<^verbatim>\<open>Serve\<close> returns a non-nil error unless the server is
  stopped; when the server is stopped while it serves and no RPC is left, it returns \<^verbatim>\<open>nil\<close>; called on a server that
  has been stopped it returns \<^verbatim>\<open>ErrServerStopped\<close>. Nothing is said of other errors while it serves.
\<close>

definition ErrServerStopped :: string where
  "ErrServerStopped = ''grpc: the server has been stopped''"

definition grpc_contract :: "grpc_serve \<Rightarrow> bool" where
  "grpc_contract ret \<longleftrightarrow>
     (\<forall>R. \<not> ret False False R None) \<and> ret False True {} None \<and>
     (\<forall>b R err. ret True b R err \<longleftrightarrow> err = Some ErrServerStopped)"

definition control_inv :: "control_process \<Rightarrow> bool" where
  "control_inv s \<longleftrightarrow>
     server_ok (kp_http s) \<and> server_ok (kp_admin s) \<and> \<not> sv_closed (kp_http s) \<and> \<not> sv_closed (kp_admin s) \<and>
     finite (kp_rpcs s) \<and> (kp_signalled s \<longrightarrow> kp_bound s) \<and> (kp_stopped s \<longrightarrow> kp_signalled s) \<and>
     (kp_serve s = Called True \<longrightarrow> kp_stopped s) \<and>
     (\<forall>late. kp_serve s = Returned_with late None \<longrightarrow> kp_stopped s \<and> \<not> late) \<and>
     (case kp_exit s of
        None \<Rightarrow> True
      | Some n \<Rightarrow> (n = 0 \<and> (\<exists>late. kp_serve s = Returned_with late None)) \<or>
          (n = 1 \<and> (\<not> kp_bound s \<or> serve_failed (kp_http s) \<or> serve_failed (kp_admin s) \<or> (\<exists>late e. kp_serve s = Returned_with late (Some e)))))"

lemma ended_fails: "server_ok v \<Longrightarrow> \<not> sv_closed v \<Longrightarrow> sv_serving v = Served e \<Longrightarrow> serve_failed v"
  by (cases e) (auto simp: server_ok_def serve_failed_def)

lemma control_step_inv:
  assumes "grpc_contract ret" and "control_inv s" and "control_step ret s e t"
  shows "control_inv t"
  using assms(3)
proof (cases rule: control_step.cases)
  case (k_http v)
  then show ?thesis using assms(2) serve_keeps [OF k_http(5)] by (auto simp: control_inv_def)
next
  case (k_admin v)
  then show ?thesis using assms(2) serve_keeps [OF k_admin(5)] by (auto simp: control_inv_def)
next
  case (k_fatal e)
  then show ?thesis using assms(2) ended_fails by (auto simp: control_inv_def)
next
  case (k_serve late err)
  have "kp_stopped s \<and> \<not> late" if "err = None"
    using k_serve(5) that assms(1) by (cases late; cases "kp_stopped s") (auto simp: grpc_contract_def)
  then show ?thesis using assms(2) k_serve(1-3) by (simp add: control_inv_def)
next
  case (k_exit late err)
  then show ?thesis using assms(2) by (cases err) (auto simp: control_inv_def)
qed (use assms(2) in \<open>auto simp: control_inv_def\<close>)

interpretation controlsys: inductive_invariant control_start "control_step ret" "\<lambda>s. grpc_contract ret \<longrightarrow> control_inv s"
  for ret
proof unfold_locales
  show "grpc_contract ret \<longrightarrow> control_inv s" if "control_start s" for s
    using that by (simp add: control_start_def control_inv_def)
qed (use control_step_inv in blast)

text \<open>Letting the RPCs end one by one.\<close>

lemma rpcs_end:
  assumes "finite R" and "kp_rpcs s = R" and "kp_exit s = None"
  shows "run (control_step ret) s (map KRpcEnd (sorted_list_of_set R)) (s\<lparr>kp_rpcs := {}\<rparr>)"
proof -
  have "run (control_step ret) s (map KRpcEnd ns) (s\<lparr>kp_rpcs := {}\<rparr>)"
    if "kp_rpcs s = set ns" "distinct ns" "kp_exit s = None" for ns and s :: control_process
    using that
  proof (induction ns arbitrary: s)
    case (Cons n ns)
    have "control_step ret s (KRpcEnd n) (s\<lparr>kp_rpcs := kp_rpcs s - {n}\<rparr>)" by (rule k_rpc_end) (use Cons(2,4) in simp_all)
    moreover have "run (control_step ret) (s\<lparr>kp_rpcs := kp_rpcs s - {n}\<rparr>) (map KRpcEnd ns) (s\<lparr>kp_rpcs := {}\<rparr>)"
      using Cons(1) [of "s\<lparr>kp_rpcs := kp_rpcs s - {n}\<rparr>"] Cons(2-4) by simp
    ultimately show ?case by (auto simp: run_Cons_iff)
  qed simp
  then show ?thesis using assms by simp
qed

lemma stop_ends:
  assumes "grpc_contract ret" and "kp_exit s = None" and "kp_signalled s" and "kp_serve s = Called False" and "kp_rpcs s = {}"
  shows "\<exists>es t. run (control_step ret) s es t \<and> length es \<le> 3 \<and> kp_exit t = Some 0 \<and> kp_router t = kp_router s"
proof -
  let ?s = "s\<lparr>kp_stopped := True\<rparr>"
  let ?t = "?s\<lparr>kp_serve := Returned_with False None\<rparr>"
  let ?u = "?t\<lparr>kp_exit := Some 0\<rparr>"
  have "control_step ret ?s (KServe None) ?t"
    by (rule k_serve) (use assms in \<open>simp_all add: grpc_contract_def\<close>)
  moreover have "control_step ret ?t KExit ?u" using k_exit [of ?t False None ret] assms(2) by simp
  ultimately have fin: "run (control_step ret) ?s [KServe None, KExit] ?u" by (auto simp: run_Cons_iff)
  show ?thesis
  proof (cases "kp_stopped s")
    case True
    then have "?s = s" by simp
    with fin show ?thesis by (intro exI [of _ "[KServe None, KExit]"] exI [of _ ?u]) simp
  next
    case False
    then have "run (control_step ret) s [KStop, KServe None, KExit] ?u"
      using run_Cons [OF k_stop fin] assms(2,3) by simp
    then show ?thesis by (intro exI [of _ "[KStop, KServe None, KExit]"] exI [of _ ?u]) simp
  qed
qed

lemma serving_ends:
  assumes "grpc_contract ret" and "finite (kp_rpcs s)" and "kp_exit s = None" and "kp_signalled s" and "kp_serve s = Called False"
  shows "\<exists>es t. run (control_step ret) s es t \<and> length es \<le> card (kp_rpcs s) + 3 \<and> kp_exit t = Some 0 \<and> kp_router t = kp_router s"
proof -
  let ?s = "s\<lparr>kp_rpcs := {}\<rparr>"
  obtain es t where t: "run (control_step ret) ?s es t" "length es \<le> 3" "kp_exit t = Some 0" "kp_router t = kp_router s"
    using stop_ends [OF assms(1), of ?s] assms(3-5) by auto
  have "run (control_step ret) s (map KRpcEnd (sorted_list_of_set (kp_rpcs s)) @ es) t"
    by (rule run_append [OF rpcs_end [OF assms(2) refl assms(3)] t(1)])
  then show ?thesis
    using t assms(2) by (intro exI [of _ "map KRpcEnd (sorted_list_of_set (kp_rpcs s)) @ es"] exI [of _ t]) simp
qed

lemma control_can_exit:
  assumes "grpc_contract ret" and "control_inv s" and "kp_exit s = None" and "kp_signalled s"
    and "kp_serve s = NotCalled \<and> \<not> kp_stopped s \<or> kp_serve s = Called False \<or> kp_serve s = Returned_with False None"
  shows "\<exists>es t. run (control_step ret) s es t \<and> length es \<le> card (kp_rpcs s) + 4 \<and> kp_exit t = Some 0 \<and> kp_router t = kp_router s"
proof -
  have fin: "finite (kp_rpcs s)" "kp_bound s" using assms(2,4) by (auto simp: control_inv_def)
  from assms(5) consider "kp_serve s = NotCalled" "\<not> kp_stopped s" | "kp_serve s = Called False" | "kp_serve s = Returned_with False None" by blast
  then show ?thesis
  proof cases
    case 1
    let ?s = "s\<lparr>kp_serve := Called False\<rparr>"
    have "control_step ret s KCall ?s" using k_call [of s ret] 1 assms(3) fin(2) by simp
    moreover obtain es t where "run (control_step ret) ?s es t" "length es \<le> card (kp_rpcs s) + 3" "kp_exit t = Some 0" "kp_router t = kp_router s"
      using serving_ends [OF assms(1), of ?s] assms(3,4) fin(1) by auto
    ultimately show ?thesis by (intro exI [of _ "KCall # es"] exI [of _ t]) (auto simp: run_Cons_iff)
  next
    case 2
    obtain es t where "run (control_step ret) s es t" "length es \<le> card (kp_rpcs s) + 3" "kp_exit t = Some 0" "kp_router t = kp_router s"
      using serving_ends [OF assms(1) fin(1) assms(3,4) 2] by blast
    then show ?thesis by (intro exI [of _ es] exI [of _ t]) simp
  next
    case 3
    then have "control_step ret s KExit (s\<lparr>kp_exit := Some 0\<rparr>)" using k_exit [of s False None ret] assms(3) by simp
    then show ?thesis by (intro exI [of _ "[KExit]"] exI [of _ "s\<lparr>kp_exit := Some 0\<rparr>"]) (auto simp: run_Cons_iff)
  qed
qed

text \<open>Once the server is stopped before \<^verbatim>\<open>Serve\<close> is called, the process cannot exit with 0 any more.\<close>

definition stopped_early :: "control_process \<Rightarrow> bool" where
  "stopped_early s \<longleftrightarrow> kp_stopped s \<and> kp_exit s \<noteq> Some 0 \<and>
     (kp_serve s = NotCalled \<or> kp_serve s = Called True \<or> kp_serve s = Returned_with True (Some ErrServerStopped))"

lemma stopped_early_run:
  assumes "grpc_contract ret" and "run (control_step ret) s es t" and "stopped_early s"
  shows "stopped_early t"
  using assms(2,3)
proof (induction rule: run.induct)
  case (run_Cons s e t es u)
  have "stopped_early t"
    using run_Cons(1,4) assms(1) by (cases rule: control_step.cases) (auto simp: stopped_early_def grpc_contract_def)
  then show ?case by (rule run_Cons.IH)
qed

lemma stopped_early_ends:
  assumes "grpc_contract ret" and "kp_exit s = None" and "kp_stopped s" and "kp_bound s" and "kp_serve s = NotCalled"
  shows "\<exists>es t. run (control_step ret) s es t \<and> length es = 3 \<and> kp_exit t = Some 1 \<and> kp_router t = kp_router s"
proof -
  let ?c = "s\<lparr>kp_serve := Called True\<rparr>"
  let ?r = "s\<lparr>kp_serve := Returned_with True (Some ErrServerStopped)\<rparr>"
  have "control_step ret s KCall ?c" using k_call [of s ret] assms by simp
  moreover have "control_step ret ?c (KServe (Some ErrServerStopped)) ?r"
    using k_serve [of ?c True ret "Some ErrServerStopped"] assms(1,2) by (simp add: grpc_contract_def)
  moreover have "control_step ret ?r KExit (?r\<lparr>kp_exit := Some 1\<rparr>)"
    using k_exit [of ?r True "Some ErrServerStopped" ret] assms(2) by simp
  ultimately have "run (control_step ret) s [KCall, KServe (Some ErrServerStopped), KExit] (?r\<lparr>kp_exit := Some 1\<rparr>)"
    by (auto simp: run_Cons_iff)
  then show ?thesis
    by (intro exI [of _ "[KCall, KServe (Some ErrServerStopped), KExit]"] exI [of _ "?r\<lparr>kp_exit := Some 1\<rparr>"]) simp
qed

text \<open>
  C21: How the control plane's process ends, with a gRPC library that does what its documentation says. In every reachable state: it has
  exited with 0 only after a signal had stopped the gRPC server while it was serving, and with 1 only if the gRPC address could not be
  bound, one of the HTTP servers failed, or \<^verbatim>\<open>Serve\<close> returned an error. Once the signal has arrived, if the server is not stopped
  before \<^verbatim>\<open>Serve\<close> is called and \<^verbatim>\<open>Serve\<close> returns no error, the process can exit with 0 as soon as the RPCs in progress have
  ended; the requests in the router are not waited for: all of them can be where they were when the signal
  arrived. If the signal is so early that the server is stopped before \<^verbatim>\<open>Serve\<close> is called, the process never exits with 0
  although nothing failed, and can exit with 1.
\<close>

theorem control_plane_shutdown:
  assumes "reach control_start (control_step ret) s" and "grpc_contract ret"
  shows "(case kp_exit s of
      None \<Rightarrow> True
    | Some n \<Rightarrow> (n = 0 \<and> kp_signalled s \<and> kp_stopped s \<and> kp_serve s = Returned_with False None) \<or>
        (n = 1 \<and> (\<not> kp_bound s \<or> serve_failed (kp_http s) \<or> serve_failed (kp_admin s) \<or> (\<exists>late e. kp_serve s = Returned_with late (Some e))))) \<and>
    (kp_exit s = None \<longrightarrow> kp_signalled s \<longrightarrow>
       kp_serve s = NotCalled \<and> \<not> kp_stopped s \<or> kp_serve s = Called False \<or> kp_serve s = Returned_with False None \<longrightarrow>
      (\<exists>es t. run (control_step ret) s es t \<and> length es \<le> card (kp_rpcs s) + 4 \<and> kp_exit t = Some 0 \<and> kp_router t = kp_router s)) \<and>
    (kp_exit s = None \<longrightarrow> kp_stopped s \<longrightarrow> kp_serve s = NotCalled \<longrightarrow>
      (\<forall>es t. run (control_step ret) s es t \<longrightarrow> kp_exit t \<noteq> Some 0) \<and>
      (\<exists>es t. run (control_step ret) s es t \<and> length es = 3 \<and> kp_exit t = Some 1 \<and> kp_router t = kp_router s))"
proof (intro conjI impI)
  have I: "control_inv s" using controlsys.reach_inv [OF assms(1)] assms(2) by blast
  then show "case kp_exit s of
      None \<Rightarrow> True
    | Some n \<Rightarrow> (n = 0 \<and> kp_signalled s \<and> kp_stopped s \<and> kp_serve s = Returned_with False None) \<or>
        (n = 1 \<and> (\<not> kp_bound s \<or> serve_failed (kp_http s) \<or> serve_failed (kp_admin s) \<or> (\<exists>late e. kp_serve s = Returned_with late (Some e))))"
    by (auto simp: control_inv_def split: option.splits)
  show "\<exists>es t. run (control_step ret) s es t \<and> length es \<le> card (kp_rpcs s) + 4 \<and> kp_exit t = Some 0 \<and> kp_router t = kp_router s"
    if "kp_exit s = None" "kp_signalled s"
      "kp_serve s = NotCalled \<and> \<not> kp_stopped s \<or> kp_serve s = Called False \<or> kp_serve s = Returned_with False None"
    by (rule control_can_exit [OF assms(2) I that])
  assume e: "kp_exit s = None" "kp_stopped s" "kp_serve s = NotCalled"
  show "\<forall>es t. run (control_step ret) s es t \<longrightarrow> kp_exit t \<noteq> Some 0"
  proof (intro allI impI)
    fix es t assume "run (control_step ret) s es t"
    then have "stopped_early t" by (rule stopped_early_run [OF assms(2)]) (simp add: stopped_early_def e)
    then show "kp_exit t \<noteq> Some 0" by (simp add: stopped_early_def)
  qed
  show "\<exists>es t. run (control_step ret) s es t \<and> length es = 3 \<and> kp_exit t = Some 1 \<and> kp_router t = kp_router s"
    by (rule stopped_early_ends [OF assms(2) e(1,2) _ e(3)]) (use I e(2) in \<open>simp add: control_inv_def\<close>)
qed

section \<open>The properties on runs\<close>

text \<open>
  Both processes with open servers. The request plane's client is waiting when the signal
  arrives, or has its answer; the control plane has a request in the router and an RPC in progress.
\<close>

abbreviation qd_step :: "request_process \<Rightarrow> process_event \<Rightarrow> request_process \<Rightarrow> bool" where
  "qd_step \<equiv> process_step demo_body (\<lambda>_. []) (\<lambda>_. []) rp_up"

abbreviation qd_reach :: "request_process \<Rightarrow> bool" where
  "qd_reach \<equiv> reach (process_start 1 rp_up) qd_step"

definition open_server :: http_server where
  "open_server = \<lparr>sv_closed = False, sv_opened = True, sv_serving = Accepting\<rparr>"

lemma server_opens: "serve_step new_server (new_server\<lparr>sv_serving := Binding\<rparr>)"
  "serve_step (new_server\<lparr>sv_serving := Binding\<rparr>) open_server"
  using serve_bind [of new_server] serve_accept [of "new_server\<lparr>sv_serving := Binding\<rparr>"]
  by (simp_all add: new_server_def open_server_def)

definition qd_process :: "plane \<Rightarrow> nat set \<Rightarrow> request_process" where
  "qd_process p A = \<lparr>qp_plane = p, qp_srv = open_server, qp_adminSrv = new_server, qp_closer = AwaitsSignal,
     qp_answered = A, qp_exit = None\<rparr>"

lemma qd_process_simps [simp]:
  "qp_plane (qd_process p A) = p" "qp_exit (qd_process p A) = None" "qp_answered (qd_process p A) = A" "connected (qd_process p A)"
  "(qd_process p A)\<lparr>qp_plane := p'\<rparr> = qd_process p' A" "qp_closer (qd_process p A) = AwaitsSignal"
  "\<not> serve_failed (qp_srv (qd_process p A))"
  by (simp_all add: qd_process_def connected_def open_server_def serve_failed_def)

lemma qd_opens: "qd_reach (qd_process rp_begin {})"
proof -
  let ?s = "(qd_process rp_begin {})\<lparr>qp_srv := new_server\<rparr>"
  have "qd_reach ?s"
    by (rule reach.reach_start) (use rp_begin_start in \<open>simp add: process_start_def qd_process_def\<close>)
  moreover have "qd_step ?s QServe (?s\<lparr>qp_srv := new_server\<lparr>sv_serving := Binding\<rparr>\<rparr>)"
    by (rule q_serve) (simp_all add: server_opens)
  moreover have "qd_step (?s\<lparr>qp_srv := new_server\<lparr>sv_serving := Binding\<rparr>\<rparr>) QServe (qd_process rp_begin {})"
    using q_serve [of "?s\<lparr>qp_srv := new_server\<lparr>sv_serving := Binding\<rparr>\<rparr>" open_server] server_opens(2)
    by (simp add: qd_process_def)
  ultimately show ?thesis using reach.reach_step by metis
qed

lemma qd_run:
  assumes "run rp_step p es p'" and "PCancel \<notin> set es" and "qd_reach (qd_process p A)"
  shows "qd_reach (qd_process p' A)"
  using assms
proof (induction rule: run.induct)
  case (run_Cons p e q es p')
  have "qd_step (qd_process p A) (QPlane e) (qd_process q A)"
    using q_plane [of "qd_process p A" demo_body "\<lambda>_. []" "\<lambda>_. []" rp_up e q] run_Cons(1,4) by auto
  then show ?case using reach.reach_step [OF run_Cons(5)] run_Cons(3,4) by simp
qed simp

lemma qd_signal:
  assumes "qd_reach (qd_process p A)"
  shows "qd_reach (qd_process (p\<lparr>pl_cancelled := True\<rparr>) A)"
  using reach.reach_step [OF assms q_signal [OF _ p_cancel]] by simp

lemma qd_waiting: "qd_reach (qd_process (rp_with rp_waits (Popping 0) no_wires) {})"
proof -
  have "qd_reach (qd_process (rp_plane rp_gate demo_empty Map.empty Looping no_wires) {})"
    using qd_opens by (simp add: rp_begin_def)
  from qd_run [OF rp_idles [OF rp_queues(1,2) refl] _ this]
  have "qd_reach (qd_process (rp_plane rp_gate (rp_blocked demo_empty) Map.empty (Popping 0) no_wires) {})"
    by (simp add: idle_events_def)
  from qd_run [OF rp_admitted _ this]
  have "qd_reach (qd_process (rp_plane rp_gate1 (rp_blocked demo_empty) (rp_in (CNumbered rp_made None)) (Popping 0) no_wires) {})"
    by simp
  then show ?thesis by (rule qd_run [of _ "[PPush 0]", rotated 2]) (use rp_push in \<open>auto simp: run_Cons_iff\<close>)
qed

lemma qd_answered: "qd_reach (qd_process (rp_done Looping) {0})"
proof -
  have "qd_reach (qd_process (rp_with rp_waits Looping (rp_wires (Some rp_result))) {})"
    by (rule qd_run [of _ "[PTake 0, PDispatch 0]", rotated 2, OF qd_waiting])
      (use rp_take rp_dispatch in \<open>auto simp: run_Cons_iff\<close>)
  then have "qd_reach (qd_process (rp_done Looping) {})" by (rule qd_run [OF rp_finish, rotated]) simp
  moreover have "qd_step (qd_process (rp_done Looping) {}) (QDeliver 0) (qd_process (rp_done Looping) {0})"
    using q_deliver [of "qd_process (rp_done Looping) {}" 0 "\<lparr>cl_http = rp_http, cl_phase = CDone rp_answer\<rparr>" rp_answer]
    by (simp add: rp_done_def) (simp add: qd_process_def)
  ultimately show ?thesis by (rule reach.reach_step)
qed

text \<open>The server of a signalled process is closed, and \<^verbatim>\<open>main\<close> returns.\<close>

definition qd_end :: request_process where
  "qd_end = (qd_process ((rp_done Looping)\<lparr>pl_cancelled := True\<rparr>) {0})\<lparr>qp_closer := ListenerClosed,
     qp_srv := open_server\<lparr>sv_closed := True, sv_serving := Served ErrServerClosed\<rparr>, qp_exit := Some 0\<rparr>"

lemma qd_end_reach: "qd_reach qd_end"
proof -
  let ?s = "qd_process ((rp_done Looping)\<lparr>pl_cancelled := True\<rparr>) {0}"
  let ?w = "?s\<lparr>qp_closer := Woken\<rparr>"
  let ?c = "?s\<lparr>qp_closer := ListenerClosed, qp_srv := open_server\<lparr>sv_closed := True\<rparr>\<rparr>"
  let ?e = "?c\<lparr>qp_srv := open_server\<lparr>sv_closed := True, sv_serving := Served ErrServerClosed\<rparr>\<rparr>"
  have 1: "qd_step ?s QWake ?w" by (rule q_wake) simp_all
  have 2: "qd_step ?w QCloseListener ?c" using q_close_listener [of ?w] by (simp add: qd_process_def)
  have 3: "qd_step ?c QServe ?e"
    by (rule q_serve) (use serve_closed [of "open_server\<lparr>sv_closed := True\<rparr>"] in \<open>simp_all add: open_server_def\<close>)
  have 4: "qd_step ?e QReturn qd_end" using q_return [of ?e] by (simp add: qd_end_def)
  have "run qd_step ?s [QWake, QCloseListener, QServe, QReturn] qd_end" using 1 2 3 4 by (auto simp: run_Cons_iff)
  then show ?thesis by (rule reach_run [OF _ qd_signal [OF qd_answered]])
qed

theorem request_plane_exit_codes_witness:
  "qp_exit qd_end = Some 0 \<and> pl_cancelled (qp_plane qd_end) \<and> (\<exists>c a. pl_clients (qp_plane qd_end) 0 = Some c \<and> cl_phase c = CDone a)"
proof -
  have "qp_exit qd_end = Some 0" "0 \<in> qp_answered qd_end" by (simp_all add: qd_end_def qd_process_def)
  then show ?thesis using request_plane_exit_codes [OF qd_end_reach] by auto
qed

theorem shutdown_waits_for_nobody_witness:
  "\<exists>t. qd_reach t \<and> qp_exit t = Some 0 \<and> qp_answered t = {} \<and>
    pl_clients (qp_plane t) 0 = Some \<lparr>cl_http = rp_http, cl_phase = rp_waits\<rparr>"
proof -
  let ?p = "(rp_with rp_waits (Popping 0) no_wires)\<lparr>pl_cancelled := True\<rparr>"
  note r = qd_signal [OF qd_waiting]
  obtain es t where t: "run qd_step (qd_process ?p {}) es t" "qp_exit t = Some 0" "qp_plane t = ?p" "qp_answered t = {}"
    using shutdown_waits_for_nobody [OF r] by auto
  then show ?thesis using reach_run [OF t(1) r] by (intro exI [of _ t]) simp
qed

definition kd_grpc :: grpc_serve where
  "kd_grpc late stopped rpcs err \<longleftrightarrow>
     (if late then err = Some ErrServerStopped else stopped \<and> rpcs = {} \<and> err = None)"

definition kd_process :: control_process where
  "kd_process = \<lparr>kp_bound = True, kp_router = \<lparr>rs_router = Router_New True, rs_tasks = [0 \<mapsto> pd_task]\<rparr>, kp_http = open_server,
     kp_admin = new_server, kp_rpcs = {7}, kp_signalled = True, kp_stopped = False, kp_serve = Called False, kp_exit = None\<rparr>"

text \<open>The process before anything arrives, and one that is stopped before it serves.\<close>

definition kd_bound :: control_process where
  "kd_bound = \<lparr>kp_bound = True, kp_router = \<lparr>rs_router = Router_New True, rs_tasks = Map.empty\<rparr>, kp_http = new_server,
     kp_admin = new_server, kp_rpcs = {}, kp_signalled = False, kp_stopped = False, kp_serve = NotCalled, kp_exit = None\<rparr>"

abbreviation kd_early :: control_process where
  "kd_early \<equiv> kd_bound\<lparr>kp_signalled := True, kp_stopped := True\<rparr>"

abbreviation kd_reach :: "control_process \<Rightarrow> bool" where
  "kd_reach \<equiv> reach control_start (control_step kd_grpc)"

lemma kd_bound_reach: "kd_reach kd_bound"
proof -
  have "kd_reach (kd_bound\<lparr>kp_bound := False\<rparr>)"
    by (rule reach.reach_start) (auto simp: control_start_def kd_bound_def router_start_def)
  moreover have "control_step kd_grpc (kd_bound\<lparr>kp_bound := False\<rparr>) KBind kd_bound"
    using k_bind [of "kd_bound\<lparr>kp_bound := False\<rparr>"] by (simp add: kd_bound_def)
  ultimately show ?thesis by (rule reach.reach_step)
qed

lemma kd_early_reach: "kd_reach kd_early"
proof -
  have "control_step kd_grpc kd_bound KSignal (kd_bound\<lparr>kp_signalled := True\<rparr>)" using k_signal [of kd_bound] by (simp add: kd_bound_def)
  moreover have "control_step kd_grpc (kd_bound\<lparr>kp_signalled := True\<rparr>) KStop kd_early"
    using k_stop [of "kd_bound\<lparr>kp_signalled := True\<rparr>"] by (simp add: kd_bound_def)
  ultimately show ?thesis using kd_bound_reach by (meson reach.reach_step)
qed

lemma kd_process_reach: "kd_reach kd_process"
proof -
  let ?m = "kd_bound\<lparr>kp_http := new_server\<lparr>sv_serving := Binding\<rparr>\<rparr>"
  let ?o = "kd_bound\<lparr>kp_http := open_server\<rparr>"
  let ?c = "?o\<lparr>kp_serve := Called False\<rparr>"
  let ?p = "kd_process\<lparr>kp_rpcs := {}, kp_signalled := False\<rparr>"
  have "control_step kd_grpc kd_bound KHttp ?m"
    using k_http [of kd_bound "new_server\<lparr>sv_serving := Binding\<rparr>"] server_opens(1) by (simp add: kd_bound_def)
  moreover have "control_step kd_grpc ?m KHttp ?o" using k_http [of ?m open_server] server_opens(2) by (simp add: kd_bound_def)
  moreover have "control_step kd_grpc ?o KCall ?c" using k_call [of ?o] by (simp add: kd_bound_def)
  moreover have "route_step \<lparr>rs_router = Router_New True, rs_tasks = Map.empty\<rparr> (RArrive 0) \<lparr>rs_router = Router_New True, rs_tasks = [0 \<mapsto> pd_task]\<rparr>"
    using begin_arrives [OF pd_routes, of "\<lparr>rs_router = Router_New True, rs_tasks = Map.empty\<rparr>" 0] pd_workers
    by (simp add: keyed_registry_def range_order_def pd_entry_def pd_info_def demo_info_def)
  then have "control_step kd_grpc ?c (KRouter (RArrive 0)) ?p"
    using k_router [of ?c "RArrive 0"] by (simp add: kd_process_def kd_bound_def open_server_def)
  moreover have "control_step kd_grpc ?p (KRpc 7) (kd_process\<lparr>kp_signalled := False\<rparr>)"
    using k_rpc [of ?p 7] by (simp add: kd_process_def)
  moreover have "control_step kd_grpc (kd_process\<lparr>kp_signalled := False\<rparr>) KSignal kd_process"
    using k_signal [of "kd_process\<lparr>kp_signalled := False\<rparr>"] by (simp add: kd_process_def)
  ultimately show ?thesis using kd_bound_reach by (meson reach.reach_step)
qed

theorem control_plane_shutdown_witness:
  "(\<exists>es t. run (control_step kd_grpc) kd_process es t \<and> length es \<le> 5 \<and> kp_exit t = Some 0 \<and>
     rs_tasks (kp_router t) 0 = Some pd_task) \<and>
   (\<exists>es t. run (control_step kd_grpc) kd_early es t \<and> kp_exit t = Some 1)"
proof
  have g: "grpc_contract kd_grpc" by (simp add: grpc_contract_def kd_grpc_def)
  have k: "kp_exit kd_process = None" "kp_signalled kd_process" "kp_serve kd_process = Called False"
    "card (kp_rpcs kd_process) = 1" "rs_tasks (kp_router kd_process) 0 = Some pd_task"
    by (simp_all add: kd_process_def)
  obtain es t where "run (control_step kd_grpc) kd_process es t" "length es \<le> card (kp_rpcs kd_process) + 4" "kp_exit t = Some 0"
    "kp_router t = kp_router kd_process"
    using control_plane_shutdown [OF kd_process_reach g] k(1-3) by blast
  then show "\<exists>es t. run (control_step kd_grpc) kd_process es t \<and> length es \<le> 5 \<and> kp_exit t = Some 0 \<and> rs_tasks (kp_router t) 0 = Some pd_task"
    using k(4,5) by (intro exI [of _ es] exI [of _ t]) simp
  have "kp_exit kd_early = None" "kp_stopped kd_early" "kp_serve kd_early = NotCalled" by (simp_all add: kd_bound_def)
  then show "\<exists>es t. run (control_step kd_grpc) kd_early es t \<and> kp_exit t = Some 1"
    using control_plane_shutdown [OF kd_early_reach g] by blast
qed

end
