(* ===== verification/Spec2Isabelle.thy ===== *)
theory Spec2Isabelle
  imports Processes
begin

text \<open>
  A verification of the LLM inference control plane: a fleet of workers that serve models
  (\<^verbatim>\<open>worker\<close>), a control plane that knows the fleet and routes inference requests to it
  (\<^verbatim>\<open>control-plane\<close>), and a request plane in front of both that authenticates, limits, queues
  and dispatches the requests of clients (\<^verbatim>\<open>request-plane\<close>). All paths are under \<^verbatim>\<open>src/\<close>.

  \<^bold>\<open>How the parts interact.\<close> A worker registers with the registry over gRPC, loads its
  model, reports load and sends heartbeats; the registry arms a deadline timer per worker and
  marks a worker dead if the timer fires. The scaler sweeps the dead workers out of the
  registry and asks the provisioner for replacements. The router asks the registry for the
  healthy workers of a model, picks the least loaded and cheapest, and proxies the request,
  going on to the next candidate when one fails. A client's request enters through the
  gateway: key, rate limit, body, wait estimate, backpressure, queue. A goroutine of the
  dispatcher pops it, sends it to the router (repeating, then falling back to other models)
  and passes the result, or the chunks of a stream, back to the waiting gateway.

  \<^bold>\<open>Theories and sources.\<close>

  \<^item> \<open>Go_Prelude\<close>: instants, durations, wrapping integers, the runs of a step relation (\<open>run\<close>, and \<open>state_path\<close> where
    a property speaks of the states in between), and the
    locales \<open>inductive_invariant\<close>, \<open>refinement_map\<close> and \<open>settling\<close> the transition systems share. \<open>Float64\<close>: binary64.
    \<open>Go_Strings\<close>: the functions of \<^verbatim>\<open>strings\<close>, \<^verbatim>\<open>strconv\<close> and the printing of durations that are used.
    \<open>Net_Http\<close>: requests, response writers, and what \<^verbatim>\<open>json.Unmarshal\<close> does with a parsed value.
  \<^item> \<open>Proto\<close>: messages of \<^verbatim>\<open>proto/registry.pb.go\<close>.
  \<^item> \<open>Registry\<close>, \<open>Registry_Steps\<close>, \<open>Registry_Detection\<close>, \<open>Registry_Reads\<close>:
    \<^verbatim>\<open>control-plane/registry/registry.go\<close>. One function
    per method; entries and timers are two stores, so that a timer that has fired and
    waits for the lock, a stopped one and a replaced one are told apart.
  \<^item> \<open>Router\<close>, \<open>Router_Select\<close>, \<open>Router_Failover\<close>: \<^verbatim>\<open>control-plane/router/router.go\<close>, one request at a
    time. \<open>Router_Concurrency\<close>: many requests, every access to a counter or the hook a step of its own.
  \<^item> \<open>Scaler\<close>: \<^verbatim>\<open>control-plane/scaler/scaler.go\<close>. \<open>Provisioner\<close>: \<^verbatim>\<open>control-plane/provisioner/provisioner.go\<close>.
  \<^item> \<open>Fleet_Admin\<close>: \<^verbatim>\<open>control-plane/api/admin.go\<close>. \<open>Fleet_Metrics\<close>: \<^verbatim>\<open>control-plane/metrics/metrics.go\<close>.
  \<^item> \<open>Request_Queue\<close>, \<open>Queue_Steps\<close>, \<open>Queue_Concurrency\<close>: \<^verbatim>\<open>request-plane/queue/queue.go\<close>.
  \<^item> \<open>Auth\<close>: \<^verbatim>\<open>request-plane/auth\<close>. \<open>Slo\<close>: \<^verbatim>\<open>request-plane/slo\<close> and \<^verbatim>\<open>request-plane/backpressure\<close>.
  \<^item> \<open>Dispatcher\<close>, \<open>Dispatcher_Props\<close>, \<open>Stream_Pump\<close>: \<^verbatim>\<open>request-plane/dispatcher/dispatcher.go\<close>.
  \<^item> \<open>Gateway\<close>, \<open>Gateway_Props\<close>: \<^verbatim>\<open>request-plane/gateway/gateway.go\<close>.
  \<^item> \<open>Request_Plane\<close>, \<open>Request_Plane_Inv\<close>, \<open>Request_Plane_Safety\<close>, \<open>Request_Plane_Progress\<close>: the gateway's handlers,
    the queue, the dispatcher's pool and the channels between them as one concurrent system;
    \<open>Request_Plane_Demo\<close> is a run of it.
  \<^item> \<open>Request_Admin\<close>: \<^verbatim>\<open>request-plane/admin\<close> and the flag parsers of \<^verbatim>\<open>request-plane/cmd/server/main.go\<close>.
  \<^item> \<open>Worker_Agent\<close>, \<open>Agent_Steps\<close>: \<^verbatim>\<open>worker/cmd/mock/main.go\<close> and \<^verbatim>\<open>worker/cmd/ollama/main.go\<close>.
  \<^item> \<open>Wiring\<close>: what the \<^verbatim>\<open>main\<close> functions build from their flags. \<open>End_To_End\<close>: the dispatcher's
    upstream is the router, the router's directory is the registry, one request at a time.
  \<^item> \<open>Platform\<close>, \<open>Platform_Safety\<close>, \<open>Platform_Progress\<close>: the concurrent request plane, the concurrent router and the
    registry with its timers as one system, in which every call of a dispatch is a request of the router;
    \<open>Platform_Demo\<close> is a run of it.
  \<^item> \<open>Processes\<close>: the life of the two server processes, from the first goroutine to the exit code
    (\<^verbatim>\<open>control-plane/cmd/server/main.go\<close>, \<^verbatim>\<open>request-plane/cmd/server/main.go\<close>).

  \<^bold>\<open>What is shown.\<close>

  \<^item> Registry. In every state the clients, the scaler, the admin API and the timers can lead to,
    entries, states, stamps and timers fit together; a worker is dead only after a full timeout
    of silence; each change of state is one of the life-cycle's; whenever the timers that are
    due have fired and their callbacks have run, a worker that was silent for the timeout is dead. The last holds if a heartbeat resets the timer
    and reads the clock at one instant and a registration gets the lock in time; \<open>detection_can_be_lost\<close> shows the run in which it
    does not, and the worker is never detected again. The reads return exactly the healthy workers.
  \<^item> Router. \<open>pickWorker\<close> refines \<open>best_workers\<close>, and the rotation is fair; the failover loop tries
    distinct candidates, at most three, and answers in every case; the in-flight counters come
    back to where they were and the hook is called once. With many requests at once the
    counters are exactly the requests in flight and the hook is called once for each; the
    sequential handler is the run nobody disturbs, and requests that arrive together can make one
    of them panic. Panics of the code are values of the model, and each has its theorem.
  \<^item> Queue. The three lanes refine one list sorted by priority and arrival; with every receive of \<open>Pop\<close> a
    step of its own, no request is lost, duplicated or overtaken within its lane, while one of a
    higher priority can wait while a lower one is handed out.
  \<^item> Rate limits and estimates, in binary64 with every rounding: a key is admitted at most its
    budget plus what flowed in, and a key that waits long enough is admitted; the moving average stays
    among the samples, and the estimate near its formula, so backpressure lets in or sheds by the latencies observed.
  \<^item> Dispatcher and gateway. The nested loops are a walk through the plan of models and repetitions;
    every request that is popped gets one result; admission is characterised check by
    check; each request is recorded once; chunks arrive whole and in order, and a stream
    nobody reads blocks its goroutine.
  \<^item> The request plane as a whole. However clients and goroutines interleave, each client is
    refused, gives up, or gets the result of the one step of the run that dispatched its request, whole;
    the hook counts every handler once; the internal steps cannot go on for ever, and where they
    stop everybody has been answered, unless the pool was cancelled or a stream abandoned. The
    sequential handler is put together from the same pieces (\<open>admit_pieces\<close>, \<open>finish_pieces\<close>).
  \<^item> Scaler, admin APIs, workers. A sweep evicts exactly the expired dead workers of its
    snapshot, also one that has registered again since, and each of them gets one replacement
    command; the views of the fleet agree; a scrape is well typed;
    flags and model names survive their round trips; a drained worker leaves the fleet; a
    worker once marked dead never returns, as neither program registers again.
  \<^item> The whole system, concurrent (\<open>Platform_Safety\<close>, \<open>Platform_Progress\<close>): whatever interleaves and whichever connections
    fail, a client's result is that of the last call made for its own request, the calls follow
    the plan, and a success is made of the bytes of a worker that the registry had given as healthy;
    the size of the pool bounds the load it puts on a worker, and what comes on top of it is of three
    kinds; when nobody new arrives every infinite run ends in events of the registry alone, whatever
    connections fail on the way; and where the internal steps end everybody has been answered.
  \<^item> The processes. The exit code of each tells what ended it; after a signal both end, and neither
    waits for the requests in progress; a signal that comes before the control plane serves makes it exit with 1.
  \<^item> The whole system, one request at a time, in this theory and in \<open>End_To_End\<close>: a request reaches one healthy worker unchanged and its
    answer comes back whole; an answer that breaks off at the worker reaches the
    client as a complete success.

  \<^bold>\<open>Interfaces.\<close> \<open>inductive_invariant\<close> is interpreted for the registry (\<open>regsys\<close>, \<open>syncsys\<close>), the
  router (\<open>routersys\<close>), the queue (\<open>qsystem\<close>), the stream (\<open>pumpsys\<close>),
  the request plane (\<open>planesys\<close>, \<open>hooksys\<close>), lost workers (\<open>lostsys\<close>), the whole system (\<open>platformsys\<close>) and the
  control plane's process (\<open>controlsys\<close>); \<open>refinement_map\<close>, by which a part of a system goes through runs of that
  part alone, for the three parts of the whole system (\<open>fleetpart\<close>, \<open>planepart\<close>, \<open>routerpart\<close>) and for the request
  plane in its process (\<open>procsys\<close>); \<open>settling\<close>, by which internal steps come to an end, and runs with them (\<open>rests\<close>), for the request plane (\<open>planerest\<close>)
  and the whole system (\<open>platformrest\<close>); \<open>worker_directory\<close>, what the
  router relies on, for the registry's reads (\<open>regdir\<close>); \<open>priority_queue\<close>, what the gateway and the
  dispatcher rely on, for the lanes (\<open>pq\<close>).

  \<^bold>\<open>Arguments instead of definitions.\<close> The instants read from the clock, the order in which a map is
  visited, random draws, parsing and printing of JSON texts, the standard library's error texts and number
  parsers, the answers of HTTP calls, of Ollama and of \<^verbatim>\<open>docker\<close>, and the libraries for Prometheus and gRPC are arguments of the
  functions that use them. Where a property needs more of them than any value, its
  hypotheses say what, and its witness gives concrete ones.

  \<^bold>\<open>Bounds.\<close> Every loop of the sources that ends is a total function; the endless loops
  (scaler, heartbeats, load reports, dispatcher pool) are sequences of their iterations, given by
  the list of ticks or pops, so no fuel is used. The numeric properties state the range in which the
  roundings have been bounded: budgets up to 65536 per minute, spans of 65536 seconds and
  at most \<open>2 ^ 20\<close> requests in one of them, averages below \<open>2 ^ 48\<close> nanoseconds (\<open>2 ^ 39\<close>, some 9
  minutes, for the estimate), up to 4096 requests ahead (the default queue holds 3000) and 1024 dispatcher goroutines.
  Outside these ranges the definitions still compute what the code does.

  \<^bold>\<open>Simplifications.\<close> A method that holds its lock throughout is one step. \<open>Register\<close> takes it
  only to store the entry, so it is two steps. Floating point operations round
  one by one, as on amd64, not fused. The two zeros of binary64 are one value. Paths that reach
  the routing of a handler are clean (no \<^verbatim>\<open>//\<close> or \<^verbatim>\<open>..\<close>). Strings are bytes; quoting (\<^verbatim>\<open>%q\<close>) is that of ASCII.
  The concurrent request plane covers runs with fewer than \<open>2 ^ 64\<close> requests, as its channels are named by the
  ids; the lengths of the lanes an estimate uses are read in one step; a wait may time out at any moment.
  In the whole system a call returns when the router's handler has ended or the connection is lost, and the
  body of a response crosses between the planes in one step, whole or broken off at any chunk. A signal that
  arrives before a process has asked for signals is not considered. The model of the request plane's process starts
  where its goroutines do. Redirects, which the router's HTTP client would follow, are
  not followed; a heartbeat of a worker reads the worker's state and calls in one step.

  \<^bold>\<open>Not modelled.\<close> The reflection, wire format and stubs of the generated protobuf code; the
  libraries for gRPC and Prometheus; sockets and most log lines of the \<^verbatim>\<open>main\<close> functions; tests. They
  are I/O or code that is not in the repository.
\<close>

section \<open>Properties of the whole system\<close>

text \<open>
  C16: A request goes through the whole system and back. If the gateway admits a request and,
  when its dispatch reaches the control plane, some healthy worker serves the model and the
  healthy ones are up and answer with a status that is final and neither 502 nor 503, then
  exactly one of these workers is sent the request, with exactly the bytes the client sent;
  and the client gets that worker's status, the bytes the worker sent, whole and in order
  (buffered or streamed), and the name of the model that served it. The gateway's hook
  records the request once, as a success exactly if the status is 2xx.
\<close>

theorem request_reaches_worker_and_back:
  assumes "admit parse t1 t2 g r = (Enqueued req w, g')" and "fleet_up (ps 0) (rq_Model req)"
    and "0 < maxAttempts d" and "hook_stable others"
    and "R = gateway_handleInference parse err_text t1 t2 others (answered_by parse render ps d now) g r"
  shows "\<exists>e up. e \<in> set (serving (ps 0) (rq_Model req)) \<and> ps_workers (ps 0) 1 (worker_url e) = Got up \<and>
    Body r = Some (rq_Body req) \<and>
    map (\<lambda>out. (og_target out, og_method out, og_body out)) (rr_sent (routed parse (ps 0) (rq_Body req))) =
      [(worker_url e, ''POST'', rq_Body req)] \<and>
    gr_panic R = None \<and> rstatus (gr_response R) = Some (us_status up) \<and>
    concat (rbody (gr_response R)) = concat (us_chunks up) \<and>
    rhdr (gr_response R) ''X-Served-Model'' = Some (rq_Model req) \<and>
    g_hookCalls (gr_gateway R) = g_hookCalls g @
      (if g_hasHook g then [(rq_Model req, 200 \<le> us_status up \<and> us_status up < 300)] else [])"
proof -
  obtain e up v g1 where h: "e \<in> set (serving (ps 0) (rq_Model req))" "ps_workers (ps 0) 1 (worker_url e) = Got up"
    "rr_sent (routed parse (ps 0) (rq_Body req)) =
       [proxy_request (upstream_request (rq_Body req)) (worker_url e) (rq_Body req)]"
    "R = \<lparr>gr_panic = None,
        gr_gateway = gateway_hook (rq_Model req) (200 \<le> us_status up \<and> us_status up < 300) g1, gr_response = v\<rparr>"
    "g_hasHook g1 = g_hasHook g" "g_hookCalls g1 = g_hookCalls g"
    "rstatus v = Some (us_status up)" "concat (rbody v) = concat (us_chunks up)"
    "rhdr v ''X-Served-Model'' = Some (rq_Model req)"
    unfolding assms(5) by (rule request_round_trip [where ps = ps, OF assms(1-4)])
  show ?thesis
    using h(1,2,5-9) admitted_request(1) [OF assms(1)]
    by (intro exI [of _ e] exI [of _ up]) (simp add: h(3,4) proxy_request_def upstream_request_def gateway_hook_def)
qed

definition demo_plain_gateway :: Gateway where
  "demo_plain_gateway = Gateway_New demo_queue (30 * Second) [WithRequestHook]"

definition demo_plane :: "upstream_response \<Rightarrow> plane_state" where
  "demo_plane up = \<lparr>ps_registry = demo_pair, ps_order = [''a'', ''b''], ps_router = Router_New True, ps_reads = demo_reads,
     ps_workers = (\<lambda>_ _. Got up)\<rparr>"

lemma demo_plane_up:
  assumes "200 \<le> us_status up" and "us_status up < 500"
  shows "fleet_up (demo_plane up) ''m''"
  using assms demo_pair_ok(4,6,7)
  by (simp add: fleet_up_def serving_def demo_plane_def final_statuses_def isRetryableStatus_def)

lemma demo_admitted: "\<exists>req w g'. admit demo_parse 0 0 demo_plain_gateway demo_request = (Enqueued req w, g') \<and> rq_Model req = ''m''"
  by (simp add: admit_def demo_plain_gateway_def Gateway_New_def WithRequestHook_def authenticate_def demo_request_def
      demo_parse_def unmarshal_payload_def unmarshal_string_field_def unmarshal_bool_field_def enqueue_def Let_def
      estimate_wait_def backpressure_rejects_def parsePriority_def header_get_def new_request_def estimate_header_def
      demo_queue_def Queue_New_def TryPush_def demo_req_def same_field_def lower_char_def)

theorem request_reaches_worker_and_back_witness:
  "rstatus (gr_response (gateway_handleInference demo_parse (\<lambda>_. []) 0 0 id
     (answered_by demo_parse (\<lambda>_. []) (\<lambda>_. demo_plane (demo_answer 200)) demo_dispatcher 1) demo_plain_gateway demo_request)) = Some 200"
proof -
  obtain req w g' where a: "admit demo_parse 0 0 demo_plain_gateway demo_request = (Enqueued req w, g')" "rq_Model req = ''m''"
    using demo_admitted by blast
  have "fleet_up (demo_plane (demo_answer 200)) (rq_Model req)"
    unfolding a(2) by (rule demo_plane_up) (simp_all add: demo_answer_def)
  moreover have "0 < maxAttempts demo_dispatcher" using demo_dispatcher_attempts by simp
  moreover have "hook_stable id" by (simp add: hook_stable_def)
  ultimately show ?thesis
    using request_reaches_worker_and_back [OF a(1), of "\<lambda>_. demo_plane (demo_answer 200)", OF _ _ _ refl, of demo_dispatcher id "\<lambda>_. []" "\<lambda>_. []" 1]
    by (auto simp: demo_plane_def demo_answer_def)
qed

text \<open>
  C38: An answer that breaks off looks complete. If the workers' answers have a 2xx status but
  their connections break before the end, the router notices and counts an error, but it
  ends its own response in order; so the dispatcher does not retry, and the client gets the
  2xx status with the truncated body, nothing that tells it so, and the gateway counts a
  success.
\<close>

theorem truncated_answer_looks_complete:
  assumes "admit parse t1 t2 g r = (Enqueued req w, g')" and "fleet_up (ps 0) (rq_Model req)"
    and "0 < maxAttempts d" and "hook_stable others" and "g_hasHook g" and "hasHook (ps_router (ps 0))"
    and "\<And>e up. e \<in> set (serving (ps 0) (rq_Model req)) \<Longrightarrow> ps_workers (ps 0) 1 (worker_url e) = Got up \<Longrightarrow>
      us_broken up \<and> 200 \<le> us_status up \<and> us_status up < 300"
    and "R = gateway_handleInference parse err_text t1 t2 others (answered_by parse render ps d now) g r"
  shows "\<exists>e up. e \<in> set (serving (ps 0) (rq_Model req)) \<and> ps_workers (ps 0) 1 (worker_url e) = Got up \<and> us_broken up \<and>
    hookCalls (rr_router (routed parse (ps 0) (rq_Body req))) = hookCalls (ps_router (ps 0)) @ [(rq_Model req, ''error'')] \<and>
    g_hookCalls (gr_gateway R) = g_hookCalls g @ [(rq_Model req, True)] \<and>
    gr_panic R = None \<and> rstatus (gr_response R) = Some (us_status up) \<and>
    concat (rbody (gr_response R)) = concat (us_chunks up)"
proof -
  obtain e up v g1 where h: "e \<in> set (serving (ps 0) (rq_Model req))" "ps_workers (ps 0) 1 (worker_url e) = Got up"
    "hookCalls (rr_router (routed parse (ps 0) (rq_Body req))) = hookCalls (ps_router (ps 0)) @
       (if hasHook (ps_router (ps 0)) then [(rq_Model req, if us_broken up then ''error'' else ''success'')] else [])"
    "R = \<lparr>gr_panic = None,
        gr_gateway = gateway_hook (rq_Model req) (200 \<le> us_status up \<and> us_status up < 300) g1, gr_response = v\<rparr>"
    "g_hasHook g1 = g_hasHook g" "g_hookCalls g1 = g_hookCalls g"
    "rstatus v = Some (us_status up)" "concat (rbody v) = concat (us_chunks up)"
    unfolding assms(8) by (rule request_round_trip [where ps = ps, OF assms(1-4)])
  show ?thesis
    using h assms(5,6) assms(7) [OF h(1,2)] by (intro exI [of _ e] exI [of _ up]) (simp add: gateway_hook_def)
qed

theorem truncated_answer_looks_complete_witness:
  "g_hookCalls (gr_gateway (gateway_handleInference demo_parse (\<lambda>_. []) 0 0 id
     (answered_by demo_parse (\<lambda>_. []) (\<lambda>_. demo_plane ((demo_answer 200)\<lparr>us_broken := True\<rparr>)) demo_dispatcher 1)
     demo_plain_gateway demo_request)) = [(''m'', True)]"
proof -
  let ?up = "(demo_answer 200)\<lparr>us_broken := True\<rparr>"
  obtain req w g' where a: "admit demo_parse 0 0 demo_plain_gateway demo_request = (Enqueued req w, g')" "rq_Model req = ''m''"
    using demo_admitted by blast
  have f: "fleet_up (demo_plane ?up) (rq_Model req)"
    unfolding a(2) by (rule demo_plane_up) (simp_all add: demo_answer_def)
  have d: "0 < maxAttempts demo_dispatcher" using demo_dispatcher_attempts by simp
  have h: "hook_stable id" by (simp add: hook_stable_def)
  have g: "g_hasHook demo_plain_gateway" "g_hookCalls demo_plain_gateway = []"
    by (simp_all add: demo_plain_gateway_def Gateway_New_def WithRequestHook_def)
  have hk: "hasHook (ps_router (demo_plane ?up))" by (simp add: demo_plane_def Router_New_def)
  have br: "\<And>e up. e \<in> set (serving (demo_plane ?up) (rq_Model req)) \<Longrightarrow> ps_workers (demo_plane ?up) 1 (worker_url e) = Got up \<Longrightarrow>
      us_broken up \<and> 200 \<le> us_status up \<and> us_status up < 300"
    by (auto simp: demo_plane_def demo_answer_def)
  from truncated_answer_looks_complete [where ps = "\<lambda>_. demo_plane ?up" and err_text = "\<lambda>_. []" and
      render = "\<lambda>_. []" and now = 1, OF a(1) f d h g(1) hk br refl]
  show ?thesis unfolding g(2) a(2) by fastforce
qed

end
